(* ===== verification/Claw_Prelude.thy ===== *)
theory Claw_Prelude
  imports Main
begin

text \<open>
  Shared vocabulary of the development: the types every component uses, sequencing of
  fallible steps, and the small relational-table algebra with which the SQL statements of
  \<^verbatim>\<open>internal/store/database.go\<close> are modelled. A table is the list of its rows
  in insertion order; SELECT is a filter, UPDATE a conditional map, DELETE the complementary
  filter, and \<^verbatim>\<open>RowsAffected\<close> the number of rows the WHERE clause selects.
  The facts collected in \<open>table_simps\<close> are the ones component proofs rewrite with.
\<close>

section \<open>Types\<close>

text \<open>Instants and durations are nanoseconds (Go's \<^verbatim>\<open>time.Time\<close>,
  \<^verbatim>\<open>time.Duration\<close>); ids and text are byte strings.\<close>

type_synonym instant = int
type_synonym duration = int

abbreviation second :: duration where "second \<equiv> 1000000000"
abbreviation minute :: duration where "minute \<equiv> 60 * second"
abbreviation hour :: duration where "hour \<equiv> 60 * minute"

named_theorems table_simps "rewrite rules for the table operations"

section \<open>Fallible steps\<close>

text \<open>A Go call returning \<open>(value, error)\<close> is a sum, the error on the left;
  \<open>try_then\<close> is the \<^verbatim>\<open>if err != nil { return err }\<close> idiom.\<close>

definition try_then :: "'e + 'a \<Rightarrow> ('a \<Rightarrow> 'e + 'b) \<Rightarrow> 'e + 'b" where
  "try_then m f = (case m of Inl e \<Rightarrow> Inl e | Inr a \<Rightarrow> f a)"

lemma try_then_simps [simp]:
  "try_then (Inl e) f = Inl e"
  "try_then (Inr a) f = f a"
  by (simp_all add: try_then_def)

lemma try_then_Inr: "try_then m f = Inr b \<longleftrightarrow> (\<exists>a. m = Inr a \<and> f a = Inr b)"
  by (cases m) simp_all

section \<open>Tables\<close>

definition tbl_select :: "('r \<Rightarrow> bool) \<Rightarrow> 'r list \<Rightarrow> 'r list" where
  "tbl_select w t = filter w t"

definition tbl_first :: "('r \<Rightarrow> bool) \<Rightarrow> 'r list \<Rightarrow> 'r option" where
  "tbl_first w t = find w t"

definition tbl_update :: "('r \<Rightarrow> bool) \<Rightarrow> ('r \<Rightarrow> 'r) \<Rightarrow> 'r list \<Rightarrow> 'r list" where
  "tbl_update w f t = map (\<lambda>r. if w r then f r else r) t"

definition tbl_delete :: "('r \<Rightarrow> bool) \<Rightarrow> 'r list \<Rightarrow> 'r list" where
  "tbl_delete w t = filter (\<lambda>r. \<not> w r) t"

definition tbl_affected :: "('r \<Rightarrow> bool) \<Rightarrow> 'r list \<Rightarrow> nat" where
  "tbl_affected w t = length (filter w t)"

lemma tbl_first_Nil [table_simps]: "tbl_first w [] = None"
  by (simp add: tbl_first_def)

lemma tbl_first_Cons [table_simps]:
  "tbl_first w (r # t) = (if w r then Some r else tbl_first w t)"
  by (simp add: tbl_first_def)

lemma tbl_first_append [table_simps]:
  "tbl_first w (t @ u) = (case tbl_first w t of None \<Rightarrow> tbl_first w u | Some r \<Rightarrow> Some r)"
  by (induction t) (simp_all add: table_simps)

lemma tbl_first_SomeD: "tbl_first w t = Some r \<Longrightarrow> r \<in> set t \<and> w r"
  by (induction t) (auto simp: table_simps split: if_splits)

lemma tbl_first_None [table_simps]: "tbl_first w t = None \<longleftrightarrow> (\<forall>r \<in> set t. \<not> w r)"
  by (induction t) (auto simp: table_simps)

lemma tbl_affected_pos [table_simps]: "0 < tbl_affected w t \<longleftrightarrow> (\<exists>r \<in> set t. w r)"
  by (auto simp: tbl_affected_def filter_empty_conv)

lemma tbl_affected_zero: "tbl_affected w t = 0 \<longleftrightarrow> (\<forall>r \<in> set t. \<not> w r)"
  by (auto simp: tbl_affected_def filter_empty_conv)

lemma tbl_update_none: "\<forall>r \<in> set t. \<not> w r \<Longrightarrow> tbl_update w f t = t"
  by (induction t) (simp_all add: tbl_update_def)

lemma tbl_delete_first [table_simps]: "tbl_first w (tbl_delete w t) = None"
  by (auto simp: table_simps tbl_delete_def)

lemma tbl_first_delete_other:
  "(\<And>r. w r \<Longrightarrow> \<not> v r) \<Longrightarrow> tbl_first w (tbl_delete v t) = tbl_first w t"
  by (induction t) (auto simp: table_simps tbl_delete_def)

text \<open>An update that keeps what the lookup reads moves through the lookup.\<close>

lemma tbl_first_update:
  assumes "\<And>r. w (f r) = w r"
  shows "tbl_first w (tbl_update v f t) =
    map_option (\<lambda>r. if v r then f r else r) (tbl_first w t)"
  using assms by (induction t) (auto simp: table_simps tbl_update_def)

lemma tbl_first_unique:
  assumes "distinct (map k t)" and "r \<in> set t"
  shows "tbl_first (\<lambda>x. k x = k r) t = Some r"
  using assms by (induction t) (auto simp: table_simps)

lemma tbl_update_key [table_simps]:
  assumes "\<And>r. k (f r) = k r"
  shows "map k (tbl_update w f t) = map k t"
  using assms by (induction t) (simp_all add: tbl_update_def)

lemma tbl_delete_distinct: "distinct (map k t) \<Longrightarrow> distinct (map k (tbl_delete w t))"
  by (induction t) (auto simp: tbl_delete_def)

section \<open>Lists\<close>

lemma distinct_snoc_key:
  "distinct (map k t) \<Longrightarrow> k r \<notin> k ` set t \<Longrightarrow> distinct (map k (t @ [r]))"
  by simp

lemma length_filter_update:
  assumes "i < length xs"
  shows "length (filter P (xs[i := c])) + of_bool (P (xs ! i)) = length (filter P xs) + of_bool (P c)"
proof -
  have "length (filter P xs) = length (filter P (take i xs)) + of_bool (P (xs ! i))
      + length (filter P (drop (Suc i) xs))"
    by (subst id_take_nth_drop [OF assms]) simp
  with assms show ?thesis by (simp add: upd_conv_take_nth_drop)
qed

lemma length_filter_update_same:
  "P c = P (xs ! i) \<Longrightarrow> length (filter P (xs[i := c])) = length (filter P xs)"
  using length_filter_update [of i xs P c] by (cases "i < length xs") (auto simp: list_update_beyond)

lemma takeWhile_to_sep [simp]:
  "c \<notin> set x \<Longrightarrow> takeWhile (\<lambda>a. a \<noteq> c) (x @ c # y) = x"
  by (induction x) auto

lemma dropWhile_to_sep [simp]:
  "c \<notin> set x \<Longrightarrow> dropWhile (\<lambda>a. a \<noteq> c) (x @ c # y) = c # y"
  by (induction x) auto

end
