(* ===== verification/Go_Strings.thy ===== *)
theory Go_Strings
  imports Claw_Prelude
begin

text \<open>
  The Go standard-library text functions the modelled code calls: byte strings are
  \<open>string\<close> (a Go string is a byte sequence), runes are code points as \<open>nat\<close>.
  UTF-8 decoding follows \<^verbatim>\<open>utf8.DecodeRuneInString\<close>: an invalid or truncated
  sequence decodes to U+FFFD and consumes one byte. Case mapping covers the ASCII letters and
  the non-ASCII code points that Go maps onto ASCII letters; every other code point is kept,
  which is enough where the code compares the result with ASCII constants.
\<close>

section \<open>Bytes and runes\<close>

abbreviation byte :: "char \<Rightarrow> nat" where "byte c \<equiv> of_char c"

definition rune_error :: nat where "rune_error = 65533"

definition in_range :: "nat \<Rightarrow> nat \<Rightarrow> nat \<Rightarrow> bool" where
  "in_range lo hi n = (lo \<le> n \<and> n \<le> hi)"

fun decode_rune :: "string \<Rightarrow> nat \<times> nat" where
  "decode_rune [] = (rune_error, 0)"
| "decode_rune (a # s) =
     (if byte a < 128 then (byte a, 1)
      else if in_range 194 223 (byte a) then
        (case s of
           b # _ \<Rightarrow> if in_range 128 191 (byte b)
             then ((byte a - 192) * 64 + (byte b - 128), 2) else (rune_error, 1)
         | [] \<Rightarrow> (rune_error, 1))
      else if in_range 224 239 (byte a) then
        (case s of
           b # c # _ \<Rightarrow> if in_range (if byte a = 224 then 160 else 128)
                              (if byte a = 237 then 159 else 191) (byte b)
               \<and> in_range 128 191 (byte c)
             then ((byte a - 224) * 4096 + (byte b - 128) * 64 + (byte c - 128), 3)
             else (rune_error, 1)
         | _ \<Rightarrow> (rune_error, 1))
      else if in_range 240 244 (byte a) then
        (case s of
           b # c # d # _ \<Rightarrow> if in_range (if byte a = 240 then 144 else 128)
                                  (if byte a = 244 then 143 else 191) (byte b)
               \<and> in_range 128 191 (byte c) \<and> in_range 128 191 (byte d)
             then ((byte a - 240) * 262144 + (byte b - 128) * 4096
                    + (byte c - 128) * 64 + (byte d - 128), 4)
             else (rune_error, 1)
         | _ \<Rightarrow> (rune_error, 1))
      else (rune_error, 1))"

lemma decode_rune_size: "s \<noteq> [] \<Longrightarrow> 1 \<le> snd (decode_rune s)"
  by (cases s) (auto split: list.splits)

lemma decode_rune_bound: "snd (decode_rune s) \<le> length s"
  by (cases s) (auto split: list.splits)

lemma decode_rune_ascii: "byte a < 128 \<Longrightarrow> decode_rune (a # s) = (byte a, 1)"
  by simp

declare decode_rune.simps(2) [simp del]

text \<open>\<open>runes s\<close>: the runes of \<open>s\<close>, each with the bytes it was decoded from
  (\<^verbatim>\<open>for _, r := range s\<close>).\<close>

function runes :: "string \<Rightarrow> (nat \<times> string) list" where
  "runes s = (if s = [] then []
     else (fst (decode_rune s), take (snd (decode_rune s)) s)
       # runes (drop (snd (decode_rune s)) s))"
  by pat_completeness auto
termination
proof (relation "measure length", goal_cases)
  case (2 s)
  with decode_rune_size [of s] show ?case by simp
qed simp

declare runes.simps [simp del]

lemma runes_Nil [simp]: "runes [] = []"
  by (simp add: runes.simps)

lemma runes_nonempty:
  "s \<noteq> [] \<Longrightarrow> runes s = (fst (decode_rune s), take (snd (decode_rune s)) s)
     # runes (drop (snd (decode_rune s)) s)"
  by (subst runes.simps) simp

lemma runes_ascii [simp]: "byte a < 128 \<Longrightarrow> runes (a # t) = (byte a, [a]) # runes t"
  by (simp add: runes_nonempty decode_rune_ascii)

lemma runes_concat: "concat (map snd (runes s)) = s"
proof (induction s rule: runes.induct)
  case (1 s)
  then show ?case by (cases "s = []") (simp_all add: runes_nonempty)
qed

definition is_space :: "nat \<Rightarrow> bool" where
  "is_space r = (r \<in> {9, 10, 11, 12, 13, 32, 133, 160, 5760, 8232, 8233, 8239, 8287, 12288}
     \<or> in_range 8192 8202 r)"

text \<open>\<^verbatim>\<open>strings.TrimSpace\<close> and
  \<^verbatim>\<open>strings.TrimRightFunc(s, unicode.IsSpace)\<close>.\<close>

definition trim_right_runes :: "(nat \<times> string) list \<Rightarrow> (nat \<times> string) list" where
  "trim_right_runes rs = rev (dropWhile (\<lambda>(r, _). is_space r) (rev rs))"

definition trim_left_runes :: "(nat \<times> string) list \<Rightarrow> (nat \<times> string) list" where
  "trim_left_runes rs = dropWhile (\<lambda>(r, _). is_space r) rs"

definition trim_space :: "string \<Rightarrow> string" where
  "trim_space s = concat (map snd (trim_right_runes (trim_left_runes (runes s))))"

definition rstrip_ws :: "string \<Rightarrow> string" where
  "rstrip_ws s = concat (map snd (trim_right_runes (runes s)))"

lemma trim_space_Nil [simp]: "trim_space [] = []"
  by (simp add: trim_space_def trim_right_runes_def trim_left_runes_def)

text \<open>An ASCII byte ends a decoding step, so the last rune of \<open>s @ [c]\<close> is \<open>c\<close>.\<close>

lemma decode_rune_snoc:
  assumes "s \<noteq> []" and "byte c < 128"
  shows "decode_rune (s @ [c]) = decode_rune s"
proof -
  have "\<not> in_range 128 191 (byte c)" "\<not> in_range 144 191 (byte c)" "\<not> in_range 160 191 (byte c)"
    "\<not> in_range 128 143 (byte c)" "\<not> in_range 128 159 (byte c)"
    using assms(2) by (auto simp: in_range_def)
  with assms show ?thesis
    by (cases s) (auto simp: decode_rune.simps(2) split: list.splits if_splits)
qed

lemma runes_snoc: "byte c < 128 \<Longrightarrow> runes (s @ [c]) = runes s @ [(byte c, [c])]"
proof (induction s rule: runes.induct)
  case (1 s)
  show ?case
  proof (cases "s = []")
    case True
    with 1 show ?thesis by simp
  next
    case False
    let ?n = "snd (decode_rune s)"
    have d: "decode_rune (s @ [c]) = decode_rune s"
      by (rule decode_rune_snoc) (simp_all add: False 1)
    have n: "?n \<le> length s" by (rule decode_rune_bound)
    have "runes (s @ [c]) = (fst (decode_rune s), take ?n s) # runes (drop ?n s @ [c])"
      using n d by (simp add: runes_nonempty)
    also have "\<dots> = runes s @ [(byte c, [c])]"
      using 1 False by (simp add: runes_nonempty)
    finally show ?thesis .
  qed
qed

lemma trim_space_id:
  assumes "byte a < 128" "\<not> is_space (byte a)" "byte c < 128" "\<not> is_space (byte c)"
  shows "trim_space (a # s @ [c]) = a # s @ [c]"
proof -
  have "runes (a # s @ [c]) = (byte a, [a]) # runes s @ [(byte c, [c])]"
    using assms runes_snoc [of c s] by simp
  then have "trim_space (a # s @ [c]) = [a] @ concat (map snd (runes s)) @ [c]"
    using assms by (simp add: trim_space_def trim_right_runes_def trim_left_runes_def)
  then show ?thesis by (simp add: runes_concat)
qed

section \<open>Prefixes, suffixes, substrings\<close>

definition has_prefix :: "string \<Rightarrow> string \<Rightarrow> bool" where
  "has_prefix s p = (take (length p) s = p)"

definition has_suffix :: "string \<Rightarrow> string \<Rightarrow> bool" where
  "has_suffix s p = (length p \<le> length s \<and> drop (length s - length p) s = p)"

definition trim_prefix :: "string \<Rightarrow> string \<Rightarrow> string" where
  "trim_prefix s p = (if has_prefix s p then drop (length p) s else s)"

definition trim_suffix :: "string \<Rightarrow> string \<Rightarrow> string" where
  "trim_suffix s p = (if has_suffix s p then take (length s - length p) s else s)"

fun contains :: "string \<Rightarrow> string \<Rightarrow> bool" where
  "contains [] p = (p = [])"
| "contains (a # s) p = (has_prefix (a # s) p \<or> contains s p)"

lemma has_prefix_append [simp]: "has_prefix (p @ s) p"
  by (simp add: has_prefix_def)

lemma has_prefix_iff: "has_prefix s p \<longleftrightarrow> (\<exists>t. s = p @ t)"
  by (auto simp: has_prefix_def) (metis append_take_drop_id)

lemma has_suffix_iff: "has_suffix s p \<longleftrightarrow> (\<exists>t. s = t @ p)"
  by (auto simp: has_suffix_def) (metis append_take_drop_id)

lemma has_prefix_Nil [simp]: "has_prefix s []"
  by (simp add: has_prefix_def)

lemma has_prefix_Cons [simp]:
  "has_prefix [] (b # p) = False"
  "has_prefix (a # s) (b # p) = (a = b \<and> has_prefix s p)"
  by (simp_all add: has_prefix_def)

lemma has_suffix_snoc [simp]: "has_suffix (s @ [a]) [b] = (a = b)"
  by (auto simp: has_suffix_iff)

lemma contains_iff: "contains s p \<longleftrightarrow> (\<exists>u v. s = u @ p @ v)"
proof (induction s)
  case Nil
  then show ?case by simp
next
  case (Cons a s)
  have "(\<exists>u v. a # s = u @ p @ v) \<longleftrightarrow> has_prefix (a # s) p \<or> (\<exists>u v. s = u @ p @ v)"
    by (auto simp: has_prefix_iff Cons_eq_append_conv)
  with Cons show ?case by simp
qed

section \<open>Substring search\<close>

text \<open>\<^verbatim>\<open>strings.Cut\<close>, \<^verbatim>\<open>Count\<close> and \<^verbatim>\<open>Replace\<close> for a
  non-empty substring: occurrences are taken from the left and do not overlap.\<close>

fun cut_str :: "string \<Rightarrow> string \<Rightarrow> (string \<times> string) option" where
  "cut_str sep [] = (if sep = [] then Some ([], []) else None)"
| "cut_str sep (a # s) =
     (if has_prefix (a # s) sep then Some ([], drop (length sep) (a # s))
      else map_option (\<lambda>(u, v). (a # u, v)) (cut_str sep s))"

lemma cut_str_Some: "cut_str sep s = Some (u, v) \<Longrightarrow> s = u @ sep @ v"
proof (induction s arbitrary: u)
  case (Cons a s)
  then show ?case
    by (cases "has_prefix (a # s) sep") (auto simp: has_prefix_def, metis append_take_drop_id)
qed (auto split: if_splits)

lemma cut_str_None: "cut_str sep s = None \<longleftrightarrow> \<not> contains s sep"
  by (induction s) auto

function count_str :: "string \<Rightarrow> string \<Rightarrow> nat" where
  "count_str sep s = (if sep = [] then 0 else
     (case cut_str sep s of None \<Rightarrow> 0 | Some p \<Rightarrow> Suc (count_str sep (snd p))))"
  by pat_completeness auto
termination
  by (relation "measure (length \<circ> snd)") (auto dest!: cut_str_Some)

function replace_all_str :: "string \<Rightarrow> string \<Rightarrow> string \<Rightarrow> string" where
  "replace_all_str sep new s = (if sep = [] then s else
     (case cut_str sep s of None \<Rightarrow> s
      | Some p \<Rightarrow> fst p @ new @ replace_all_str sep new (snd p)))"
  by pat_completeness auto
termination
  by (relation "measure (length \<circ> snd \<circ> snd)") (auto dest!: cut_str_Some)

declare count_str.simps [simp del] replace_all_str.simps [simp del]

definition replace_first_str :: "string \<Rightarrow> string \<Rightarrow> string \<Rightarrow> string" where
  "replace_first_str sep new s =
     (case cut_str sep s of None \<Rightarrow> s | Some (u, v) \<Rightarrow> u @ new @ v)"

lemma count_str_0: "sep \<noteq> [] \<Longrightarrow> count_str sep s = 0 \<longleftrightarrow> \<not> contains s sep"
  by (subst count_str.simps) (auto simp: cut_str_None [symmetric] split: option.splits)

lemma count_str_1:
  assumes "sep \<noteq> []" "count_str sep s = 1"
  obtains u v where "cut_str sep s = Some (u, v)" "s = u @ sep @ v" "\<not> contains v sep"
proof (cases "cut_str sep s")
  case None
  with assms show ?thesis by (simp add: count_str.simps [of sep s])
next
  case (Some p)
  with assms have "count_str sep (snd p) = 0" by (simp add: count_str.simps [of sep s])
  with Some assms(1) that cut_str_Some [of sep s "fst p" "snd p"] show ?thesis
    by (cases p) (simp add: count_str_0)
qed

section \<open>Splitting and joining\<close>

text \<open>\<^verbatim>\<open>strings.Split(s, c)\<close> for a one-byte separator,
  \<^verbatim>\<open>strings.Join\<close>, \<^verbatim>\<open>strings.ReplaceAll\<close> for one byte.\<close>

fun split_char :: "char \<Rightarrow> string \<Rightarrow> string list" where
  "split_char c [] = [[]]"
| "split_char c (x # xs) =
     (if x = c then [] # split_char c xs
      else (x # hd (split_char c xs)) # tl (split_char c xs))"

fun join_with :: "string \<Rightarrow> string list \<Rightarrow> string" where
  "join_with sep [] = []"
| "join_with sep [x] = x"
| "join_with sep (x # y # ys) = x @ sep @ join_with sep (y # ys)"

definition replace_byte :: "char \<Rightarrow> string \<Rightarrow> string \<Rightarrow> string" where
  "replace_byte c r s = concat (map (\<lambda>x. if x = c then r else [x]) s)"

lemma split_char_nonempty [simp]: "split_char c s \<noteq> []"
  by (induction s) auto

lemma join_with_Cons: "xs \<noteq> [] \<Longrightarrow> join_with sep (x # xs) = x @ sep @ join_with sep xs"
  by (cases xs) simp_all

lemma join_split [simp]: "join_with [c] (split_char c s) = s"
proof (induction s)
  case Nil
  then show ?case by simp
next
  case (Cons x xs)
  then show ?case
    by (cases "split_char c xs"; cases "tl (split_char c xs)")
      (auto simp: join_with_Cons)
qed

lemma split_char_app:
  "c \<notin> set x \<Longrightarrow> split_char c (x @ c # s) = x # split_char c s"
  by (induction x) auto

lemma split_char_single: "c \<notin> set x \<Longrightarrow> split_char c x = [x]"
  by (induction x) auto

lemma split_join:
  "xs \<noteq> [] \<Longrightarrow> \<forall>x \<in> set xs. c \<notin> set x \<Longrightarrow> split_char c (join_with [c] xs) = xs"
  by (induction "[c]" xs rule: join_with.induct)
    (simp_all add: split_char_single split_char_app)

lemma split_char_no_sep: "x \<in> set (split_char c s) \<Longrightarrow> c \<notin> set x"
proof (induction s arbitrary: x)
  case Nil
  then show ?case by simp
next
  case (Cons y ys)
  show ?case
  proof (cases "y = c")
    case True
    with Cons show ?thesis by auto
  next
    case False
    have "hd (split_char c ys) \<in> set (split_char c ys)"
      "set (tl (split_char c ys)) \<subseteq> set (split_char c ys)"
      by (simp_all add: list.set_sel(2) subsetI)
    with Cons False show ?thesis by auto
  qed
qed

text \<open>\<^verbatim>\<open>strings.Fields\<close>: the maximal runs of non-space runes.\<close>

fun split_fields_from :: "string \<Rightarrow> (nat \<times> string) list \<Rightarrow> string list" where
  "split_fields_from w [] = (if w = [] then [] else [w])"
| "split_fields_from w ((r, b) # rs) =
     (if is_space r then (if w = [] then split_fields_from [] rs else w # split_fields_from [] rs)
      else split_fields_from (w @ b) rs)"

definition split_fields :: "string \<Rightarrow> string list" where
  "split_fields s = split_fields_from [] (runes s)"

section \<open>Case\<close>

definition lower_byte :: "char \<Rightarrow> char" where
  "lower_byte c = (if in_range 65 90 (byte c) then char_of (byte c + 32) else c)"

definition upper_byte :: "char \<Rightarrow> char" where
  "upper_byte c = (if in_range 97 122 (byte c) then char_of (byte c - 32) else c)"

text \<open>U+0130 and U+212A lower to \<open>i\<close> and \<open>k\<close>; U+0131 and U+017F upper to
  \<open>I\<close> and \<open>S\<close>.\<close>

definition to_lower :: "string \<Rightarrow> string" where
  "to_lower s = concat (map (\<lambda>(r, b). if r = 304 then ''i'' else if r = 8490 then ''k''
     else map lower_byte b) (runes s))"

definition to_upper :: "string \<Rightarrow> string" where
  "to_upper s = concat (map (\<lambda>(r, b). if r = 305 then ''I'' else if r = 383 then ''S''
     else map upper_byte b) (runes s))"

definition fold_rune :: "nat \<Rightarrow> nat" where
  "fold_rune r = (if in_range 65 90 r then r + 32 else if r = 8490 then 107
     else if r = 383 then 115 else r)"

definition equal_fold :: "string \<Rightarrow> string \<Rightarrow> bool" where
  "equal_fold s t = (map (fold_rune \<circ> fst) (runes s) = map (fold_rune \<circ> fst) (runes t))"

lemma equal_fold_refl [simp]: "equal_fold s s"
  by (simp add: equal_fold_def)

section \<open>Decimal numbers\<close>

text \<open>\<^verbatim>\<open>strconv.Atoi\<close>: an optional sign, at least one digit, and the value in
  the range of a 64-bit \<^verbatim>\<open>int\<close>; \<^verbatim>\<open>fmt\<close>'s \<open>%d\<close>.\<close>

definition is_digit :: "char \<Rightarrow> bool" where
  "is_digit c = in_range 48 57 (byte c)"

definition digits_value :: "string \<Rightarrow> int" where
  "digits_value ds = foldl (\<lambda>v d. v * 10 + int (byte d - 48)) 0 ds"

definition int_fits :: "int \<Rightarrow> bool" where
  "int_fits v = (- (2 ^ 63) \<le> v \<and> v < 2 ^ 63)"

definition atoi :: "string \<Rightarrow> int option" where
  "atoi s =
     (let neg = has_prefix s ''-'';
          ds = (if neg \<or> has_prefix s ''+'' then tl s else s);
          v = (if neg then - digits_value ds else digits_value ds)
      in if ds \<noteq> [] \<and> list_all is_digit ds \<and> int_fits v then Some v else None)"

fun show_nat :: "nat \<Rightarrow> string" where
  "show_nat n = (if n < 10 then [char_of (48 + n)]
     else show_nat (n div 10) @ [char_of (48 + n mod 10)])"

declare show_nat.simps [simp del]

definition show_int :: "int \<Rightarrow> string" where
  "show_int i = (if i < 0 then CHR ''-'' # show_nat (nat (- i)) else show_nat (nat i))"

lemma digit_byte: "d < 10 \<Longrightarrow> byte (char_of (48 + d) :: char) = 48 + d"
  by (simp add: of_char_of)

lemma show_nat_digits: "show_nat n \<noteq> [] \<and> list_all is_digit (show_nat n)
  \<and> digits_value (show_nat n) = int n"
proof (induction n rule: show_nat.induct)
  case (1 n)
  show ?case
  proof (cases "n < 10")
    case True
    then show ?thesis
      by (subst (1 2 3) show_nat.simps)
        (simp add: is_digit_def in_range_def digits_value_def digit_byte)
  next
    case False
    have d: "byte (char_of (48 + n mod 10) :: char) = 48 + n mod 10"
      by (rule digit_byte) simp
    have e: "show_nat n = show_nat (n div 10) @ [char_of (48 + n mod 10)]"
      using False by (simp add: show_nat.simps)
    have "is_digit (char_of (48 + n mod 10))"
      unfolding is_digit_def in_range_def d by (simp add: less_Suc_eq_le [symmetric])
    with "1.IH" [OF False] d show ?thesis
      unfolding e by (simp add: digits_value_def zmod_int zdiv_int)
  qed
qed

lemma atoi_show_nat:
  assumes "int n < 2 ^ 63"
  shows "atoi (show_nat n) = Some (int n)"
proof -
  obtain c cs where s: "show_nat n = c # cs" and c: "is_digit c"
    using show_nat_digits [of n] by (cases "show_nat n") auto
  then have "c \<noteq> CHR ''-''" "c \<noteq> CHR ''+''"
    by (auto simp: is_digit_def in_range_def)
  with s show ?thesis
    using show_nat_digits [of n] assms by (simp add: atoi_def Let_def int_fits_def)
qed

end
