(* ===== verification/Go_Glob.thy ===== *)
theory Go_Glob
  imports Go_Strings
begin

text \<open>
  \<^verbatim>\<open>path/filepath.Match\<close> (Unix, separator \<open>/\<close>) and
  \<^verbatim>\<open>filepath.Base\<close>, the two standard-library calls of the policy engine's
  matcher. A pattern is cut at its unbracketed stars into chunks; a chunk is matched literally
  with \<open>?\<close>, \<open>[...]\<close> classes and backslash escapes, and a starred chunk is tried at every
  offset before the next separator. \<^verbatim>\<open>ErrBadPattern\<close> is \<open>Bad_Chunk\<close>; the engine
  drops the error and reads such a match as false.
\<close>

datatype chunk_result = Bad_Chunk | No_Match | Chunk_Rest string

fun scan_body :: "bool \<Rightarrow> string \<Rightarrow> string \<times> string" where
  "scan_body inr [] = ([], [])"
| "scan_body inr (c # cs) =
     (if c = CHR 0x5C then
        (case cs of [] \<Rightarrow> ([c], [])
         | d # ds \<Rightarrow> (let (x, y) = scan_body inr ds in (c # d # x, y)))
      else if c = CHR ''*'' \<and> \<not> inr then ([], c # cs)
      else (let (x, y) = scan_body (if c = CHR ''['' then True
                                    else if c = CHR '']'' then False else inr) cs
            in (c # x, y)))"

definition scan_chunk :: "string \<Rightarrow> bool \<times> string \<times> string" where
  "scan_chunk p =
     (let q = dropWhile (\<lambda>c. c = CHR ''*'') p;
          (x, y) = scan_body False q in (q \<noteq> p, x, y))"

definition get_esc :: "string \<Rightarrow> (nat \<times> string) option" where
  "get_esc ch =
     (if ch = [] \<or> hd ch = CHR ''-'' \<or> hd ch = CHR '']'' then None
      else (let c1 = (if hd ch = CHR 0x5C then tl ch else ch);
                (r, n) = decode_rune c1
            in if c1 = [] \<or> (r = rune_error \<and> n = 1) \<or> drop n c1 = [] then None
               else Some (r, drop n c1)))"

lemma get_esc_length:
  assumes "get_esc ch = Some (r, ch')"
  shows "length ch' < length ch"
proof -
  obtain c1 where c1: "c1 \<noteq> []" "length c1 \<le> length ch" "ch' = drop (snd (decode_rune c1)) c1"
    using assms by (auto simp: get_esc_def Let_def split_beta split: if_splits)
  with decode_rune_size [of c1] show ?thesis by (cases c1) auto
qed

function class_ranges :: "nat \<Rightarrow> bool \<Rightarrow> bool \<Rightarrow> string \<Rightarrow> (bool \<times> string) option" where
  "class_ranges r first m ch =
     (if \<not> first \<and> ch \<noteq> [] \<and> hd ch = CHR '']'' then Some (m, tl ch)
      else case get_esc ch of None \<Rightarrow> None
      | Some (lo, ch1) \<Rightarrow>
          (if hd ch1 = CHR ''-'' then
             (case get_esc (tl ch1) of None \<Rightarrow> None
              | Some (hi, ch2) \<Rightarrow> class_ranges r False (m \<or> in_range lo hi r) ch2)
           else class_ranges r False (m \<or> r = lo) ch1))"
  by pat_completeness auto
termination
  by (relation "measure (\<lambda>(r, first, m, ch). length ch)")
    (auto dest!: get_esc_length)

declare class_ranges.simps [simp del]

lemma class_ranges_length:
  "class_ranges r first m ch = Some (m', ch') \<Longrightarrow> length ch' < length ch"
proof (induction r first m ch rule: class_ranges.induct)
  case (1 r first m ch)
  show ?case
  proof (cases "\<not> first \<and> ch \<noteq> [] \<and> hd ch = CHR '']''")
    case True
    then have "class_ranges r first m ch = Some (m, tl ch)"
      by (subst class_ranges.simps) simp
    with "1.prems" True show ?thesis by (cases ch) simp_all
  next
    case False
    with "1.prems" obtain lo ch1 where lo: "get_esc ch = Some (lo, ch1)"
      by (auto simp: class_ranges.simps [of r first m ch] split: option.splits)
    have l1: "length ch1 < length ch" by (rule get_esc_length [OF lo])
    show ?thesis
    proof (cases "hd ch1 = CHR ''-''")
      case True
      with False lo "1.prems" obtain hi ch2 where hi: "get_esc (tl ch1) = Some (hi, ch2)"
        by (auto simp: class_ranges.simps [of r first m ch] split: option.splits)
      have "class_ranges r first m ch = class_ranges r False (m \<or> in_range lo hi r) ch2"
        using False lo hi True by (subst class_ranges.simps) auto
      then have "length ch' < length ch2"
        using "1.IH"(1) [OF False lo refl True hi refl] "1.prems" by simp
      with get_esc_length [OF hi] l1 show ?thesis by simp
    next
      case F: False
      have "class_ranges r first m ch = class_ranges r False (m \<or> r = lo) ch1"
        using False lo F by (subst class_ranges.simps) auto
      then have "length ch' < length ch1"
        using "1.IH"(2) [OF False lo refl F] "1.prems" by simp
      with l1 show ?thesis by simp
    qed
  qed
qed

definition chunk_class :: "string \<Rightarrow> nat \<Rightarrow> (bool \<times> string) option" where
  "chunk_class ch r =
     (let neg = (ch \<noteq> [] \<and> hd ch = CHR ''^'');
          c1 = (if neg then tl ch else ch)
      in map_option (\<lambda>(m, c2). (m \<noteq> neg, c2)) (class_ranges r True False c1))"

lemma chunk_class_length: "chunk_class ch r = Some (b, ch') \<Longrightarrow> length ch' < length ch"
  by (auto simp: chunk_class_def Let_def dest!: class_ranges_length split: if_splits)

text \<open>\<open>match_chunk failed chunk s\<close>: once the match has failed the chunk is still read to
  its end, only to check that it is well formed.\<close>

function match_chunk :: "bool \<Rightarrow> string \<Rightarrow> string \<Rightarrow> chunk_result" where
  "match_chunk failed chunk s =
     (case chunk of [] \<Rightarrow> (if failed then No_Match else Chunk_Rest s)
      | c # cs \<Rightarrow>
        (let f = (failed \<or> s = []); n = snd (decode_rune s)
         in if c = CHR ''['' then
              (case chunk_class cs (if f then 0 else fst (decode_rune s)) of
                 None \<Rightarrow> Bad_Chunk
               | Some (ok, ch') \<Rightarrow> match_chunk (f \<or> \<not> ok) ch' (if f then s else drop n s))
            else if c = CHR ''?'' then
              match_chunk (f \<or> hd s = CHR ''/'') cs (if f then s else drop n s)
            else if c = CHR 0x5C then
              (case cs of [] \<Rightarrow> Bad_Chunk
               | d # ds \<Rightarrow> match_chunk (f \<or> d \<noteq> hd s) ds (if f then s else tl s))
            else match_chunk (f \<or> c \<noteq> hd s) cs (if f then s else tl s)))"
  by pat_completeness auto
termination
  by (relation "measure (\<lambda>(failed, chunk, s). length chunk)")
    (auto dest!: chunk_class_length)

declare match_chunk.simps [simp del]

fun star_try :: "string \<Rightarrow> bool \<Rightarrow> string \<Rightarrow> string option" where
  "star_try chunk final [] = None"
| "star_try chunk final (c # cs) =
     (if c = CHR ''/'' then None
      else case match_chunk False chunk cs of
        Chunk_Rest t \<Rightarrow> (if final \<and> t \<noteq> [] then star_try chunk final cs else Some t)
      | Bad_Chunk \<Rightarrow> None
      | No_Match \<Rightarrow> star_try chunk final cs)"

lemma scan_body_length: "scan_body inr p = (x, y) \<Longrightarrow> length x + length y = length p"
  by (induction inr p arbitrary: x y rule: scan_body.induct)
    (auto simp: Let_def split: if_splits list.splits prod.splits)

lemma dropWhile_shorter: "dropWhile P xs \<noteq> xs \<Longrightarrow> length (dropWhile P xs) < length xs"
  by (cases xs) (auto split: if_splits intro: le_imp_less_Suc length_dropWhile_le)

lemma scan_chunk_length:
  assumes "p \<noteq> []"
  shows "length (snd (snd (scan_chunk p))) < length p"
proof -
  let ?q = "dropWhile (\<lambda>c. c = CHR ''*'') p"
  obtain x y where xy: "scan_body False ?q = (x, y)" by (cases "scan_body False ?q")
  have l: "length x + length y = length ?q" by (rule scan_body_length [OF xy])
  have "length y < length p"
  proof (cases "?q = p")
    case True
    obtain c cs where p: "p = c # cs" using assms by (auto simp: neq_Nil_conv)
    have "c \<noteq> CHR ''*''"
      using arg_cong [OF True, of length] length_dropWhile_le [of "\<lambda>c. c = CHR ''*''" cs]
      by (auto simp: p)
    then have "x \<noteq> []" using xy True p
      by (auto simp: Let_def split: if_splits list.splits prod.splits)
    with l True show ?thesis by (cases x) auto
  next
    case False
    then have "length ?q < length p" by (rule dropWhile_shorter)
    with l show ?thesis by simp
  qed
  with xy show ?thesis by (simp add: scan_chunk_def Let_def)
qed

function glob_match :: "string \<Rightarrow> string \<Rightarrow> bool" where
  "glob_match p name =
     (if p = [] then name = []
      else (let star = fst (scan_chunk p); chunk = fst (snd (scan_chunk p));
                rest = snd (snd (scan_chunk p))
            in if star \<and> chunk = [] then CHR ''/'' \<notin> set name
               else case match_chunk False chunk name of
                 Bad_Chunk \<Rightarrow> False
               | Chunk_Rest t \<Rightarrow>
                   (if t = [] \<or> rest \<noteq> [] then glob_match rest t
                    else if star then
                      (case star_try chunk (rest = []) name of
                         None \<Rightarrow> False | Some u \<Rightarrow> glob_match rest u)
                    else False)
               | No_Match \<Rightarrow>
                   (if star then
                      (case star_try chunk (rest = []) name of
                         None \<Rightarrow> False | Some u \<Rightarrow> glob_match rest u)
                    else False)))"
  by pat_completeness auto
termination
  by (relation "measure (\<lambda>(p, name). length p)")
    (simp_all add: scan_chunk_length)

declare glob_match.simps [simp del]

definition path_base :: "string \<Rightarrow> string" where
  "path_base p =
     (if p = [] then ''.''
      else (let q = rev (dropWhile (\<lambda>c. c = CHR ''/'') (rev p))
            in if q = [] then ''/''
               else rev (takeWhile (\<lambda>c. c \<noteq> CHR ''/'') (rev q))))"

section \<open>Literal patterns and one-level directory patterns\<close>

definition plain :: "char \<Rightarrow> bool" where
  "plain c = (c \<notin> {CHR ''*'', CHR ''?'', CHR ''['', CHR '']'', CHR 0x5C})"

lemma scan_body_plain:
  "list_all plain lit \<Longrightarrow> scan_body False (lit @ CHR ''*'' # p) = (lit, CHR ''*'' # p)"
  "list_all plain lit \<Longrightarrow> scan_body False lit = (lit, [])"
  by (induction lit) (auto simp: plain_def)

lemma match_chunk_Nil: "match_chunk f [] s = (if f then No_Match else Chunk_Rest s)"
  by (subst match_chunk.simps) simp

lemma match_chunk_plain_Cons:
  "plain c \<Longrightarrow> match_chunk f (c # cs) s =
     match_chunk (f \<or> s = [] \<or> c \<noteq> hd s) cs (if f \<or> s = [] then s else tl s)"
  by (subst match_chunk.simps) (simp add: plain_def Let_def)

lemma match_chunk_failed: "list_all plain lit \<Longrightarrow> match_chunk True lit s = No_Match"
  by (induction lit) (simp_all add: match_chunk_Nil match_chunk_plain_Cons)

lemma match_chunk_plain:
  "list_all plain lit \<Longrightarrow> match_chunk False lit s =
     (if has_prefix s lit then Chunk_Rest (drop (length lit) s) else No_Match)"
proof (induction lit arbitrary: s)
  case Nil
  then show ?case by (simp add: match_chunk_Nil)
next
  case (Cons c cs)
  then show ?case
    by (cases s; cases "c = hd s") (auto simp: match_chunk_plain_Cons match_chunk_failed)
qed

lemma glob_match_Nil: "glob_match [] s \<longleftrightarrow> s = []"
  by (subst glob_match.simps) simp

lemma scan_chunk_plain:
  assumes "list_all plain lit"
  shows "scan_chunk lit = (False, lit, [])"
    and "lit \<noteq> [] \<Longrightarrow> scan_chunk (lit @ ''*'') = (False, lit, ''*'')"
proof -
  have "dropWhile (\<lambda>c. c = CHR ''*'') lit = lit"
    using assms by (cases lit) (auto simp: plain_def)
  with assms show "scan_chunk lit = (False, lit, [])"
    by (simp add: scan_chunk_def scan_body_plain)
  assume "lit \<noteq> []"
  with assms have "dropWhile (\<lambda>c. c = CHR ''*'') (lit @ ''*'') = lit @ ''*''"
    by (cases lit) (auto simp: plain_def)
  with assms show "scan_chunk (lit @ ''*'') = (False, lit, ''*'')"
    by (simp add: scan_chunk_def scan_body_plain)
qed

lemma glob_match_plain:
  assumes "list_all plain lit"
  shows "glob_match lit s \<longleftrightarrow> s = lit"
  using assms
  by (subst glob_match.simps)
    (auto simp: scan_chunk_plain match_chunk_plain glob_match_Nil has_prefix_iff)

lemma glob_match_star: "glob_match ''*'' t \<longleftrightarrow> CHR ''/'' \<notin> set t"
  by (subst glob_match.simps) (simp add: scan_chunk_def Let_def)

lemma glob_match_one_level:
  assumes "list_all plain lit" and "lit \<noteq> []"
  shows "glob_match (lit @ ''*'') s \<longleftrightarrow> (\<exists>x. s = lit @ x \<and> CHR ''/'' \<notin> set x)"
  using assms
  by (subst glob_match.simps)
    (auto simp: scan_chunk_plain match_chunk_plain glob_match_star has_prefix_iff)

end
