(* ===== verification/Policy.thy ===== *)
theory Policy
  imports Go_Glob
begin

text \<open>
  The agent policy engine, \<^verbatim>\<open>internal/policy\<close>: the policy data, the three
  presets, the matchers, and the filesystem, network and tool checks. A check returns
  \<^verbatim>\<open>error\<close> in Go; here \<open>None\<close> is the nil error and \<open>Some e\<close> a refusal, one
  constructor per \<^verbatim>\<open>fmt.Errorf\<close> of the source.
\<close>

section \<open>Policy data\<close>

record fs_policy =
  allow_read :: "string list"
  allow_write :: "string list"
  deny_read :: "string list"
  deny_write :: "string list"

record net_rule =
  rule_host :: string
  rule_ports :: "int list"
  rule_methods :: "string list"
  rule_paths :: "string list"

record net_policy =
  outbound :: "net_rule list"
  net_mode :: string

record tools_policy =
  tools_allow :: "string list"
  tools_deny :: "string list"

record res_policy =
  max_cpu :: string
  max_memory :: string
  max_disk_mb :: int
  exec_timeout :: int

record agent_policy =
  policy_name :: string
  policy_description :: string
  filesystem :: fs_policy
  network :: net_policy
  tools :: tools_policy
  resources :: res_policy

datatype policy_error =
    WriteDenied string string
  | WriteNotAllowed string
  | ReadDenied string string
  | ReadNotAllowed string
  | NetworkAllDenied
  | NetworkDenied string int
  | ToolDenied string
  | ToolNotAllowed string

section \<open>Presets\<close>

definition empty_fs :: fs_policy where
  "empty_fs = \<lparr>allow_read = [], allow_write = [], deny_read = [], deny_write = []\<rparr>"

definition empty_res :: res_policy where
  "empty_res = \<lparr>max_cpu = [], max_memory = [], max_disk_mb = 0, exec_timeout = 0\<rparr>"

definition default_policy :: agent_policy where
  "default_policy = \<lparr>policy_name = ''permissive'',
     policy_description = ''Allows all operations (default)'',
     filesystem = empty_fs,
     network = \<lparr>outbound = [], net_mode = ''permissive''\<rparr>,
     tools = \<lparr>tools_allow = [''*''], tools_deny = []\<rparr>,
     resources = empty_res\<rparr>"

definition restricted_policy :: agent_policy where
  "restricted_policy = \<lparr>policy_name = ''restricted'',
     policy_description = ''Denies all operations unless explicitly allowed'',
     filesystem = \<lparr>allow_read = [], allow_write = [],
       deny_read = [''/etc/shadow'', ''/etc/passwd''],
       deny_write = [''/etc/*'', ''/usr/*'', ''/bin/*'', ''/sbin/*'', ''/var/*'']\<rparr>,
     network = \<lparr>outbound = [], net_mode = ''none''\<rparr>,
     tools = \<lparr>tools_allow = [], tools_deny = [''exec'']\<rparr>,
     resources = \<lparr>max_cpu = ''1'', max_memory = ''256m'', max_disk_mb = 0, exec_timeout = 30\<rparr>\<rparr>"

definition standard_policy :: agent_policy where
  "standard_policy = \<lparr>policy_name = ''standard'',
     policy_description = ''Sensible defaults: no write to system dirs, allowlist network'',
     filesystem = \<lparr>allow_read = [], allow_write = [], deny_read = [''/etc/shadow''],
       deny_write = [''/etc/*'', ''/usr/*'', ''/bin/*'', ''/sbin/*'']\<rparr>,
     network = \<lparr>outbound = [], net_mode = ''permissive''\<rparr>,
     tools = \<lparr>tools_allow = [''*''], tools_deny = []\<rparr>,
     resources = \<lparr>max_cpu = ''2'', max_memory = ''512m'', max_disk_mb = 0, exec_timeout = 60\<rparr>\<rparr>"

definition load_preset :: "string \<Rightarrow> agent_policy" where
  "load_preset name =
     (let l = to_lower name
      in if l = ''restricted'' then restricted_policy
         else if l = ''standard'' then standard_policy
         else default_policy)"

definition new_engine :: "agent_policy option \<Rightarrow> agent_policy" where
  "new_engine p = (case p of None \<Rightarrow> default_policy | Some q \<Rightarrow> q)"

section \<open>Matchers\<close>

definition match_glob :: "string \<Rightarrow> string \<Rightarrow> bool" where
  "match_glob pattern path = (glob_match pattern path \<or> glob_match pattern (path_base path))"

fun match_any :: "string list \<Rightarrow> string \<Rightarrow> bool" where
  "match_any [] path = False"
| "match_any (p # ps) path =
     (if match_glob p path then True
      else if has_suffix p ''*'' \<and> has_prefix path (trim_suffix p ''*'') then True
      else if has_prefix path p then True
      else match_any ps path)"

definition match_host :: "string \<Rightarrow> string \<Rightarrow> bool" where
  "match_host pattern host =
     (if pattern = ''*'' then True
      else if has_prefix pattern ''*.'' then
        has_suffix host (drop 1 pattern) \<or> host = drop 2 pattern
      else pattern = host)"

fun contains_int :: "int list \<Rightarrow> int \<Rightarrow> bool" where
  "contains_int [] val = False"
| "contains_int (v # vs) val = (if v = val then True else contains_int vs val)"

fun contains_str :: "string list \<Rightarrow> string \<Rightarrow> bool" where
  "contains_str [] val = False"
| "contains_str (v # vs) val = (if equal_fold v val then True else contains_str vs val)"

section \<open>Checks\<close>

fun first_denied :: "string list \<Rightarrow> string \<Rightarrow> string option" where
  "first_denied [] path = None"
| "first_denied (p # ps) path = (if match_glob p path then Some p else first_denied ps path)"

definition check_filesystem :: "agent_policy \<Rightarrow> string \<Rightarrow> bool \<Rightarrow> policy_error option" where
  "check_filesystem pol path write =
     (let fs = filesystem pol
      in if write then
           (case first_denied (deny_write fs) path of
              Some p \<Rightarrow> Some (WriteDenied path p)
            | None \<Rightarrow> if allow_write fs \<noteq> [] \<and> \<not> match_any (allow_write fs) path
                then Some (WriteNotAllowed path) else None)
         else
           (case first_denied (deny_read fs) path of
              Some p \<Rightarrow> Some (ReadDenied path p)
            | None \<Rightarrow> if allow_read fs \<noteq> [] \<and> \<not> match_any (allow_read fs) path
                then Some (ReadNotAllowed path) else None))"

fun outbound_allows :: "net_rule list \<Rightarrow> string \<Rightarrow> int \<Rightarrow> string \<Rightarrow> string \<Rightarrow> bool" where
  "outbound_allows [] host port meth path = False"
| "outbound_allows (r # rs) host port meth path =
     (if \<not> match_host (rule_host r) host then outbound_allows rs host port meth path
      else if rule_ports r \<noteq> [] \<and> \<not> contains_int (rule_ports r) port
        then outbound_allows rs host port meth path
      else if rule_methods r \<noteq> [] \<and> \<not> contains_str (rule_methods r) (to_upper meth)
        then outbound_allows rs host port meth path
      else if rule_paths r \<noteq> [] \<and> \<not> match_any (rule_paths r) path
        then outbound_allows rs host port meth path
      else True)"

definition check_network ::
  "agent_policy \<Rightarrow> string \<Rightarrow> int \<Rightarrow> string \<Rightarrow> string \<Rightarrow> policy_error option" where
  "check_network pol host port meth path =
     (let net = network pol
      in if net_mode net = ''none'' then Some NetworkAllDenied
         else if net_mode net = ''permissive'' \<or> net_mode net = [] then None
         else if net_mode net = ''allowlist'' then
           (if outbound_allows (outbound net) host port meth path then None
            else Some (NetworkDenied host port))
         else None)"

fun names_tool :: "string list \<Rightarrow> string \<Rightarrow> bool" where
  "names_tool [] t = False"
| "names_tool (d # ds) t = (if d = t \<or> d = ''*'' then True else names_tool ds t)"

definition check_tool :: "agent_policy \<Rightarrow> string \<Rightarrow> policy_error option" where
  "check_tool pol t =
     (if names_tool (tools_deny (tools pol)) t then Some (ToolDenied t)
      else if tools_allow (tools pol) \<noteq> [] then
        (if names_tool (tools_allow (tools pol)) t then None else Some (ToolNotAllowed t))
      else None)"

section \<open>Lemmas\<close>

named_theorems policy_simps "what the list scans of the policy engine decide"

lemma first_denied_None [policy_simps]:
  "first_denied ps path = None \<longleftrightarrow> (\<forall>p \<in> set ps. \<not> match_glob p path)"
  by (induction ps) auto

lemma first_denied_Some:
  "first_denied ps path = Some p \<Longrightarrow> p \<in> set ps \<and> match_glob p path"
  by (induction ps) (auto split: if_splits)

lemma contains_int_iff [policy_simps]: "contains_int vs v \<longleftrightarrow> v \<in> set vs"
  by (induction vs) auto

lemma contains_str_iff [policy_simps]: "contains_str vs v \<longleftrightarrow> (\<exists>x \<in> set vs. equal_fold x v)"
  by (induction vs) auto

lemma names_tool_iff [policy_simps]: "names_tool ds t \<longleftrightarrow> t \<in> set ds \<or> ''*'' \<in> set ds"
  by (induction ds) auto

lemma match_any_iff [policy_simps]:
  "match_any ps path \<longleftrightarrow> (\<exists>p \<in> set ps. match_glob p path
     \<or> (has_suffix p ''*'' \<and> has_prefix path (trim_suffix p ''*'')) \<or> has_prefix path p)"
  by (induction ps) auto

definition rule_admits :: "net_rule \<Rightarrow> string \<Rightarrow> int \<Rightarrow> string \<Rightarrow> string \<Rightarrow> bool" where
  "rule_admits r host port meth path \<longleftrightarrow>
     match_host (rule_host r) host
     \<and> (rule_ports r = [] \<or> port \<in> set (rule_ports r))
     \<and> (rule_methods r = [] \<or> (\<exists>m \<in> set (rule_methods r). equal_fold m (to_upper meth)))
     \<and> (rule_paths r = [] \<or> match_any (rule_paths r) path)"

lemma outbound_allows_iff [policy_simps]:
  "outbound_allows rs host port meth path \<longleftrightarrow>
     (\<exists>r \<in> set rs. rule_admits r host port meth path)"
proof (induction rs)
  case Nil
  then show ?case by simp
next
  case (Cons r rs)
  have "outbound_allows (r # rs) host port meth path
      \<longleftrightarrow> rule_admits r host port meth path \<or> outbound_allows rs host port meth path"
    by (simp add: rule_admits_def contains_int_iff contains_str_iff)
  with Cons show ?case by simp
qed

lemma path_base_strip:
  assumes "rev p = r" and "r \<noteq> []" and "dropWhile (\<lambda>c. c = CHR ''/'') r = r"
  shows "path_base p = rev (takeWhile (\<lambda>c. c \<noteq> CHR ''/'') r)"
proof -
  have "p \<noteq> []" using assms(1,2) by auto
  then show ?thesis by (simp add: path_base_def assms)
qed

lemma dropWhile_eq_to_sep: "x \<noteq> [] \<Longrightarrow> c \<notin> set x \<Longrightarrow> dropWhile (\<lambda>a. a = c) (x @ c # d) = x @ c # d"
  by (cases x) auto

lemma path_base_no_slash:
  assumes "x \<noteq> []" and "CHR ''/'' \<notin> set x"
  shows "path_base (d @ CHR ''/'' # x) = x"
proof -
  have "dropWhile (\<lambda>c. c = CHR ''/'') (rev x @ CHR ''/'' # rev d) = rev x @ CHR ''/'' # rev d"
    by (rule dropWhile_eq_to_sep) (simp_all add: assms)
  then have "path_base (d @ CHR ''/'' # x)
      = rev (takeWhile (\<lambda>c. c \<noteq> CHR ''/'') (rev x @ CHR ''/'' # rev d))"
    by (intro path_base_strip) simp_all
  also have "\<dots> = x" using assms(2) by simp
  finally show ?thesis .
qed

lemma last_slash_unique:
  assumes "d @ CHR ''/'' # x = e @ CHR ''/'' # y"
    and "CHR ''/'' \<notin> set x" and "CHR ''/'' \<notin> set y"
  shows "d = e \<and> x = y"
proof -
  have "takeWhile (\<lambda>c. c \<noteq> CHR ''/'') (rev x @ CHR ''/'' # rev d)
      = takeWhile (\<lambda>c. c \<noteq> CHR ''/'') (rev y @ CHR ''/'' # rev e)"
    using arg_cong [OF assms(1), of rev] by simp
  then have "rev x = rev y" using assms(2,3) by simp
  with assms(1) show ?thesis by simp
qed

text \<open>A one-level pattern \<open>dir/*\<close> matches the direct children of \<open>dir\<close> only: the
  base-name fallback of \<open>match_glob\<close> never helps, since a base name below the root has no
  separator.\<close>

lemma match_glob_one_level:
  assumes "list_all plain dir" and "x \<noteq> []" and "CHR ''/'' \<notin> set x"
  shows "match_glob (dir @ ''/*'') (d @ CHR ''/'' # x) \<longleftrightarrow> d = dir"
proof -
  have lit: "list_all plain (dir @ ''/'')" using assms(1) by (simp add: plain_def)
  have g: "glob_match (dir @ ''/*'') s \<longleftrightarrow> (\<exists>y. s = dir @ CHR ''/'' # y \<and> CHR ''/'' \<notin> set y)" for s
    using glob_match_one_level [OF lit, of s] by simp
  have "\<not> glob_match (dir @ ''/*'') x" using assms(3) by (auto simp: g)
  moreover have "glob_match (dir @ ''/*'') (d @ CHR ''/'' # x) \<longleftrightarrow> d = dir"
    using assms(3) by (auto simp: g dest: last_slash_unique)
  ultimately show ?thesis
    by (simp add: match_glob_def path_base_no_slash assms)
qed

lemma first_denied_dirs:
  assumes "\<forall>e \<in> set dirs. list_all plain e" and "x \<noteq> []" and "CHR ''/'' \<notin> set x"
  shows "first_denied (map (\<lambda>e. e @ ''/*'') dirs) (d @ CHR ''/'' # x) =
    (if d \<in> set dirs then Some (d @ ''/*'') else None)"
  using assms(1)
proof (induction dirs)
  case Nil
  then show ?case by simp
next
  case (Cons e dirs)
  then show ?case using match_glob_one_level [OF _ assms(2,3), of e d] by auto
qed

section \<open>Properties\<close>

text \<open>a tool call passes \<^verbatim>\<open>CheckTool\<close> exactly when no deny entry names it
  (a star denies everything, and deny wins over allow), and the allow list, when there is one,
  names it or holds a star.\<close>

theorem check_tool_passes_iff:
  "check_tool pol t = None \<longleftrightarrow>
     \<not> (t \<in> set (tools_deny (tools pol)) \<or> ''*'' \<in> set (tools_deny (tools pol)))
     \<and> (tools_allow (tools pol) = [] \<or> t \<in> set (tools_allow (tools pol))
        \<or> ''*'' \<in> set (tools_allow (tools pol)))"
  by (auto simp: check_tool_def names_tool_iff)

text \<open>a network request passes \<^verbatim>\<open>CheckNetwork\<close> exactly when the mode is not
  \<open>none\<close>, and in \<open>allowlist\<close> mode some single outbound rule admits host, port, method and
  path together; every other mode string, an unknown one included, lets the request through.\<close>

theorem check_network_passes_iff:
  "check_network pol host port meth path = None \<longleftrightarrow>
     net_mode (network pol) \<noteq> ''none''
     \<and> (net_mode (network pol) = ''allowlist''
        \<longrightarrow> (\<exists>r \<in> set (outbound (network pol)). rule_admits r host port meth path))"
  by (simp add: check_network_def Let_def outbound_allows_iff)

theorem check_network_passes_iff_witness:
  "check_network (restricted_policy\<lparr>network := \<lparr>outbound =
      [\<lparr>rule_host = ''*.example.com'', rule_ports = [443], rule_methods = [], rule_paths = []\<rparr>],
      net_mode = ''allowlist''\<rparr>\<rparr>) ''api.example.com'' 443 ''GET'' ''/'' = None"
  by (simp only: check_network_passes_iff)
    (simp add: rule_admits_def match_host_def has_suffix_def restricted_policy_def)

text \<open>The restricted preset refuses a write to \<open>d/x\<close> exactly when \<open>d\<close> is one
  of its five system directories themselves: its one-level patterns do not reach files in their
  subdirectories, which the check lets through.\<close>

theorem restricted_write_one_level:
  assumes "x \<noteq> []" and "CHR ''/'' \<notin> set x"
  shows "check_filesystem restricted_policy (d @ CHR ''/'' # x) True =
    (if d \<in> {''/etc'', ''/usr'', ''/bin'', ''/sbin'', ''/var''}
     then Some (WriteDenied (d @ CHR ''/'' # x) (d @ ''/*'')) else None)"
proof -
  let ?dirs = "[''/etc'', ''/usr'', ''/bin'', ''/sbin'', ''/var'']"
  have "\<forall>e \<in> set ?dirs. list_all plain e" by (simp add: plain_def)
  then have "first_denied (map (\<lambda>e. e @ ''/*'') ?dirs) (d @ CHR ''/'' # x) =
      (if d \<in> set ?dirs then Some (d @ ''/*'') else None)"
    by (rule first_denied_dirs [OF _ assms])
  moreover have "deny_write (filesystem restricted_policy) = map (\<lambda>e. e @ ''/*'') ?dirs"
    "allow_write (filesystem restricted_policy) = []"
    by (simp_all add: restricted_policy_def)
  ultimately show ?thesis
    unfolding check_filesystem_def Let_def by (simp del: append.simps list.map)
qed

theorem restricted_write_one_level_witness:
  "check_filesystem restricted_policy (''/etc'' @ CHR ''/'' # ''hosts'') True \<noteq> None
   \<and> check_filesystem restricted_policy (''/etc/ssh'' @ CHR ''/'' # ''sshd_config'') True = None"
  by (subst (1 2) restricted_write_one_level) simp_all

end
