(* ===== verification/Go_Paths.thy ===== *)
theory Go_Paths
  imports Go_Glob
begin

text \<open>
  The Unix side of Go's \<^verbatim>\<open>path/filepath\<close> as the modelled code uses it:
  \<^verbatim>\<open>IsAbs\<close>, \<^verbatim>\<open>Clean\<close>, \<^verbatim>\<open>Join\<close>, \<^verbatim>\<open>Dir\<close> and
  \<^verbatim>\<open>Abs\<close> (\<^verbatim>\<open>Base\<close> is \<open>path_base\<close> of \<open>Go_Glob\<close>). \<open>Clean\<close> works
  on the list of path elements; the lemmas say that cleaning a rooted path leaves no
  \<^verbatim>\<open>..\<close>, and that joining a rooted clean path under a clean directory stays below it.
\<close>

definition is_abs :: "string \<Rightarrow> bool" where
  "is_abs p = has_prefix p ''/''"

text \<open>One element against the elements kept so far, the last one first.\<close>

definition clean_step :: "bool \<Rightarrow> string \<Rightarrow> string list \<Rightarrow> string list" where
  "clean_step rooted e out =
     (if e = [] \<or> e = ''.'' then out
      else if e = ''..'' then
        (if out \<noteq> [] \<and> hd out \<noteq> ''..'' then tl out
         else if rooted then out else ''..'' # out)
      else e # out)"

definition clean_elems :: "bool \<Rightarrow> string list \<Rightarrow> string list" where
  "clean_elems rooted es = rev (fold (clean_step rooted) es [])"

definition path_clean :: "string \<Rightarrow> string" where
  "path_clean p =
     (let rooted = is_abs p;
          body = join_with ''/'' (clean_elems rooted (split_char (CHR ''/'') p))
      in if rooted then CHR ''/'' # body else if body = [] then ''.'' else body)"

definition path_join :: "string list \<Rightarrow> string" where
  "path_join es =
     (let es' = dropWhile (\<lambda>e. e = []) es
      in if es' = [] then [] else path_clean (join_with ''/'' es'))"

text \<open>\<^verbatim>\<open>Dir\<close>: the cleaned text up to the last separator.\<close>

definition path_dir :: "string \<Rightarrow> string" where
  "path_dir p = path_clean (rev (dropWhile (\<lambda>c. c \<noteq> CHR ''/'') (rev p)))"

definition path_abs :: "string \<Rightarrow> string \<Rightarrow> string" where
  "path_abs cwd p = (if is_abs p then path_clean p else path_join [cwd, p])"

text \<open>An element list in normal form: no empty, \<open>.\<close>, \<open>..\<close> element, and no separator inside.\<close>

definition normal_elem :: "string \<Rightarrow> bool" where
  "normal_elem e = (e \<noteq> [] \<and> e \<noteq> ''.'' \<and> e \<noteq> ''..'' \<and> CHR ''/'' \<notin> set e)"

lemma is_abs_Cons [simp]: "is_abs (CHR ''/'' # p)" "\<not> is_abs []"
  by (simp_all add: is_abs_def)

lemma clean_step_normal [simp]: "normal_elem e \<Longrightarrow> clean_step r e out = e # out"
  by (simp add: clean_step_def normal_elem_def)

lemma fold_clean_normal:
  "list_all normal_elem es \<Longrightarrow> fold (clean_step r) es out = rev es @ out"
  by (induction es arbitrary: out) auto

lemma clean_elems_normal: "list_all normal_elem es \<Longrightarrow> clean_elems r es = es"
  by (simp add: clean_elems_def fold_clean_normal)

lemma fold_clean_rooted:
  "\<forall>e \<in> set es. CHR ''/'' \<notin> set e \<Longrightarrow> list_all normal_elem out \<Longrightarrow>
    list_all normal_elem (fold (clean_step True) es out)"
proof (induction es arbitrary: out)
  case (Cons e es)
  have "list_all normal_elem (clean_step True e out)"
    using Cons.prems by (cases out) (auto simp: clean_step_def normal_elem_def list_all_iff)
  with Cons show ?case by simp
qed simp

lemma clean_elems_rooted:
  "list_all normal_elem (clean_elems True (split_char (CHR ''/'') p))"
  unfolding clean_elems_def
  using fold_clean_rooted [of "split_char (CHR ''/'') p" "[]"] split_char_no_sep [of _ "CHR ''/''" p]
  by (auto simp: list_all_iff)

lemma split_join_normal:
  "list_all normal_elem es \<Longrightarrow> split_char (CHR ''/'') (CHR ''/'' # join_with ''/'' es)
    = [] # (if es = [] then [[]] else es)"
  using split_join [of es "CHR ''/''"] by (auto simp: list_all_iff normal_elem_def)

text \<open>The absolute path with the given elements.\<close>

definition abs_of :: "string list \<Rightarrow> string" where
  "abs_of es = CHR ''/'' # join_with ''/'' es"

lemma is_abs_abs_of [simp]: "is_abs (abs_of es)"
  by (simp add: abs_of_def)

lemma path_clean_rooted:
  "is_abs p \<Longrightarrow> path_clean p = abs_of (clean_elems True (split_char (CHR ''/'') p))"
  by (simp add: path_clean_def abs_of_def Let_def)

lemma path_clean_abs_of: "list_all normal_elem es \<Longrightarrow> path_clean (abs_of es) = abs_of es"
  using split_join_normal [of es]
  by (simp add: path_clean_rooted)
    (auto simp: abs_of_def clean_elems_def clean_step_def fold_clean_normal)

lemma path_clean_abs_idem: "is_abs p \<Longrightarrow> path_clean (path_clean p) = path_clean p"
  by (metis path_clean_rooted path_clean_abs_of clean_elems_rooted)

lemma join_with_append:
  "xs \<noteq> [] \<Longrightarrow> ys \<noteq> [] \<Longrightarrow> join_with sep (xs @ ys) = join_with sep xs @ sep @ join_with sep ys"
  by (induction sep xs rule: join_with.induct) (auto simp: join_with_Cons)

lemma split_char_append:
  "split_char c (x @ c # y) = split_char c x @ split_char c y"
  by (induction x) (auto simp: hd_append)

text \<open>Joining a rooted clean path below a clean absolute directory appends the elements.\<close>

lemma path_join_below:
  assumes "list_all normal_elem ds" "list_all normal_elem es"
  shows "path_join [abs_of ds, abs_of es] = abs_of (ds @ es)"
proof -
  have "split_char (CHR ''/'') (abs_of ds @ CHR ''/'' # abs_of es)
    = ([] # (if ds = [] then [[]] else ds)) @ ([] # (if es = [] then [[]] else es))"
    using assms split_join_normal by (simp only: split_char_append abs_of_def)
  moreover have "fold (clean_step True) (([] # (if ds = [] then [[]] else ds))
      @ ([] # (if es = [] then [[]] else es))) [] = rev (ds @ es)"
    using assms by (auto simp: clean_step_def [of _ "[]"] fold_clean_normal)
  ultimately have "path_clean (abs_of ds @ CHR ''/'' # abs_of es) = abs_of (ds @ es)"
    by (simp add: path_clean_rooted is_abs_def abs_of_def clean_elems_def)
  then show ?thesis by (simp add: path_join_def abs_of_def)
qed

lemma abs_of_prefix:
  assumes "es \<noteq> []" "ds \<noteq> []"
  shows "has_prefix (abs_of (ds @ es)) (abs_of ds @ ''/'')"
  using join_with_append [OF assms(2,1), of "''/''"] by (simp add: abs_of_def has_prefix_iff)

section \<open>Relative paths\<close>

lemma join_normal_head:
  "list_all normal_elem es \<Longrightarrow> es \<noteq> [] \<Longrightarrow> join_with ''/'' es \<noteq> [] \<and> hd (join_with ''/'' es) \<noteq> CHR ''/''"
  by (cases es; cases "tl es"; cases "hd es") (auto simp: normal_elem_def join_with_Cons)

lemma not_abs_rel: "list_all normal_elem es \<Longrightarrow> es \<noteq> [] \<Longrightarrow> \<not> is_abs (join_with ''/'' es)"
  using join_normal_head [of es] by (cases "join_with ''/'' es") (auto simp: is_abs_def)

lemma path_clean_rel:
  assumes "list_all normal_elem es" "es \<noteq> []"
  shows "path_clean (join_with ''/'' es) = join_with ''/'' es"
proof -
  have "split_char (CHR ''/'') (join_with ''/'' es) = es"
    using assms by (intro split_join) (auto simp: list_all_iff normal_elem_def)
  with assms not_abs_rel [OF assms] join_normal_head [OF assms] show ?thesis
    by (simp add: path_clean_def clean_elems_normal Let_def)
qed

lemma path_base_join:
  assumes "normal_elem e"
  shows "path_base (join_with ''/'' (es @ [e])) = e"
proof -
  have e: "CHR ''/'' \<notin> set e" "e \<noteq> []" using assms by (auto simp: normal_elem_def)
  have tw: "takeWhile (\<lambda>c. c \<noteq> CHR ''/'') (rev e) = rev e"
    using e by (auto simp: takeWhile_eq_all_conv)
  obtain x xs where re: "rev e = x # xs" "x \<noteq> CHR ''/''"
    using e by (cases "rev e") (auto dest: arg_cong [of _ _ set])
  show ?thesis
  proof (cases "es = []")
    case True
    with e re tw show ?thesis by (simp add: path_base_def Let_def)
  next
    case False
    then have j: "join_with ''/'' (es @ [e]) = join_with ''/'' es @ CHR ''/'' # e"
      by (simp add: join_with_append)
    have "dropWhile (\<lambda>c. c = CHR ''/'') (rev (join_with ''/'' es @ CHR ''/'' # e))
        = rev e @ CHR ''/'' # rev (join_with ''/'' es)"
      using re by simp
    moreover have "takeWhile (\<lambda>c. c \<noteq> CHR ''/'') (rev e @ CHR ''/'' # rev (join_with ''/'' es)) = rev e"
      using e by simp
    ultimately show ?thesis
      using e by (simp add: path_base_def j Let_def)
  qed
qed

lemma path_base_elem: "normal_elem e \<Longrightarrow> path_base e = e"
  using path_base_join [of e "[]"] by simp

lemma path_clean_elem: "normal_elem e \<Longrightarrow> path_clean e = e \<and> \<not> is_abs e"
  using path_clean_rel [of "[e]"] not_abs_rel [of "[e]"] by simp

end
