(* ===== verification/File_Store.thy ===== *)
theory File_Store
  imports Go_Paths "HOL-Library.Char_ord" "HOL-Library.List_Lexorder"
begin

text \<open>
  Where agent files live: the host disk with the \<^verbatim>\<open>os\<close> calls the code makes, the
  local workspace store \<^verbatim>\<open>internal/workspace/localfs.go\<close> laid out on it, and the
  \<^verbatim>\<open>agent_files\<close> table behind \<^verbatim>\<open>internal/agent/memory_store_adapter.go\<close>
  (\<^verbatim>\<open>GetAgentFile\<close>, \<^verbatim>\<open>GetAgentFileExact\<close>,
  \<^verbatim>\<open>SaveAgentFile\<close> of \<^verbatim>\<open>internal/store/database.go\<close>). The faults of the
  environment are functions from a path to the message of the failing call.
\<close>

section \<open>Errors\<close>

datatype file_error =
    IoError string
  | NotExist
  | StoreNotFound
  | StoreNeedsId
  | DbError string
  | ScopeEscape string
  | OutsideSandbox
  | GlobalSkillsWrite
  | NoSkillsRoot string
  | EmptyTarget
  | SeparatorTarget string
  | DirTarget string
  | ResolvesToDir string string
  | EditEmptyOld
  | EditSame
  | EditNotFound string
  | EditAmbiguous nat string
  | SandboxRequired
  | SandboxError string
  | IdentityRefusal
  | OwnerManagedRefusal
  | IdentityDeleteRefusal string

section \<open>The host disk\<close>

type_synonym disk = "(string \<times> string) list"

record faults =
  io_fault :: "string \<Rightarrow> string option"
  mkdir_fault :: "string \<Rightarrow> string option"
  db_fault :: "string option"

definition os_read :: "faults \<Rightarrow> disk \<Rightarrow> string \<Rightarrow> file_error + string" where
  "os_read f d p = (case io_fault f p of
     Some m \<Rightarrow> Inl (IoError m)
   | None \<Rightarrow> (case map_of d p of None \<Rightarrow> Inl NotExist | Some c \<Rightarrow> Inr c))"

definition os_mkdir_all :: "faults \<Rightarrow> string \<Rightarrow> file_error option" where
  "os_mkdir_all f p = map_option IoError (mkdir_fault f p)"

definition disk_put :: "string \<Rightarrow> string \<Rightarrow> disk \<Rightarrow> disk" where
  "disk_put p c d = (p, c) # filter (\<lambda>(q, _). q \<noteq> p) d"

definition os_write :: "faults \<Rightarrow> disk \<Rightarrow> string \<Rightarrow> string \<Rightarrow> disk \<times> file_error option" where
  "os_write f d p c = (case io_fault f p of
     Some m \<Rightarrow> (d, Some (IoError m))
   | None \<Rightarrow> (disk_put p c d, None))"

definition os_remove :: "faults \<Rightarrow> disk \<Rightarrow> string \<Rightarrow> disk \<times> file_error option" where
  "os_remove f d p = (case io_fault f p of
     Some m \<Rightarrow> (d, Some (IoError m))
   | None \<Rightarrow> (case map_of d p of
       None \<Rightarrow> (d, Some NotExist)
     | Some _ \<Rightarrow> (filter (\<lambda>(q, _). q \<noteq> p) d, None)))"

lemma map_of_filter_other: "q \<noteq> p \<Longrightarrow> map_of (filter (\<lambda>(x, _). x \<noteq> p) d) q = map_of d q"
  by (induction d) auto

lemma map_of_disk_put [simp]: "map_of (disk_put p c d) q = (if q = p then Some c else map_of d q)"
  by (simp add: disk_put_def map_of_filter_other)

lemma os_read_write_same: "snd (os_write f d p c) = None \<Longrightarrow> os_read f (fst (os_write f d p c)) p = Inr c"
  by (auto simp: os_write_def os_read_def split: option.splits)

lemma os_read_write_other: "q \<noteq> p \<Longrightarrow> os_read f (fst (os_write f d p c)) q = os_read f d q"
  by (auto simp: os_write_def os_read_def split: option.splits)

lemma os_read_remove_other: "q \<noteq> p \<Longrightarrow> os_read f (fst (os_remove f d p)) q = os_read f d q"
  by (auto simp: os_remove_def os_read_def map_of_filter_other split: option.splits)

section \<open>The local workspace store\<close>

definition scope_dir :: "string \<Rightarrow> string \<Rightarrow> string \<Rightarrow> string \<Rightarrow> string" where
  "scope_dir root agent project session =
     (if project \<noteq> [] \<and> session \<noteq> [] then path_join [root, agent, ''projects'', project, session]
      else if project \<noteq> [] then path_join [root, agent, ''projects'', project]
      else if session \<noteq> [] then path_join [root, agent, ''sessions'', session]
      else path_join [root, agent])"

definition local_resolve :: "string \<Rightarrow> string \<Rightarrow> string \<Rightarrow> string \<Rightarrow> string \<Rightarrow> string
    \<Rightarrow> file_error + string" where
  "local_resolve cwd root agent project session path =
     (let abs_dir = path_abs cwd (scope_dir root agent project session);
          full = path_join [abs_dir, path_clean (CHR ''/'' # path)]
      in if full \<noteq> abs_dir \<and> \<not> has_prefix full (abs_dir @ ''/'') then Inl (ScopeEscape path)
         else Inr full)"

definition local_put :: "faults \<Rightarrow> string \<Rightarrow> string \<Rightarrow> string \<Rightarrow> string \<Rightarrow> string \<Rightarrow> string \<Rightarrow> string
    \<Rightarrow> disk \<Rightarrow> disk \<times> file_error option" where
  "local_put f cwd root agent project session path content d =
     (case local_resolve cwd root agent project session path of
        Inl e \<Rightarrow> (d, Some e)
      | Inr full \<Rightarrow> (case os_mkdir_all f (path_dir full) of
          Some e \<Rightarrow> (d, Some e)
        | None \<Rightarrow> os_write f d full content))"

definition local_get :: "faults \<Rightarrow> string \<Rightarrow> string \<Rightarrow> string \<Rightarrow> string \<Rightarrow> string \<Rightarrow> string
    \<Rightarrow> disk \<Rightarrow> file_error + string" where
  "local_get f cwd root agent project session path d =
     try_then (local_resolve cwd root agent project session path)
       (\<lambda>full. case os_read f d full of
          Inl NotExist \<Rightarrow> Inl StoreNotFound
        | r \<Rightarrow> r)"

definition local_delete :: "faults \<Rightarrow> string \<Rightarrow> string \<Rightarrow> string \<Rightarrow> string \<Rightarrow> string \<Rightarrow> string
    \<Rightarrow> disk \<Rightarrow> disk \<times> file_error option" where
  "local_delete f cwd root agent project session path d =
     (case local_resolve cwd root agent project session path of
        Inl e \<Rightarrow> (d, Some e)
      | Inr full \<Rightarrow> (case os_remove f d full of
          (d', Some NotExist) \<Rightarrow> (d', None)
        | r \<Rightarrow> r))"

lemma local_get_put_same:
  assumes "snd (local_put f cw root a p sn path c d) = None"
  shows "local_get f cw root a p sn path (fst (local_put f cw root a p sn path c d)) = Inr c"
proof -
  from assms obtain full where full: "local_resolve cw root a p sn path = Inr full"
    "os_mkdir_all f (path_dir full) = None" "snd (os_write f d full c) = None"
    by (auto simp: local_put_def split: sum.splits option.splits)
  with os_read_write_same [OF full(3)] show ?thesis
    by (simp add: local_put_def local_get_def)
qed

lemma local_get_put_other:
  assumes "local_resolve cw root a p sn path \<noteq> local_resolve cw root a p sn path'"
  shows "local_get f cw root a p sn path' (fst (local_put f cw root a p sn path c d))
    = local_get f cw root a p sn path' d"
proof (cases "local_resolve cw root a p sn path'")
  case (Inr q)
  with assms show ?thesis
    by (auto simp: local_put_def local_get_def os_read_write_other split: sum.splits option.splits)
qed (simp add: local_get_def)

lemma local_get_delete_other:
  assumes "local_resolve cw root a p sn path \<noteq> local_resolve cw root a p sn path'"
  shows "local_get f cw root a p sn path' (fst (local_delete f cw root a p sn path d))
    = local_get f cw root a p sn path' d"
proof (cases "local_resolve cw root a p sn path")
  case (Inr full)
  have "fst (local_delete f cw root a p sn path d) = fst (os_remove f d full)"
    using Inr by (auto simp: local_delete_def split: prod.splits option.splits file_error.splits)
  with Inr assms show ?thesis
    by (cases "local_resolve cw root a p sn path'")
      (auto simp: local_get_def os_read_remove_other)
qed (simp add: local_delete_def)

lemma local_resolve_below:
  assumes "path_abs cwd (scope_dir root agent project session) = abs_of ds"
    and "list_all normal_elem ds" and "ds \<noteq> []"
  shows "\<exists>es. list_all normal_elem es \<and>
    local_resolve cwd root agent project session path = Inr (abs_of (ds @ es))"
proof -
  let ?es = "clean_elems True (split_char (CHR ''/'') (CHR ''/'' # path))"
  have n: "list_all normal_elem ?es" by (rule clean_elems_rooted)
  have "path_clean (CHR ''/'' # path) = abs_of ?es" by (simp only: path_clean_rooted is_abs_Cons)
  then have full: "path_join [abs_of ds, path_clean (CHR ''/'' # path)] = abs_of (ds @ ?es)"
    using path_join_below [OF assms(2) n] by simp
  have "abs_of (ds @ ?es) = abs_of ds \<or> has_prefix (abs_of (ds @ ?es)) (abs_of ds @ ''/'')"
    using abs_of_prefix [OF _ assms(3), of ?es] by (cases "?es = []") auto
  then have "local_resolve cwd root agent project session path = Inr (abs_of (ds @ ?es))"
    using full assms(1) by (auto simp: local_resolve_def Let_def)
  with n show ?thesis by blast
qed

text \<open>C39: Under an absolute scope directory, resolving a path never fails and never leaves the
  scope: the result is the scope directory itself or lies below it, whatever \<^verbatim>\<open>..\<close>
  elements the path has.\<close>

theorem local_resolve_contained:
  assumes "path_abs cwd (scope_dir root agent project session) = abs_of ds"
    and "list_all normal_elem ds" and "ds \<noteq> []"
  shows "\<exists>es. list_all normal_elem es \<and>
    local_resolve cwd root agent project session path = Inr (abs_of (ds @ es))"
  by (rule local_resolve_below [OF assms])

theorem local_resolve_contained_witness:
  "\<exists>es. list_all normal_elem es \<and>
     local_resolve ''/'' ''/w'' ''a'' '''' ''s'' ''../../x'' = Inr (abs_of ([''w'', ''a'', ''sessions'', ''s''] @ es))"
proof (rule local_resolve_contained)
  have "scope_dir ''/w'' ''a'' '''' ''s'' = abs_of [''w'', ''a'', ''sessions'', ''s'']"
    by (simp add: scope_dir_def path_join_def path_clean_def is_abs_def clean_elems_def
        clean_step_def abs_of_def Let_def)
  then show "path_abs ''/'' (scope_dir ''/w'' ''a'' '''' ''s'') = abs_of [''w'', ''a'', ''sessions'', ''s'']"
    using path_clean_abs_of [of "[''w'', ''a'', ''sessions'', ''s'']"]
    by (simp add: path_abs_def normal_elem_def)
qed (simp_all add: normal_elem_def)

section \<open>The agent file table\<close>

record agent_file =
  af_agent :: string
  af_user :: string
  af_name :: string
  af_content :: string

type_synonym agent_owner = "string \<times> string"

record file_db =
  agent_files :: "agent_file list"
  agent_owners :: "agent_owner list"

definition af_key :: "string \<Rightarrow> string \<Rightarrow> string \<Rightarrow> agent_file \<Rightarrow> bool" where
  "af_key agent user name r = (af_agent r = agent \<and> af_user r = user \<and> af_name r = name)"

definition get_agent_file_exact :: "faults \<Rightarrow> file_db \<Rightarrow> string \<Rightarrow> string \<Rightarrow> string
    \<Rightarrow> file_error + string" where
  "get_agent_file_exact f db agent user name =
     (if agent = [] \<or> user = [] then Inl StoreNeedsId
      else case db_fault f of
        Some m \<Rightarrow> Inl (DbError m)
      | None \<Rightarrow> (case tbl_first (af_key agent user name) (agent_files db) of
          None \<Rightarrow> Inl StoreNotFound | Some r \<Rightarrow> Inr (af_content r)))"

text \<open>The overlay query: the caller's row first, then the agent owner's.\<close>

definition get_agent_file :: "faults \<Rightarrow> file_db \<Rightarrow> string \<Rightarrow> string \<Rightarrow> string
    \<Rightarrow> file_error + string" where
  "get_agent_file f db agent user name =
     (if agent = [] \<or> user = [] then Inl StoreNeedsId
      else case db_fault f of
        Some m \<Rightarrow> Inl (DbError m)
      | None \<Rightarrow>
          (case tbl_first (af_key agent user name) (agent_files db) of
             Some r \<Rightarrow> Inr (af_content r)
           | None \<Rightarrow>
               let owner = (case map_of (agent_owners db) agent of None \<Rightarrow> [] | Some u \<Rightarrow> u)
               in case tbl_first (af_key agent owner name) (agent_files db) of
                    None \<Rightarrow> Inl StoreNotFound | Some r \<Rightarrow> Inr (af_content r)))"

definition save_agent_file :: "faults \<Rightarrow> string \<Rightarrow> string \<Rightarrow> string \<Rightarrow> string \<Rightarrow> file_db
    \<Rightarrow> file_db \<times> file_error option" where
  "save_agent_file f agent user name content db =
     (if agent = [] \<or> user = [] then (db, Some StoreNeedsId)
      else case db_fault f of
        Some m \<Rightarrow> (db, Some (DbError m))
      | None \<Rightarrow>
          if tbl_affected (af_key agent user name) (agent_files db) = 0
          then (db\<lparr>agent_files := agent_files db @
                  [\<lparr>af_agent = agent, af_user = user, af_name = name, af_content = content\<rparr>]\<rparr>, None)
          else (db\<lparr>agent_files := tbl_update (af_key agent user name)
                  (\<lambda>r. r\<lparr>af_content := content\<rparr>) (agent_files db)\<rparr>, None))"

lemma af_key_update [simp]: "af_key a u n (r\<lparr>af_content := c\<rparr>) = af_key a u n r"
  by (simp add: af_key_def)

lemma save_first_same:
  "snd (save_agent_file f a u n c db) = None \<Longrightarrow>
   map_option af_content (tbl_first (af_key a u n) (agent_files (fst (save_agent_file f a u n c db)))) = Some c"
  by (auto simp: save_agent_file_def tbl_affected_zero tbl_first_update table_simps af_key_def
      split: option.splits if_splits dest!: tbl_first_SomeD)
    (auto simp: tbl_first_None af_key_def)

lemma save_first_other:
  "(a', u', n') \<noteq> (a, u, n) \<Longrightarrow>
   tbl_first (af_key a' u' n') (agent_files (fst (save_agent_file f a u n c db)))
     = tbl_first (af_key a' u' n') (agent_files db)"
proof -
  assume ne: "(a', u', n') \<noteq> (a, u, n)"
  have "map_option (\<lambda>r. if af_key a u n r then r\<lparr>af_content := c\<rparr> else r)
      (tbl_first (af_key a' u' n') t) = tbl_first (af_key a' u' n') t" for t
    using ne by (cases "tbl_first (af_key a' u' n') t") (auto simp: af_key_def dest!: tbl_first_SomeD)
  with ne show ?thesis
    by (auto simp: save_agent_file_def tbl_first_update tbl_first_append tbl_first_Cons tbl_first_Nil
        af_key_def split: option.splits)
qed

end
