(* ===== verification/Patch.thy ===== *)
theory Patch
  imports Go_Strings
begin

text \<open>
  The multi-file patch tool, \<^verbatim>\<open>internal/agent/tools/apply_patch.go\<close>: the patch
  syntax tree, the line-by-line parser, the pure hunk applier with its four matching levels,
  and the two-phase engine \<^verbatim>\<open>runApplyPatch\<close>, which is given its storage backend as
  three functions. A parser state is the tuple of the parser's local variables; an error value
  has one constructor per message of the source.
\<close>

section \<open>Syntax tree\<close>

datatype patch_op_type = OpAdd | OpUpdate | OpDelete

datatype hunk_line_kind = LineContext | LineAdd | LineRemove

record hunk_line =
  line_kind :: hunk_line_kind
  line_text :: string

record hunk =
  hunk_lines :: "hunk_line list"
  is_eof :: bool

record patch_op =
  op_type :: patch_op_type
  op_path :: string
  move_to :: string
  add_body :: string
  op_hunks :: "hunk list"

definition empty_hunk :: hunk where
  "empty_hunk = \<lparr>hunk_lines = [], is_eof = False\<rparr>"

definition new_op :: "patch_op_type \<Rightarrow> string \<Rightarrow> patch_op" where
  "new_op t p = \<lparr>op_type = t, op_path = p, move_to = [], add_body = [], op_hunks = []\<rparr>"

definition begin_patch :: string where "begin_patch = ''*** Begin Patch''"
definition end_patch :: string where "end_patch = ''*** End Patch''"
definition add_prefix :: string where "add_prefix = ''*** Add File: ''"
definition update_prefix :: string where "update_prefix = ''*** Update File: ''"
definition delete_prefix :: string where "delete_prefix = ''*** Delete File: ''"
definition move_to_prefix :: string where "move_to_prefix = ''*** Move to: ''"
definition end_of_file :: string where "end_of_file = ''*** End of File''"
definition hunk_sep :: string where "hunk_sep = ''@@''"

lemmas marker_defs = begin_patch_def end_patch_def add_prefix_def update_prefix_def
  delete_prefix_def move_to_prefix_def end_of_file_def hunk_sep_def

datatype patch_error =
    MissingBegin
  | MoveOutsideUpdate string
  | DuplicateMove string
  | MoveAfterHunk string string
  | EofOutsideHunk
  | SepOutsideUpdate
  | UnexpectedLine string
  | BadAddLine string
  | DeleteHasBody string
  | BadHunkLine string
  | MissingEnd
  | EmptyPatch
  | HunkNoMatch nat string "string list"
  | EmptyPath patch_op_type
  | IdentityDelete string
  | IdentityMove string string

text \<open>An engine error is a refusal of its own or an error \<open>'e\<close> of the backend.\<close>

datatype 'e run_error =
    Refused patch_error
  | ReadFailed string 'e
  | WriteFailed string 'e
  | DeleteFailed string 'e

section \<open>Parser\<close>

record parse_state =
  ps_ops :: "patch_op list"
  ps_cur :: "patch_op option"
  ps_hunk :: "hunk option"

definition push_hunk :: "hunk option \<Rightarrow> patch_op \<Rightarrow> patch_op" where
  "push_hunk h p = (case h of None \<Rightarrow> p | Some k \<Rightarrow> p\<lparr>op_hunks := op_hunks p @ [k]\<rparr>)"

definition flush_op :: "parse_state \<Rightarrow> parse_state" where
  "flush_op st = (case ps_cur st of
     None \<Rightarrow> st
   | Some p \<Rightarrow> \<lparr>ps_ops = ps_ops st @ [push_hunk (ps_hunk st) p],
                ps_cur = None, ps_hunk = None\<rparr>)"

definition start_op :: "patch_op_type \<Rightarrow> string \<Rightarrow> string \<Rightarrow> parse_state \<Rightarrow> parse_state" where
  "start_op t pre line st =
     (flush_op st)\<lparr>ps_cur := Some (new_op t (trim_space (drop (length pre) line)))\<rparr>"

definition is_update :: "parse_state \<Rightarrow> bool" where
  "is_update st = (case ps_cur st of None \<Rightarrow> False | Some p \<Rightarrow> op_type p = OpUpdate)"

definition parse_move :: "string \<Rightarrow> parse_state \<Rightarrow> patch_error + parse_state" where
  "parse_move line st = (case ps_cur st of
     None \<Rightarrow> Inl (MoveOutsideUpdate (trim_space line))
   | Some p \<Rightarrow>
       if op_type p \<noteq> OpUpdate then Inl (MoveOutsideUpdate (trim_space line))
       else if move_to p \<noteq> [] then Inl (DuplicateMove (op_path p))
       else if op_hunks p \<noteq> [] \<or> ps_hunk st \<noteq> None
         then Inl (MoveAfterHunk (trim_space line) (op_path p))
       else Inr (st\<lparr>ps_cur :=
              Some (p\<lparr>move_to := trim_space (drop (length move_to_prefix) line)\<rparr>)\<rparr>))"

definition parse_eof :: "parse_state \<Rightarrow> patch_error + parse_state" where
  "parse_eof st = (case (ps_cur st, ps_hunk st) of
     (Some p, Some h) \<Rightarrow>
       if op_type p \<noteq> OpUpdate then Inl EofOutsideHunk
       else Inr (st\<lparr>ps_cur := Some (push_hunk (Some (h\<lparr>is_eof := True\<rparr>)) p), ps_hunk := None\<rparr>)
   | _ \<Rightarrow> Inl EofOutsideHunk)"

definition parse_sep :: "parse_state \<Rightarrow> patch_error + parse_state" where
  "parse_sep st = (case ps_cur st of
     None \<Rightarrow> Inl SepOutsideUpdate
   | Some p \<Rightarrow>
       if op_type p \<noteq> OpUpdate then Inl SepOutsideUpdate
       else Inr (st\<lparr>ps_cur := Some (push_hunk (ps_hunk st) p), ps_hunk := Some empty_hunk\<rparr>))"

definition add_hunk_line :: "hunk_line_kind \<Rightarrow> string \<Rightarrow> parse_state \<Rightarrow> parse_state" where
  "add_hunk_line k t st =
     (let h = (case ps_hunk st of None \<Rightarrow> empty_hunk | Some h \<Rightarrow> h)
      in st\<lparr>ps_hunk := Some (h\<lparr>hunk_lines := hunk_lines h @ [\<lparr>line_kind = k, line_text = t\<rparr>]\<rparr>)\<rparr>)"

definition parse_body :: "string \<Rightarrow> parse_state \<Rightarrow> patch_error + parse_state" where
  "parse_body line st = (case ps_cur st of
     None \<Rightarrow> if trim_space line = [] then Inr st else Inl (UnexpectedLine line)
   | Some p \<Rightarrow> (case op_type p of
       OpAdd \<Rightarrow>
         if \<not> has_prefix line ''+'' then Inl (BadAddLine line)
         else Inr (st\<lparr>ps_cur := Some (p\<lparr>add_body := add_body p @ tl line @ [CHR 0x0A]\<rparr>)\<rparr>)
     | OpDelete \<Rightarrow>
         if trim_space line \<noteq> [] then Inl (DeleteHasBody line) else Inr st
     | OpUpdate \<Rightarrow>
         (case line of
            [] \<Rightarrow> Inr (add_hunk_line LineContext [] st)
          | c # t \<Rightarrow>
              if c = CHR '' '' then Inr (add_hunk_line LineContext t st)
              else if c = CHR ''+'' then Inr (add_hunk_line LineAdd t st)
              else if c = CHR ''-'' then Inr (add_hunk_line LineRemove t st)
              else Inl (BadHunkLine line))))"

definition parse_line :: "string \<Rightarrow> parse_state \<Rightarrow> patch_error + parse_state" where
  "parse_line line st =
     (if has_prefix line add_prefix then Inr (start_op OpAdd add_prefix line st)
      else if has_prefix line update_prefix then Inr (start_op OpUpdate update_prefix line st)
      else if has_prefix line delete_prefix then Inr (start_op OpDelete delete_prefix line st)
      else if has_prefix line move_to_prefix then parse_move line st
      else if trim_space line = end_of_file then parse_eof st
      else if has_prefix line hunk_sep then parse_sep st
      else parse_body line st)"

text \<open>The loop of \<^verbatim>\<open>parsePatch\<close>. It stops at the first line that trims to the end
  sentinel, whatever follows; \<open>seen_end\<close> is the boolean of the result.\<close>

fun parse_lines :: "string list \<Rightarrow> parse_state \<Rightarrow> patch_error + (bool \<times> parse_state)" where
  "parse_lines [] st = Inr (False, st)"
| "parse_lines (line # rest) st =
     (if trim_space line = end_patch then Inr (True, flush_op st)
      else try_then (parse_line line st) (parse_lines rest))"

definition parse_patch :: "string \<Rightarrow> patch_error + patch_op list" where
  "parse_patch input =
     (let trimmed = trim_space input
      in if \<not> has_prefix trimmed begin_patch then Inl MissingBegin
         else
           (let ls = split_char (CHR 0x0A) trimmed;
                ls = (if ls \<noteq> [] \<and> last ls = [] then butlast ls else ls)
            in try_then (parse_lines (drop 1 ls) \<lparr>ps_ops = [], ps_cur = None, ps_hunk = None\<rparr>)
                 (\<lambda>(seen_end, st).
                    if \<not> seen_end then Inl MissingEnd
                    else if ps_ops st = [] then Inl EmptyPatch
                    else Inr (ps_ops st))))"

section \<open>Matching levels\<close>

text \<open>\<^verbatim>\<open>unicode/utf8\<close> encoding of a rune, as \<^verbatim>\<open>WriteRune\<close> emits it.\<close>

definition encode_rune :: "nat \<Rightarrow> string" where
  "encode_rune r =
     (if r < 128 then [char_of r]
      else if r < 2048 then [char_of (192 + r div 64), char_of (128 + r mod 64)]
      else if in_range 55296 57343 r \<or> 1114111 < r then map char_of [239, 191, 189 :: nat]
      else if r < 65536 then
        [char_of (224 + r div 4096), char_of (128 + r div 64 mod 64), char_of (128 + r mod 64)]
      else
        [char_of (240 + r div 262144), char_of (128 + r div 4096 mod 64),
         char_of (128 + r div 64 mod 64), char_of (128 + r mod 64)])"

definition is_ascii :: "string \<Rightarrow> bool" where
  "is_ascii s = list_all (\<lambda>c. byte c < 128) s"

definition fuzzy_rune :: "nat \<Rightarrow> string" where
  "fuzzy_rune r =
     (if r \<in> {8208, 8209, 8210, 8211, 8212, 8213, 8722, 65112, 65123, 65293} then ''-''
      else if r \<in> {8216, 8217, 8218, 8219} then [CHR 0x27]
      else if r \<in> {8220, 8221, 8222, 8223} then [CHR 0x22]
      else if r \<in> {160, 8199, 8200, 8201, 8202, 8239, 8287, 12288} then '' ''
      else encode_rune r)"

definition normalize_for_fuzzy :: "string \<Rightarrow> string" where
  "normalize_for_fuzzy s =
     (if is_ascii s then trim_space s
      else trim_space (concat (map (fuzzy_rune \<circ> fst) (runes s))))"

definition transforms :: "(string \<Rightarrow> string) list" where
  "transforms = [id, rstrip_ws, trim_space, normalize_for_fuzzy]"

section \<open>Applier\<close>

definition pattern_lines :: "hunk \<Rightarrow> string list" where
  "pattern_lines h = map line_text
     (filter (\<lambda>l. line_kind l = LineContext \<or> line_kind l = LineRemove) (hunk_lines h))"

fun build_from :: "hunk_line list \<Rightarrow> string list \<Rightarrow> string list" where
  "build_from [] region = []"
| "build_from (l # ls) region =
     (case line_kind l of
        LineContext \<Rightarrow> hd region # build_from ls (tl region)
      | LineRemove \<Rightarrow> build_from ls (tl region)
      | LineAdd \<Rightarrow> line_text l # build_from ls region)"

text \<open>The cursor \<^verbatim>\<open>startIdx + off\<close> of the source is the head of the remaining region
  here; \<open>find_hunk_anchor_sound\<close> below shows that every index it reads is inside the file.\<close>

definition build_replacement :: "hunk \<Rightarrow> string list \<Rightarrow> nat \<Rightarrow> string list" where
  "build_replacement h file start = build_from (hunk_lines h) (drop start file)"

definition lines_equal :: "string list \<Rightarrow> nat \<Rightarrow> string list \<Rightarrow> bool" where
  "lines_equal hay start pat =
     (start + length pat \<le> length hay \<and> take (length pat) (drop start hay) = pat)"

function seek_from :: "string list \<Rightarrow> string list \<Rightarrow> nat \<Rightarrow> nat option" where
  "seek_from hay pat i =
     (if i + length pat \<le> length hay
      then if lines_equal hay i pat then Some i else seek_from hay pat (Suc i)
      else None)"
  by pat_completeness auto
termination by (relation "measure (\<lambda>(hay, pat, i). Suc (length hay) - i)") auto

declare seek_from.simps [simp del]

definition seek_sequence :: "string list \<Rightarrow> string list \<Rightarrow> nat \<Rightarrow> nat option" where
  "seek_sequence hay pat start =
     (if pat = [] then (if start \<le> length hay then Some start else None)
      else seek_from hay pat start)"

fun find_with :: "(string \<Rightarrow> string) list \<Rightarrow> string list \<Rightarrow> string list \<Rightarrow> bool \<Rightarrow> nat \<Rightarrow> nat option" where
  "find_with [] file pat anchor from = None"
| "find_with (t # ts) file pat anchor from =
     (let tl = map t file; tp = map t pat
      in if anchor \<and> length tp \<le> length tl \<and> lines_equal tl (length tl - length tp) tp
         then Some (length tl - length tp)
         else (case seek_sequence tl tp from of
                 Some i \<Rightarrow> Some i
               | None \<Rightarrow> find_with ts file pat anchor from))"

definition find_hunk_anchor :: "string list \<Rightarrow> string list \<Rightarrow> bool \<Rightarrow> nat \<Rightarrow> nat option" where
  "find_hunk_anchor file pat anchor from = find_with transforms file pat anchor from"

definition anchor_eof :: "hunk \<Rightarrow> bool" where
  "anchor_eof h = (is_eof h \<or> pattern_lines h = [])"

fun apply_lines :: "string \<Rightarrow> nat \<Rightarrow> hunk list \<Rightarrow> string list \<Rightarrow> nat \<Rightarrow> patch_error + string list" where
  "apply_lines path hi [] file from = Inr file"
| "apply_lines path hi (h # hs) file from =
     (let pat = pattern_lines h
      in case find_hunk_anchor file pat (anchor_eof h) from of
           None \<Rightarrow> Inl (HunkNoMatch (Suc hi) path pat)
         | Some i \<Rightarrow>
             let rep = build_replacement h file i
             in apply_lines path (Suc hi) hs (take i file @ rep @ drop (i + length pat) file)
                  (if anchor_eof h then from else i + length rep))"

definition file_lines :: "string \<Rightarrow> string list" where
  "file_lines content =
     (if content = [] then []
      else split_char (CHR 0x0A) (trim_suffix content [CHR 0x0A]))"

definition unlines_as :: "bool \<Rightarrow> string list \<Rightarrow> string" where
  "unlines_as nl ls =
     (let out = join_with [CHR 0x0A] ls
      in if nl \<and> out \<noteq> [] then out @ [CHR 0x0A] else out)"

definition apply_hunks :: "string \<Rightarrow> string \<Rightarrow> hunk list \<Rightarrow> patch_error + string" where
  "apply_hunks path old hunks =
     try_then (apply_lines path 0 hunks (file_lines old) 0)
       (\<lambda>ls. Inr (unlines_as (has_suffix old [CHR 0x0A]) ls))"

section \<open>Engine\<close>

text \<open>\<^verbatim>\<open>runApplyPatch\<close> over a backend: \<open>read\<close> inspects the state, \<open>write\<close> and
  \<open>del\<close> return the new state and the error message, if any. \<open>identity\<close> is
  \<^verbatim>\<open>isSingleSegmentSystemFile\<close>. Phase 1 is \<open>plan_ops\<close>, phase 2 the two \<open>do_\<close> loops.\<close>

definition eff_target :: "patch_op \<Rightarrow> string" where
  "eff_target p = (if move_to p \<noteq> [] \<and> move_to p \<noteq> op_path p then move_to p else op_path p)"

fun plan_ops :: "(string \<Rightarrow> bool) \<Rightarrow> (string \<Rightarrow> 'e + string) \<Rightarrow> patch_op list
    \<Rightarrow> (string \<times> string) list \<Rightarrow> string list
    \<Rightarrow> 'e run_error + ((string \<times> string) list \<times> string list)" where
  "plan_ops identity read [] ws ds = Inr (ws, ds)"
| "plan_ops identity read (p # ps) ws ds =
     (if op_path p = [] then Inl (Refused (EmptyPath (op_type p)))
      else case op_type p of
        OpAdd \<Rightarrow> plan_ops identity read ps (ws @ [(op_path p, add_body p)]) ds
      | OpDelete \<Rightarrow>
          if identity (op_path p) then Inl (Refused (IdentityDelete (op_path p)))
          else plan_ops identity read ps ws (ds @ [op_path p])
      | OpUpdate \<Rightarrow>
          if move_to p \<noteq> [] \<and> (identity (op_path p) \<or> identity (move_to p))
          then Inl (Refused (IdentityMove (op_path p) (move_to p)))
          else case read (op_path p) of
            Inl e \<Rightarrow> Inl (ReadFailed (op_path p) e)
          | Inr old \<Rightarrow>
              (case apply_hunks (op_path p) old (op_hunks p) of
                 Inl e \<Rightarrow> Inl (Refused e)
               | Inr updated \<Rightarrow> plan_ops identity read ps (ws @ [(eff_target p, updated)])
                   (if eff_target p = op_path p then ds else ds @ [op_path p])))"

fun do_writes :: "('s \<Rightarrow> string \<Rightarrow> string \<Rightarrow> 's \<times> 'e option) \<Rightarrow> (string \<times> string) list \<Rightarrow> 's
    \<Rightarrow> 's \<times> 'e run_error option" where
  "do_writes write [] s = (s, None)"
| "do_writes write ((p, c) # ws) s =
     (case write s p c of
        (s', Some e) \<Rightarrow> (s', Some (WriteFailed p e))
      | (s', None) \<Rightarrow> do_writes write ws s')"

fun do_deletes :: "('s \<Rightarrow> string \<Rightarrow> 's \<times> 'e option) \<Rightarrow> string list \<Rightarrow> 's
    \<Rightarrow> 's \<times> 'e run_error option" where
  "do_deletes del [] s = (s, None)"
| "do_deletes del (p # ps) s =
     (case del s p of
        (s', Some e) \<Rightarrow> (s', Some (DeleteFailed p e))
      | (s', None) \<Rightarrow> do_deletes del ps s')"

definition summary_line :: "patch_op \<Rightarrow> string" where
  "summary_line p = (case op_type p of
     OpAdd \<Rightarrow> ''A '' @ op_path p @ [CHR 0x0A]
   | OpDelete \<Rightarrow> ''D '' @ op_path p @ [CHR 0x0A]
   | OpUpdate \<Rightarrow>
       if move_to p \<noteq> [] \<and> move_to p \<noteq> op_path p
       then ''M '' @ op_path p @ '' -> '' @ move_to p @ '' ('' @ show_nat (length (op_hunks p))
            @ '' hunk(s))'' @ [CHR 0x0A]
       else ''U '' @ op_path p @ '' ('' @ show_nat (length (op_hunks p))
            @ '' hunk(s))'' @ [CHR 0x0A])"

definition run_apply_patch :: "(string \<Rightarrow> bool) \<Rightarrow> ('s \<Rightarrow> string \<Rightarrow> 'e + string)
    \<Rightarrow> ('s \<Rightarrow> string \<Rightarrow> string \<Rightarrow> 's \<times> 'e option) \<Rightarrow> ('s \<Rightarrow> string \<Rightarrow> 's \<times> 'e option)
    \<Rightarrow> string \<Rightarrow> 's \<Rightarrow> 's \<times> ('e run_error + string)" where
  "run_apply_patch identity read write del input s =
     (case parse_patch input of
        Inl e \<Rightarrow> (s, Inl (Refused e))
      | Inr ops \<Rightarrow>
          (case plan_ops identity (read s) ops [] [] of
             Inl e \<Rightarrow> (s, Inl e)
           | Inr (ws, ds) \<Rightarrow>
               (case do_writes write ws s of
                  (s1, Some e) \<Rightarrow> (s1, Inl e)
                | (s1, None) \<Rightarrow>
                    (case do_deletes del ds s1 of
                       (s2, Some e) \<Rightarrow> (s2, Inl e)
                     | (s2, None) \<Rightarrow> (s2, Inr (concat (map summary_line ops)))))))"

section \<open>The search\<close>

lemma lines_equal_map:
  "lines_equal (map t file) i (map t pat) \<longleftrightarrow>
    i + length pat \<le> length file \<and> map t (take (length pat) (drop i file)) = map t pat"
  by (simp add: lines_equal_def take_map drop_map)

lemma seek_from_Some:
  "seek_from hay pat i = Some j \<longleftrightarrow>
    i \<le> j \<and> lines_equal hay j pat \<and> (\<forall>k. i \<le> k \<and> k < j \<longrightarrow> \<not> lines_equal hay k pat)"
proof (induction hay pat i rule: seek_from.induct)
  case (1 hay pat i)
  show ?case
  proof (cases "i + length pat \<le> length hay \<and> \<not> lines_equal hay i pat")
    case True
    have "(i \<le> j \<and> lines_equal hay j pat \<and> (\<forall>k. i \<le> k \<and> k < j \<longrightarrow> \<not> lines_equal hay k pat))
      \<longleftrightarrow> (Suc i \<le> j \<and> lines_equal hay j pat \<and> (\<forall>k. Suc i \<le> k \<and> k < j \<longrightarrow> \<not> lines_equal hay k pat))"
      using True by (metis Suc_leD Suc_leI le_neq_implies_less)
    with 1 True show ?thesis by (simp add: seek_from.simps [of hay pat i])
  next
    case False
    have "\<not> lines_equal hay j pat" if "i \<le> j" "\<not> i + length pat \<le> length hay"
      using that by (simp add: lines_equal_def)
    with False show ?thesis
      by (subst seek_from.simps) (auto simp: not_less_eq_eq dest: le_neq_implies_less)
  qed
qed

lemma seek_from_None:
  "seek_from hay pat i = None \<Longrightarrow> i \<le> j \<Longrightarrow> \<not> lines_equal hay j pat"
proof (induction hay pat i rule: seek_from.induct)
  case (1 hay pat i)
  have "seek_from hay pat (Suc i) = None" "\<not> lines_equal hay i pat"
    if "i + length pat \<le> length hay"
    using 1(2) that by (simp_all add: seek_from.simps [of hay pat i] split: if_splits)
  with 1 show ?case
    by (cases "i = j") (auto simp: lines_equal_def)
qed

lemma seek_sequence_sound:
  "seek_sequence hay pat from = Some i \<Longrightarrow> from \<le> i \<and> lines_equal hay i pat"
  by (auto simp: seek_sequence_def seek_from_Some lines_equal_def split: if_splits)

lemma find_with_sound:
  "find_with ts file pat anchor from = Some i \<Longrightarrow>
    (\<exists>t \<in> set ts. lines_equal (map t file) i (map t pat))"
proof (induction ts)
  case (Cons t ts)
  then show ?case
    by (auto simp: Let_def split: if_splits option.splits dest: seek_sequence_sound)
qed simp

lemma find_hunk_anchor_sound:
  assumes "find_hunk_anchor file pat anchor from = Some i"
  shows "i + length pat \<le> length file"
    and "\<exists>t \<in> set transforms. map t (take (length pat) (drop i file)) = map t pat"
  using find_with_sound [OF assms [unfolded find_hunk_anchor_def]]
  by (auto simp: lines_equal_map)

text \<open>An exact occurrence is found at the first level.\<close>

lemma find_hunk_anchor_exact:
  assumes "pat \<noteq> []" and "length pre = from" and "\<forall>k < length gap. \<not> lines_equal (gap @ pat @ post) k pat"
  shows "find_hunk_anchor (pre @ gap @ pat @ post) pat False from = Some (from + length gap)"
proof -
  have shift: "lines_equal (pre @ xs) (from + k) pat = lines_equal xs k pat" for xs k
    using assms(2) by (simp add: lines_equal_def)
  have "seek_from (pre @ gap @ pat @ post) pat from = Some (from + length gap)"
    unfolding seek_from_Some
  proof (intro conjI allI impI)
    show "lines_equal (pre @ gap @ pat @ post) (from + length gap) pat"
      using shift [of "gap @ pat @ post" "length gap"] by (simp add: lines_equal_def)
  next
    fix k assume k: "from \<le> k \<and> k < from + length gap"
    then have "\<not> lines_equal (gap @ pat @ post) (k - from) pat" using assms(3) by auto
    with k show "\<not> lines_equal (pre @ gap @ pat @ post) k pat"
      using shift [of "gap @ pat @ post" "k - from"] by simp
  qed simp
  with assms(1) show ?thesis
    by (simp add: find_hunk_anchor_def transforms_def seek_sequence_def)
qed

section \<open>Replacement and whole files\<close>

definition removed_count :: "hunk \<Rightarrow> nat" where
  "removed_count h = length (filter (\<lambda>l. line_kind l = LineRemove) (hunk_lines h))"

definition added_lines :: "hunk \<Rightarrow> string list" where
  "added_lines h = map line_text (filter (\<lambda>l. line_kind l = LineAdd) (hunk_lines h))"

text \<open>What the hunk would leave if its own context text were written: the reference
  replacement the source's comment calls \<^verbatim>\<open>replacementLines(h)\<close>.\<close>

definition replacement_lines :: "hunk \<Rightarrow> string list" where
  "replacement_lines h = map line_text (filter (\<lambda>l. line_kind l \<noteq> LineRemove) (hunk_lines h))"

lemma pattern_lines_simps [simp]:
  "pattern_lines \<lparr>hunk_lines = [], is_eof = e\<rparr> = []"
  "pattern_lines \<lparr>hunk_lines = l # ls, is_eof = e\<rparr> =
    (if line_kind l = LineAdd then pattern_lines \<lparr>hunk_lines = ls, is_eof = e\<rparr>
     else line_text l # pattern_lines \<lparr>hunk_lines = ls, is_eof = e\<rparr>)"
  by (cases "line_kind l"; simp add: pattern_lines_def)+

lemma build_from_exact:
  "build_from ls (map line_text (filter (\<lambda>l. line_kind l = LineContext \<or> line_kind l = LineRemove) ls) @ rest)
    = map line_text (filter (\<lambda>l. line_kind l \<noteq> LineRemove) ls)"
  by (induction ls) (auto split: hunk_line_kind.splits)

lemma build_replacement_exact:
  "build_replacement h (pre @ pattern_lines h @ post) (length pre) = replacement_lines h"
  by (simp add: build_replacement_def pattern_lines_def replacement_lines_def build_from_exact)

lemma build_from_length:
  "length (build_from ls region) + length (filter (\<lambda>l. line_kind l = LineRemove) ls)
    = length ls"
  by (induction ls arbitrary: region) (auto split: hunk_line_kind.splits)

lemma build_from_origin:
  "length (filter (\<lambda>l. line_kind l = LineContext \<or> line_kind l = LineRemove) ls) \<le> length region \<Longrightarrow>
   set (build_from ls region) \<subseteq> set region \<union> line_text ` set (filter (\<lambda>l. line_kind l = LineAdd) ls)"
proof (induction ls arbitrary: region)
  case (Cons l ls)
  show ?case
  proof (cases "line_kind l")
    case LineAdd
    with Cons.prems Cons.IH [of region] show ?thesis by auto
  next
    case LineContext
    with Cons.prems obtain r rs where "region = r # rs" by (cases region) auto
    with LineContext Cons.prems Cons.IH [of rs] show ?thesis by auto
  next
    case LineRemove
    with Cons.prems obtain r rs where "region = r # rs" by (cases region) auto
    with LineRemove Cons.prems Cons.IH [of rs] show ?thesis by auto
  qed
qed simp

lemma build_replacement_origin:
  assumes "i + length (pattern_lines h) \<le> length file"
  shows "set (build_replacement h file i) \<subseteq> set file \<union> set (added_lines h)"
proof -
  have "length (filter (\<lambda>l. line_kind l = LineContext \<or> line_kind l = LineRemove) (hunk_lines h))
    \<le> length (drop i file)"
    using assms by (simp add: pattern_lines_def)
  from build_from_origin [OF this] show ?thesis
    by (auto simp: build_replacement_def added_lines_def dest: in_set_dropD)
qed

lemma hunk_line_counts:
  "length (hunk_lines h) = length (pattern_lines h) + length (added_lines h)"
proof -
  have "length ls = length (filter (\<lambda>l. line_kind l = LineContext \<or> line_kind l = LineRemove) ls)
    + length (filter (\<lambda>l. line_kind l = LineAdd) ls)" for ls
    by (induction ls) (auto, (metis hunk_line_kind.exhaust)+)
  then show ?thesis by (simp add: pattern_lines_def added_lines_def)
qed

lemma apply_lines_origin_aux:
  "apply_lines path hi hs file frm = Inr file' \<Longrightarrow>
    set file' \<subseteq> set file \<union> (\<Union>h \<in> set hs. set (added_lines h)) \<and>
    length file' + (\<Sum>h \<leftarrow> hs. removed_count h) = length file + (\<Sum>h \<leftarrow> hs. length (added_lines h))"
proof (induction hs arbitrary: hi "file" frm)
  case (Cons h hs)
  let ?pat = "pattern_lines h"
  from Cons.prems obtain i frm' where
    i: "find_hunk_anchor file ?pat (anchor_eof h) frm = Some i" and
    rest: "apply_lines path (Suc hi) hs
      (take i file @ build_replacement h file i @ drop (i + length ?pat) file) frm' = Inr file'"
    by (auto simp: Let_def split: option.splits)
  have bound: "i + length ?pat \<le> length file"
    by (rule find_hunk_anchor_sound [OF i])
  have len: "length (build_replacement h file i) + removed_count h
      = length ?pat + length (added_lines h)"
    using build_from_length [of "hunk_lines h" "drop i file"] hunk_line_counts [of h]
    by (simp add: build_replacement_def removed_count_def)
  have sub: "set (take i file @ build_replacement h file i @ drop (i + length ?pat) file)
      \<subseteq> set file \<union> set (added_lines h)"
    using build_replacement_origin [OF bound] by (auto dest: in_set_takeD in_set_dropD)
  from Cons.IH [OF rest] bound len sub show ?case by auto
qed simp

lemma file_lines_join: "unlines_as (has_suffix c [CHR 0x0A]) (file_lines c)
  = (if c = [CHR 0x0A] then [] else c)"
proof (cases "has_suffix c [CHR 0x0A]")
  case True
  then obtain t where "c = t @ [CHR 0x0A]" by (auto simp: has_suffix_iff)
  then show ?thesis by (simp add: file_lines_def unlines_as_def trim_suffix_def Let_def)
next
  case False
  then have "c \<noteq> [CHR 0x0A]" by (auto simp: has_suffix_iff)
  with False show ?thesis
    by (simp add: file_lines_def unlines_as_def trim_suffix_def Let_def)
qed

text \<open>\<open>plain_lines nl ls\<close>: the lines \<open>ls\<close> are what the applier splits a file of these
  lines into, with (\<open>nl\<close>) or without a final newline.\<close>

definition plain_lines :: "bool \<Rightarrow> string list \<Rightarrow> bool" where
  "plain_lines nl ls = (list_all (\<lambda>l. CHR 0x0A \<notin> set l) ls
     \<and> join_with [CHR 0x0A] ls \<noteq> [] \<and> (nl \<or> last ls \<noteq> []))"

lemma last_join_with:
  "ls \<noteq> [] \<Longrightarrow> last ls \<noteq> [] \<Longrightarrow> join_with sep ls \<noteq> [] \<and> last (join_with sep ls) = last (last ls)"
  by (induction sep ls rule: join_with.induct) auto

lemma plain_lines_unlines:
  assumes "plain_lines nl ls"
  shows "has_suffix (unlines_as nl ls) [CHR 0x0A] = nl" and "file_lines (unlines_as nl ls) = ls"
proof -
  let ?n = "CHR 0x0A"
  from assms have ne: "join_with [?n] ls \<noteq> []" "ls \<noteq> []" and free: "\<forall>l \<in> set ls. ?n \<notin> set l"
    by (auto simp: plain_lines_def list_all_iff)
  show suf: "has_suffix (unlines_as nl ls) [?n] = nl"
  proof (cases nl)
    case True
    with ne show ?thesis by (simp add: unlines_as_def Let_def)
  next
    case False
    with assms have l: "last ls \<noteq> []" by (simp add: plain_lines_def)
    have "last (last ls) \<noteq> ?n"
      using free ne l by (metis last_in_set)
    with False ne last_join_with [OF ne(2) l, of "[?n]"] show ?thesis
      by (auto simp: unlines_as_def has_suffix_iff)
  qed
  show "file_lines (unlines_as nl ls) = ls"
  proof (cases nl)
    case True
    with ne suf split_join [OF ne(2) free] show ?thesis
      by (simp add: file_lines_def unlines_as_def trim_suffix_def Let_def)
  next
    case False
    with ne suf split_join [OF ne(2) free] show ?thesis
      by (simp add: file_lines_def unlines_as_def trim_suffix_def Let_def)
  qed
qed

section \<open>Hunks in order\<close>

text \<open>A file cut into gaps and hunk patterns, and what the hunks make of it. In a located
  cut every pattern is anchored and occurs nowhere earlier in its gap.\<close>

definition cut_source :: "(string list \<times> hunk) list \<Rightarrow> string list \<Rightarrow> string list" where
  "cut_source segs tail = concat (map (\<lambda>(g, h). g @ pattern_lines h) segs) @ tail"

definition cut_target :: "(string list \<times> hunk) list \<Rightarrow> string list \<Rightarrow> string list" where
  "cut_target segs tail = concat (map (\<lambda>(g, h). g @ replacement_lines h) segs) @ tail"

fun located :: "(string list \<times> hunk) list \<Rightarrow> string list \<Rightarrow> bool" where
  "located [] tail = True"
| "located ((g, h) # segs) tail =
     (\<not> anchor_eof h \<and>
      list_all (\<lambda>k. \<not> lines_equal (g @ pattern_lines h @ cut_source segs tail) k (pattern_lines h))
        [0..<length g] \<and>
      located segs tail)"

lemma apply_lines_located:
  "located segs tail \<Longrightarrow>
   apply_lines path hi (map snd segs) (pre @ cut_source segs tail) (length pre)
     = Inr (pre @ cut_target segs tail)"
proof (induction segs arbitrary: hi pre)
  case Nil
  then show ?case by (simp add: cut_source_def cut_target_def)
next
  case (Cons s segs)
  obtain g h where s: "s = (g, h)" by (cases s)
  let ?pat = "pattern_lines h" and ?rest = "cut_source segs tail"
  have anchored: "\<not> anchor_eof h" "?pat \<noteq> []" and loc: "located segs tail" and
    first: "\<forall>k < length g. \<not> lines_equal (g @ ?pat @ ?rest) k ?pat"
    using Cons.prems by (auto simp: s anchor_eof_def list_all_iff)
  have src: "cut_source (s # segs) tail = g @ ?pat @ ?rest"
    by (simp add: cut_source_def s)
  have i: "find_hunk_anchor (pre @ g @ ?pat @ ?rest) ?pat False (length pre)
      = Some (length pre + length g)"
    by (rule find_hunk_anchor_exact) (use anchored first in simp_all)
  have rep: "build_replacement h (pre @ g @ ?pat @ ?rest) (length pre + length g)
      = replacement_lines h"
    using build_replacement_exact [of h "pre @ g" ?rest] by simp
  have "apply_lines path hi (map snd (s # segs)) (pre @ cut_source (s # segs) tail) (length pre)
    = apply_lines path (Suc hi) (map snd segs) ((pre @ g @ replacement_lines h) @ ?rest)
        (length (pre @ g @ replacement_lines h))"
    unfolding src using i rep anchored by (simp add: s Let_def ac_simps)
  also have "\<dots> = Inr ((pre @ g @ replacement_lines h) @ cut_target segs tail)"
    by (rule Cons.IH [OF loc])
  finally show ?case by (simp add: s cut_target_def)
qed

section \<open>Printing\<close>

definition print_line :: "hunk_line \<Rightarrow> string" where
  "print_line l = (case line_kind l of
     LineContext \<Rightarrow> CHR '' '' | LineAdd \<Rightarrow> CHR ''+'' | LineRemove \<Rightarrow> CHR ''-'') # line_text l"

definition print_hunk :: "hunk \<Rightarrow> string list" where
  "print_hunk h = hunk_sep # map print_line (hunk_lines h) @ (if is_eof h then [end_of_file] else [])"

definition body_lines :: "string \<Rightarrow> string list" where
  "body_lines b = butlast (split_char (CHR 0x0A) b)"

definition print_op :: "patch_op \<Rightarrow> string list" where
  "print_op p = (case op_type p of
     OpAdd \<Rightarrow> (add_prefix @ op_path p) # map (\<lambda>l. CHR ''+'' # l) (body_lines (add_body p))
   | OpDelete \<Rightarrow> [delete_prefix @ op_path p]
   | OpUpdate \<Rightarrow> (update_prefix @ op_path p)
       # (if move_to p = [] then [] else [move_to_prefix @ move_to p])
       @ concat (map print_hunk (op_hunks p)))"

definition print_patch :: "patch_op list \<Rightarrow> string" where
  "print_patch ps = join_with [CHR 0x0A] (begin_patch # concat (map print_op ps) @ [end_patch])"

definition wf_name :: "string \<Rightarrow> bool" where
  "wf_name p = (trim_space p = p \<and> CHR 0x0A \<notin> set p)"

text \<open>A context line that trims to a sentinel cannot be written in the format.\<close>

definition wf_line :: "hunk_line \<Rightarrow> bool" where
  "wf_line l = (CHR 0x0A \<notin> set (line_text l) \<and>
     (line_kind l = LineContext \<longrightarrow>
        trim_space (CHR '' '' # line_text l) \<notin> {end_patch, end_of_file}))"

definition wf_op :: "patch_op \<Rightarrow> bool" where
  "wf_op p = (wf_name (op_path p) \<and> (case op_type p of
     OpAdd \<Rightarrow> move_to p = [] \<and> op_hunks p = []
       \<and> (add_body p = [] \<or> has_suffix (add_body p) [CHR 0x0A])
   | OpDelete \<Rightarrow> move_to p = [] \<and> op_hunks p = [] \<and> add_body p = []
   | OpUpdate \<Rightarrow> wf_name (move_to p) \<and> add_body p = []
       \<and> (\<forall>h \<in> set (op_hunks p). list_all wf_line (hunk_lines h))))"

section \<open>Trimming a marked line\<close>

lemma runes_ascii_append:
  "list_all (\<lambda>c. byte c < 128) pre \<Longrightarrow> runes (pre @ s) = map (\<lambda>c. (byte c, [c])) pre @ runes s"
  by (induction pre) auto

lemma trim_right_keeps:
  "xs \<noteq> [] \<Longrightarrow> \<not> is_space (fst (last xs)) \<Longrightarrow> \<exists>zs. trim_right_runes (xs @ ys) = xs @ zs"
proof (induction ys rule: rev_induct)
  case Nil
  then obtain us x where "xs = us @ [x]" by (cases xs rule: rev_exhaust) auto
  with Nil show ?case by (auto simp: trim_right_runes_def split: prod.splits)
next
  case (snoc y ys)
  show ?case
  proof (cases "is_space (fst y)")
    case True
    then have "trim_right_runes (xs @ ys @ [y]) = trim_right_runes (xs @ ys)"
      by (auto simp: trim_right_runes_def split: prod.splits)
    with snoc show ?thesis by simp
  next
    case False
    then have "trim_right_runes (xs @ ys @ [y]) = xs @ ys @ [y]"
      by (auto simp: trim_right_runes_def split: prod.splits)
    then show ?thesis by blast
  qed
qed

lemma trim_space_keeps_prefix:
  assumes "list_all (\<lambda>c. byte c < 128) pre" "pre \<noteq> []"
    and "\<not> is_space (byte (hd pre))" "\<not> is_space (byte (last pre))"
  shows "\<exists>t. trim_space (pre @ s) = pre @ t"
proof -
  let ?m = "map (\<lambda>c. (byte c, [c])) pre"
  have "trim_left_runes (runes (pre @ s)) = ?m @ runes s"
    using assms by (cases pre) (auto simp: runes_ascii_append trim_left_runes_def)
  moreover obtain zs where "trim_right_runes (?m @ runes s) = ?m @ zs"
    using trim_right_keeps [of ?m "runes s"] assms by (auto simp: last_map)
  moreover have "concat (map snd ?m) = pre" by (induction pre) auto
  ultimately show ?thesis by (simp add: trim_space_def)
qed

lemma trim_space_marker:
  "trim_space begin_patch = begin_patch" "trim_space end_patch = end_patch"
  "trim_space end_of_file = end_of_file" "trim_space hunk_sep = hunk_sep"
proof -
  have k: "trim_space (a # t) = a # t"
    if "t = s @ [c]" "a = CHR ''*'' \<or> a = CHR ''@''" "c = CHR ''h'' \<or> c = CHR ''e'' \<or> c = CHR ''@''"
    for a s c t
    using trim_space_id [of a c s] that by (auto simp: is_space_def in_range_def)
  show "trim_space begin_patch = begin_patch"
    unfolding begin_patch_def by (rule k [where s = "''** Begin Patc''" and c = "CHR ''h''"]) simp_all
  show "trim_space end_patch = end_patch"
    unfolding end_patch_def by (rule k [where s = "''** End Patc''" and c = "CHR ''h''"]) simp_all
  show "trim_space end_of_file = end_of_file"
    unfolding end_of_file_def by (rule k [where s = "''** End of Fil''" and c = "CHR ''e''"]) simp_all
  show "trim_space hunk_sep = hunk_sep"
    unfolding hunk_sep_def by (rule k [where s = "[]" and c = "CHR ''@''"]) simp_all
qed

lemma trim_header:
  "trim_space (add_prefix @ p) \<noteq> end_patch" "trim_space (update_prefix @ p) \<noteq> end_patch"
  "trim_space (delete_prefix @ p) \<noteq> end_patch" "trim_space (move_to_prefix @ p) \<noteq> end_patch"
proof -
  have k: "pre = ''*** Add'' \<or> pre = ''*** Update'' \<or> pre = ''*** Delete'' \<or> pre = ''*** Move''
     \<Longrightarrow> trim_space (pre @ s) \<noteq> end_patch" for pre s
    using trim_space_keeps_prefix [of pre s]
    by (elim disjE; simp only:) (auto simp: marker_defs is_space_def in_range_def)
  show "trim_space (add_prefix @ p) \<noteq> end_patch"
    using k [of "''*** Add''" "'' File: '' @ p"] by (simp add: add_prefix_def)
  show "trim_space (update_prefix @ p) \<noteq> end_patch"
    using k [of "''*** Update''" "'' File: '' @ p"] by (simp add: update_prefix_def)
  show "trim_space (delete_prefix @ p) \<noteq> end_patch"
    using k [of "''*** Delete''" "'' File: '' @ p"] by (simp add: delete_prefix_def)
  show "trim_space (move_to_prefix @ p) \<noteq> end_patch"
    using k [of "''*** Move''" "'' to: '' @ p"] by (simp add: move_to_prefix_def)
qed

lemma trim_marked:
  assumes "c = CHR ''+'' \<or> c = CHR ''-''"
  shows "trim_space (c # t) \<noteq> end_patch" "trim_space (c # t) \<noteq> end_of_file"
  using trim_space_keeps_prefix [of "[c]" t] assms
  by (auto simp: marker_defs is_space_def in_range_def)

section \<open>Parsing what was printed\<close>

definition op_done :: "parse_state \<Rightarrow> patch_op list" where
  "op_done st = ps_ops (flush_op st)"

definition wf_state :: "parse_state \<Rightarrow> bool" where
  "wf_state st = (ps_cur st = None \<longrightarrow> ps_hunk st = None)"

lemma flush_op_wf:
  "wf_state st \<Longrightarrow> flush_op st = \<lparr>ps_ops = op_done st, ps_cur = None, ps_hunk = None\<rparr>"
  by (cases st) (auto simp: op_done_def flush_op_def wf_state_def split: option.splits)

lemma start_op_wf:
  "wf_state st \<Longrightarrow> start_op t pre (pre @ p) st =
    \<lparr>ps_ops = op_done st, ps_cur = Some (new_op t (trim_space p)), ps_hunk = None\<rparr>"
  by (simp add: start_op_def flush_op_wf)

lemma parse_line_header:
  "parse_line (add_prefix @ p) st = Inr (start_op OpAdd add_prefix (add_prefix @ p) st)"
  "parse_line (update_prefix @ p) st = Inr (start_op OpUpdate update_prefix (update_prefix @ p) st)"
  "parse_line (delete_prefix @ p) st = Inr (start_op OpDelete delete_prefix (delete_prefix @ p) st)"
  "parse_line (move_to_prefix @ p) st = parse_move (move_to_prefix @ p) st"
  unfolding parse_line_def by (simp_all add: marker_defs)

lemma parse_line_body:
  assumes "c = CHR '' '' \<or> c = CHR ''+'' \<or> c = CHR ''-''" "trim_space (c # t) \<noteq> end_of_file"
  shows "parse_line (c # t) st = parse_body (c # t) st"
  using assms unfolding parse_line_def by (auto simp: marker_defs)

lemma parse_line_marks:
  "parse_line hunk_sep st = parse_sep st" "parse_line end_of_file st = parse_eof st"
  unfolding parse_line_def trim_space_marker by (simp_all add: marker_defs)

lemma parse_hunk_lines:
  "list_all wf_line ls \<Longrightarrow> op_type p = OpUpdate \<Longrightarrow>
   parse_lines (map print_line ls @ rest) \<lparr>ps_ops = os, ps_cur = Some p, ps_hunk = Some h\<rparr>
   = parse_lines rest \<lparr>ps_ops = os, ps_cur = Some p,
       ps_hunk = Some (h\<lparr>hunk_lines := hunk_lines h @ ls\<rparr>)\<rparr>"
proof (induction ls arbitrary: h)
  case (Cons l ls)
  obtain c where c: "print_line l = c # line_text l" "c = CHR '' '' \<or> c = CHR ''+'' \<or> c = CHR ''-''"
    "c = CHR '' '' \<longleftrightarrow> line_kind l = LineContext" "c = CHR ''+'' \<longleftrightarrow> line_kind l = LineAdd"
    by (cases "line_kind l") (auto simp: print_line_def)
  have "wf_line l" using Cons.prems by simp
  with c have t: "trim_space (c # line_text l) \<noteq> end_patch" "trim_space (c # line_text l) \<noteq> end_of_file"
    using trim_marked [of c "line_text l"] by (auto simp: wf_line_def)
  have "parse_line (print_line l) \<lparr>ps_ops = os, ps_cur = Some p, ps_hunk = Some h\<rparr>
    = Inr \<lparr>ps_ops = os, ps_cur = Some p, ps_hunk = Some (h\<lparr>hunk_lines := hunk_lines h @ [l]\<rparr>)\<rparr>"
    unfolding c(1) parse_line_body [OF c(2) t(2)] using c Cons.prems
    by (cases "line_kind l"; cases l) (auto simp: parse_body_def add_hunk_line_def Let_def)
  with t c(1) Cons show ?case by simp
qed simp

lemma parse_hunk:
  assumes "list_all wf_line (hunk_lines k)" "op_type p = OpUpdate"
  shows "\<exists>p' h'. parse_lines (print_hunk k @ rest) \<lparr>ps_ops = os, ps_cur = Some p, ps_hunk = h\<rparr>
    = parse_lines rest \<lparr>ps_ops = os, ps_cur = Some p', ps_hunk = h'\<rparr>
    \<and> push_hunk h' p' = push_hunk (Some k) (push_hunk h p) \<and> op_type p' = OpUpdate"
proof -
  let ?q = "push_hunk h p"
  have q: "op_type ?q = OpUpdate" using assms by (cases h) (simp_all add: push_hunk_def)
  have sep: "trim_space hunk_sep \<noteq> end_patch" and eof: "trim_space end_of_file \<noteq> end_patch"
    unfolding trim_space_marker by (simp_all add: marker_defs)
  have "parse_lines (print_hunk k @ rest) \<lparr>ps_ops = os, ps_cur = Some p, ps_hunk = h\<rparr>
    = parse_lines (map print_line (hunk_lines k) @ (if is_eof k then [end_of_file] else []) @ rest)
        \<lparr>ps_ops = os, ps_cur = Some ?q, ps_hunk = Some empty_hunk\<rparr>"
    using sep assms by (simp add: print_hunk_def parse_line_marks parse_sep_def)
  also have "\<dots> = parse_lines ((if is_eof k then [end_of_file] else []) @ rest)
        \<lparr>ps_ops = os, ps_cur = Some ?q, ps_hunk = Some (empty_hunk\<lparr>hunk_lines := hunk_lines k\<rparr>)\<rparr>"
    using parse_hunk_lines [OF assms(1) q] by (simp add: empty_hunk_def)
  finally have *: "parse_lines (print_hunk k @ rest) \<lparr>ps_ops = os, ps_cur = Some p, ps_hunk = h\<rparr> = \<dots>" .
  show ?thesis
  proof (cases "is_eof k")
    case True
    with * q eof show ?thesis
      by (intro exI [of _ "push_hunk (Some k) ?q"] exI [of _ None])
        (cases k, simp add: parse_line_marks parse_eof_def push_hunk_def empty_hunk_def)
  next
    case False
    with * q show ?thesis
      by (intro exI [of _ ?q] exI [of _ "Some k"])
        (cases k, simp add: push_hunk_def empty_hunk_def)
  qed
qed

lemma parse_hunks:
  assumes "\<forall>k \<in> set ks. list_all wf_line (hunk_lines k)" "op_type p = OpUpdate"
  shows "\<exists>p' h'. parse_lines (concat (map print_hunk ks) @ rest) \<lparr>ps_ops = os, ps_cur = Some p, ps_hunk = h\<rparr>
    = parse_lines rest \<lparr>ps_ops = os, ps_cur = Some p', ps_hunk = h'\<rparr>
    \<and> push_hunk h' p' = (push_hunk h p)\<lparr>op_hunks := op_hunks (push_hunk h p) @ ks\<rparr>"
  using assms
proof (induction ks arbitrary: p h)
  case Nil
  then show ?case by (intro exI [of _ p] exI [of _ h]) simp
next
  case (Cons k ks)
  have k: "list_all wf_line (hunk_lines k)" using Cons.prems by simp
  from parse_hunk [OF k Cons.prems(2), of "concat (map print_hunk ks) @ rest" os h]
  obtain p1 h1 where 1: "parse_lines (print_hunk k @ concat (map print_hunk ks) @ rest)
      \<lparr>ps_ops = os, ps_cur = Some p, ps_hunk = h\<rparr>
    = parse_lines (concat (map print_hunk ks) @ rest) \<lparr>ps_ops = os, ps_cur = Some p1, ps_hunk = h1\<rparr>"
    "push_hunk h1 p1 = push_hunk (Some k) (push_hunk h p)" "op_type p1 = OpUpdate"
    by blast
  from Cons.IH [OF _ 1(3), of h1] Cons.prems obtain p2 h2 where
    2: "parse_lines (concat (map print_hunk ks) @ rest) \<lparr>ps_ops = os, ps_cur = Some p1, ps_hunk = h1\<rparr>
      = parse_lines rest \<lparr>ps_ops = os, ps_cur = Some p2, ps_hunk = h2\<rparr>"
    "push_hunk h2 p2 = (push_hunk h1 p1)\<lparr>op_hunks := op_hunks (push_hunk h1 p1) @ ks\<rparr>"
    by auto
  with 1 show ?case
    by (intro exI [of _ p2] exI [of _ h2]) (simp add: push_hunk_def)
qed

lemma parse_add_lines:
  "list_all (\<lambda>l. CHR 0x0A \<notin> set l) ls \<Longrightarrow> op_type p = OpAdd \<Longrightarrow>
   parse_lines (map (\<lambda>l. CHR ''+'' # l) ls @ rest) \<lparr>ps_ops = os, ps_cur = Some p, ps_hunk = h\<rparr>
   = parse_lines rest \<lparr>ps_ops = os,
       ps_cur = Some (p\<lparr>add_body := add_body p @ concat (map (\<lambda>l. l @ [CHR 0x0A]) ls)\<rparr>), ps_hunk = h\<rparr>"
proof (induction ls arbitrary: p)
  case (Cons l ls)
  have "parse_line (CHR ''+'' # l) \<lparr>ps_ops = os, ps_cur = Some p, ps_hunk = h\<rparr>
    = Inr \<lparr>ps_ops = os, ps_cur = Some (p\<lparr>add_body := add_body p @ l @ [CHR 0x0A]\<rparr>), ps_hunk = h\<rparr>"
    using Cons.prems trim_marked(2) [of "CHR ''+''" l]
    by (simp add: parse_line_body parse_body_def)
  with Cons trim_marked(1) [of "CHR ''+''" l] show ?case by simp
qed simp

lemma body_lines_concat:
  assumes "b = [] \<or> has_suffix b [CHR 0x0A]"
  shows "concat (map (\<lambda>l. l @ [CHR 0x0A]) (body_lines b)) = b"
proof -
  have snoc: "split_char c (t @ [c]) = split_char c t @ [[]]" for c t
    by (induction t) (auto simp: hd_append)
  have "concat (map (\<lambda>l. l @ [c]) ls) = join_with [c] ls @ [c]" if "ls \<noteq> []" for c :: char and ls
    using that by (induction "[c]" ls rule: join_with.induct) auto
  with assms show ?thesis
    by (auto simp: body_lines_def has_suffix_iff snoc)
qed

lemma parse_op:
  assumes "wf_op p" "wf_state st"
  shows "\<exists>st'. parse_lines (print_op p @ rest) st = parse_lines rest st'
    \<and> op_done st' = op_done st @ [p] \<and> wf_state st'"
proof (cases "op_type p")
  case OpAdd
  let ?n = "new_op OpAdd (op_path p)"
  let ?st = "\<lparr>ps_ops = op_done st, ps_cur = Some ?n, ps_hunk = None\<rparr>"
  let ?st' = "\<lparr>ps_ops = op_done st, ps_cur = Some p, ps_hunk = None\<rparr>"
  have free: "list_all (\<lambda>l. CHR 0x0A \<notin> set l) (body_lines (add_body p))"
    by (auto simp: body_lines_def list_all_iff dest!: in_set_butlastD split_char_no_sep)
  have "parse_lines (print_op p @ rest) st
      = parse_lines (map (\<lambda>l. CHR ''+'' # l) (body_lines (add_body p)) @ rest) ?st"
    using assms OpAdd
    by (simp add: print_op_def trim_header parse_line_header start_op_wf wf_op_def wf_name_def)
  also have "\<dots> = parse_lines rest ?st'"
    using assms OpAdd body_lines_concat [of "add_body p"]
    by (subst parse_add_lines [OF free])
      (auto simp: new_op_def wf_op_def intro!: arg_cong [of _ _ "parse_lines rest"])
  finally show ?thesis
    by (intro exI [of _ ?st']) (auto simp: op_done_def flush_op_def push_hunk_def wf_state_def)
next
  case OpDelete
  let ?st' = "\<lparr>ps_ops = op_done st, ps_cur = Some p, ps_hunk = None\<rparr>"
  have "new_op OpDelete (op_path p) = p"
    using assms OpDelete by (cases p) (simp add: new_op_def wf_op_def)
  then have "parse_lines (print_op p @ rest) st = parse_lines rest ?st'"
    using assms OpDelete
    by (simp add: print_op_def trim_header parse_line_header start_op_wf wf_op_def wf_name_def)
  then show ?thesis
    by (intro exI [of _ ?st']) (auto simp: op_done_def flush_op_def push_hunk_def wf_state_def)
next
  case OpUpdate
  let ?n = "new_op OpUpdate (op_path p)" and ?m = "p\<lparr>op_hunks := []\<rparr>"
  let ?hs = "concat (map print_hunk (op_hunks p)) @ rest"
  have n: "?n\<lparr>move_to := move_to p\<rparr> = ?m"
    using assms OpUpdate by (cases p) (simp add: new_op_def wf_op_def)
  have "parse_lines (print_op p @ rest) st
      = parse_lines ((if move_to p = [] then [] else [move_to_prefix @ move_to p]) @ ?hs)
          \<lparr>ps_ops = op_done st, ps_cur = Some ?n, ps_hunk = None\<rparr>"
    using assms OpUpdate
    by (simp add: print_op_def trim_header parse_line_header start_op_wf wf_op_def wf_name_def)
  also have "\<dots> = parse_lines ?hs \<lparr>ps_ops = op_done st, ps_cur = Some ?m, ps_hunk = None\<rparr>"
  proof (cases "move_to p = []")
    case True
    with n have "?n = ?m" by (simp add: new_op_def)
    with True show ?thesis by simp
  next
    case False
    have "parse_move (move_to_prefix @ move_to p) \<lparr>ps_ops = op_done st, ps_cur = Some ?n, ps_hunk = None\<rparr>
      = Inr \<lparr>ps_ops = op_done st, ps_cur = Some ?m, ps_hunk = None\<rparr>"
      unfolding n [symmetric] using assms OpUpdate
      by (simp add: parse_move_def new_op_def wf_op_def wf_name_def)
    with False show ?thesis by (simp add: trim_header parse_line_header)
  qed
  finally have start: "parse_lines (print_op p @ rest) st = \<dots>" .
  have "\<forall>k \<in> set (op_hunks p). list_all wf_line (hunk_lines k)" "op_type ?m = OpUpdate"
    using assms OpUpdate by (auto simp: wf_op_def)
  from parse_hunks [OF this, of rest "op_done st" None] start
  obtain p' h' where p': "parse_lines (print_op p @ rest) st
      = parse_lines rest \<lparr>ps_ops = op_done st, ps_cur = Some p', ps_hunk = h'\<rparr>"
    "push_hunk h' p' = p"
    by (auto simp: push_hunk_def)
  then show ?thesis
    by (intro exI [of _ "\<lparr>ps_ops = op_done st, ps_cur = Some p', ps_hunk = h'\<rparr>"])
      (auto simp: op_done_def flush_op_def wf_state_def)
qed

lemma parse_ops:
  "list_all wf_op ps \<Longrightarrow> wf_state st \<Longrightarrow>
   parse_lines (concat (map print_op ps) @ [end_patch]) st
     = Inr (True, \<lparr>ps_ops = op_done st @ ps, ps_cur = None, ps_hunk = None\<rparr>)"
proof (induction ps arbitrary: st)
  case Nil
  then show ?case by (simp add: trim_space_marker flush_op_wf)
next
  case (Cons p ps)
  with parse_op [of p st "concat (map print_op ps) @ [end_patch]"] show ?case by auto
qed

lemma print_op_no_newline:
  assumes "wf_op p" "l \<in> set (print_op p)"
  shows "CHR 0x0A \<notin> set l"
proof -
  have ln: "CHR 0x0A \<notin> set (print_line x)" if "wf_line x" for x
    using that by (auto simp: print_line_def wf_line_def split: hunk_line_kind.splits)
  have hk: "CHR 0x0A \<notin> set y" if "list_all wf_line (hunk_lines k)" "y \<in> set (print_hunk k)" for k y
    using that ln by (auto simp: print_hunk_def list_all_iff marker_defs split: if_splits)
  show ?thesis
  proof (cases "op_type p")
    case OpAdd
    with assms show ?thesis
      by (auto simp: print_op_def wf_op_def wf_name_def body_lines_def add_prefix_def
          dest!: in_set_butlastD split_char_no_sep)
  next
    case OpDelete
    with assms show ?thesis by (auto simp: print_op_def wf_op_def wf_name_def delete_prefix_def)
  next
    case OpUpdate
    with assms have w: "CHR 0x0A \<notin> set (op_path p)" "CHR 0x0A \<notin> set (move_to p)"
      "\<forall>k \<in> set (op_hunks p). list_all wf_line (hunk_lines k)"
      by (auto simp: wf_op_def wf_name_def)
    from assms(2) OpUpdate consider "l = update_prefix @ op_path p" | "l = move_to_prefix @ move_to p"
      | k where "k \<in> set (op_hunks p)" "l \<in> set (print_hunk k)"
      by (auto simp: print_op_def split: if_splits)
    then show ?thesis
      using w hk by cases (auto simp: update_prefix_def move_to_prefix_def)
  qed
qed

lemma join_with_ends: "\<exists>s. join_with [c] (x # ys @ [z]) = x @ s @ z"
proof (induction ys arbitrary: x)
  case Nil
  show ?case by (intro exI [of _ "[c]"]) simp
next
  case (Cons y ys)
  from Cons [of y] obtain s where "join_with [c] (y # ys @ [z]) = y @ s @ z" ..
  then show ?case by (intro exI [of _ "c # y @ s"]) simp
qed

lemma print_patch_ends: "\<exists>s. print_patch ps = begin_patch @ s @ end_patch"
  unfolding print_patch_def by (rule join_with_ends)

lemma print_patch_trimmed: "trim_space (print_patch ps) = print_patch ps"
proof -
  obtain s where "print_patch ps = begin_patch @ s @ end_patch"
    using print_patch_ends by blast
  then have "print_patch ps = CHR ''*'' # (''** Begin Patch'' @ s @ ''*** End Patc'') @ [CHR ''h'']"
    by (simp add: marker_defs)
  then show ?thesis
    using trim_space_id [of "CHR ''*''" "CHR ''h''" "''** Begin Patch'' @ s @ ''*** End Patc''"]
    by (simp add: is_space_def in_range_def)
qed

lemma print_patch_lines:
  assumes "list_all wf_op ps"
  shows "split_char (CHR 0x0A) (print_patch ps) = begin_patch # concat (map print_op ps) @ [end_patch]"
  unfolding print_patch_def
proof (rule split_join)
  have "CHR 0x0A \<notin> set l" if "p \<in> set ps" "l \<in> set (print_op p)" for p l
    using assms that print_op_no_newline [of p l] by (auto simp: list_all_iff)
  then show "\<forall>x \<in> set (begin_patch # concat (map print_op ps) @ [end_patch]). CHR 0x0A \<notin> set x"
    by (auto simp: begin_patch_def end_patch_def)
qed simp

section \<open>Properties of the parser and the applier\<close>

lemma parse_print:
  assumes "ps \<noteq> []" and "list_all wf_op ps"
  shows "parse_patch (print_patch ps) = Inr ps"
proof -
  let ?st = "\<lparr>ps_ops = [], ps_cur = None, ps_hunk = None\<rparr>"
  have "parse_lines (concat (map print_op ps) @ [end_patch]) ?st
      = Inr (True, \<lparr>ps_ops = ps, ps_cur = None, ps_hunk = None\<rparr>)"
    using parse_ops [OF assms(2), of ?st] by (simp add: wf_state_def op_done_def flush_op_def)
  moreover have "has_prefix (print_patch ps) begin_patch"
    using print_patch_ends [of ps] by auto
  moreover have "end_patch \<noteq> []" by (simp add: end_patch_def)
  ultimately show ?thesis
    using assms
    by (simp add: parse_patch_def Let_def print_patch_trimmed print_patch_lines)
qed

text \<open>C6: Parsing a printed patch gives the patch back: every non-empty list of operations whose
  paths are trimmed and free of newlines, whose added bodies end in a newline and whose context
  lines do not trim to a sentinel is expressible, and \<open>parsePatch\<close> reads it without loss.\<close>

theorem parse_print_patch:
  assumes "ps \<noteq> []" and "list_all wf_op ps"
  shows "parse_patch (print_patch ps) = Inr ps"
  by (rule parse_print [OF assms])

definition sample_ops :: "patch_op list" where
  "sample_ops =
     [\<lparr>op_type = OpAdd, op_path = ''n'', move_to = [], add_body = ''x'' @ [CHR 0x0A], op_hunks = []\<rparr>,
      \<lparr>op_type = OpUpdate, op_path = ''o'', move_to = ''p'', add_body = [],
        op_hunks = [\<lparr>hunk_lines = [\<lparr>line_kind = LineRemove, line_text = ''a''\<rparr>,
          \<lparr>line_kind = LineAdd, line_text = ''b''\<rparr>], is_eof = True\<rparr>]\<rparr>]"

theorem parse_print_patch_witness: "parse_patch (print_patch sample_ops) = Inr sample_ops"
proof (rule parse_print_patch)
  have "trim_space [c] = [c]" if "c \<in> {CHR ''n'', CHR ''o'', CHR ''p''}" for c
    using trim_space_keeps_prefix [of "[c]" "[]"] that
    by (auto simp: trim_space_def trim_left_runes_def trim_right_runes_def is_space_def in_range_def)
  then have "wf_name ''n''" "wf_name ''o''" "wf_name ''p''" by (auto simp: wf_name_def)
  then show "list_all wf_op sample_ops"
    by (simp add: sample_ops_def wf_op_def wf_line_def has_suffix_def)
qed (simp add: sample_ops_def)

text \<open>C10: Hunks whose patterns are found in order, each first where the cut says, are applied
  exactly: the gaps and the tail are kept byte for byte, each matched region becomes the hunk's
  context and added lines, and the final newline is kept as it was.\<close>

theorem apply_hunks_located:
  assumes "located segs tail"
    and "plain_lines nl (cut_source segs tail)"
  shows "apply_hunks path (unlines_as nl (cut_source segs tail)) (map snd segs)
    = Inr (unlines_as nl (cut_target segs tail))"
  using apply_lines_located [OF assms(1), of path 0 "[]"]
  by (simp add: apply_hunks_def plain_lines_unlines [OF assms(2)])

theorem apply_hunks_located_witness:
  "apply_hunks ''f'' (unlines_as True [''x'', ''a'', ''y''])
     [\<lparr>hunk_lines = [\<lparr>line_kind = LineRemove, line_text = ''a''\<rparr>,
        \<lparr>line_kind = LineAdd, line_text = ''b''\<rparr>], is_eof = False\<rparr>]
   = Inr (unlines_as True [''x'', ''b'', ''y''])"
  using apply_hunks_located [of "[([''x''], \<lparr>hunk_lines = [\<lparr>line_kind = LineRemove, line_text = ''a''\<rparr>,
        \<lparr>line_kind = LineAdd, line_text = ''b''\<rparr>], is_eof = False\<rparr>)]" "[''y'']" True "''f''"]
  by (simp add: anchor_eof_def lines_equal_def cut_source_def cut_target_def plain_lines_def
      replacement_lines_def)

text \<open>Whatever level a hunk matched on, applying hunks invents nothing: every line of the
  result is a line of the old file or an added line of a hunk (so fuzzy matching never rewrites
  kept text), and the number of lines changes by exactly the added minus the removed ones.\<close>

theorem apply_lines_origin:
  assumes "apply_lines path hi hs ls start = Inr ls'"
  shows "set ls' \<subseteq> set ls \<union> (\<Union>h \<in> set hs. set (added_lines h)) \<and>
    length ls' + (\<Sum>h \<leftarrow> hs. removed_count h) = length ls + (\<Sum>h \<leftarrow> hs. length (added_lines h))"
  using assms by (rule apply_lines_origin_aux)

theorem apply_lines_origin_witness:
  "set [''b '', ''d''] \<subseteq> set [''b ''] \<union> {''d''} \<and> length [''b '', ''d''] = (2::nat)"
proof -
  let ?h = "\<lparr>hunk_lines = [\<lparr>line_kind = LineContext, line_text = ''b''\<rparr>,
    \<lparr>line_kind = LineAdd, line_text = ''d''\<rparr>], is_eof = False\<rparr>"
  have "rstrip_ws ''b '' = ''b''" "rstrip_ws ''b'' = ''b''"
    by (simp_all add: rstrip_ws_def trim_right_runes_def is_space_def in_range_def)
  then have "find_hunk_anchor [''b ''] [''b''] False 0 = Some 0"
    by (simp add: find_hunk_anchor_def transforms_def seek_sequence_def seek_from.simps lines_equal_def)
  then have "apply_lines ''f'' 0 [?h] [''b ''] 0 = Inr [''b '', ''d'']"
    by (simp add: anchor_eof_def build_replacement_def)
  from apply_lines_origin [OF this] show ?thesis
    by (simp add: added_lines_def removed_count_def)
qed

text \<open>An update without hunks keeps the content, except that a file of one newline becomes
  the empty file.\<close>

theorem apply_no_hunks:
  "apply_hunks path c [] = Inr (if c = [CHR 0x0A] then [] else c)"
  by (simp add: apply_hunks_def file_lines_join)

section \<open>Properties of the engine\<close>

definition phase2_error :: "'e run_error \<Rightarrow> bool" where
  "phase2_error e = (case e of WriteFailed _ _ \<Rightarrow> True | DeleteFailed _ _ \<Rightarrow> True | _ \<Rightarrow> False)"

lemma do_writes_error:
  "do_writes write ws s = (s', Some e) \<Longrightarrow> phase2_error e"
  by (induction ws arbitrary: s)
    (auto simp: phase2_error_def split: prod.splits option.splits)

lemma do_deletes_error:
  "do_deletes del ds s = (s', Some e) \<Longrightarrow> phase2_error e"
  by (induction ds arbitrary: s)
    (auto simp: phase2_error_def split: prod.splits option.splits)

text \<open>C18: A patch that is refused for any reason but a failing backend write or delete (a
  syntax error, a missing file, a hunk that does not anchor, an identity file) leaves the state of
  the backend as it was.\<close>

theorem run_apply_patch_atomic:
  assumes "run_apply_patch identity read write del input s = (s', Inl e)"
    and "\<not> phase2_error e"
  shows "s' = s"
  using assms do_writes_error do_deletes_error
  by (force simp: run_apply_patch_def split: sum.splits prod.splits option.splits)

theorem run_apply_patch_atomic_witness:
  "fst (run_apply_patch (\<lambda>_. False) (\<lambda>_ _. Inl ''e'') (\<lambda>s _ _. (s + 1, None)) (\<lambda>s _. (s, None)) ''x'' (0::nat)) = 0"
proof -
  have "trim_space ''x'' = ''x''"
    by (simp add: trim_space_def trim_left_runes_def trim_right_runes_def is_space_def in_range_def)
  then have "run_apply_patch (\<lambda>_. False) (\<lambda>_ _. Inl ''e'') (\<lambda>s _ _. (s + 1, None)) (\<lambda>s _. (s, None)) ''x'' (0::nat)
    = (0, Inl (Refused MissingBegin))"
    by (simp add: run_apply_patch_def parse_patch_def begin_patch_def)
  with run_apply_patch_atomic [OF this] show ?thesis by (simp add: phase2_error_def)
qed

text \<open>The plan lists exactly the operations' effects, computed from the state before the run.\<close>

definition op_write :: "(string \<Rightarrow> 'e + string) \<Rightarrow> patch_op \<Rightarrow> (string \<times> string) list" where
  "op_write read p = (case op_type p of
     OpAdd \<Rightarrow> [(op_path p, add_body p)]
   | OpDelete \<Rightarrow> []
   | OpUpdate \<Rightarrow> (case read (op_path p) of
       Inl _ \<Rightarrow> []
     | Inr old \<Rightarrow> (case apply_hunks (op_path p) old (op_hunks p) of
         Inl _ \<Rightarrow> [] | Inr new \<Rightarrow> [(eff_target p, new)])))"

definition op_deletes :: "patch_op \<Rightarrow> string list" where
  "op_deletes p = (case op_type p of
     OpAdd \<Rightarrow> [] | OpDelete \<Rightarrow> [op_path p]
   | OpUpdate \<Rightarrow> if eff_target p = op_path p then [] else [op_path p])"

lemma plan_ops_step:
  "plan_ops identity read (p # ps) ws ds = Inr r \<Longrightarrow>
    plan_ops identity read ps (ws @ op_write read p) (ds @ op_deletes p) = Inr r"
  by (cases "op_type p")
    (auto simp: op_write_def op_deletes_def split: if_splits sum.splits)

lemma plan_ops_lists:
  "plan_ops identity read ps ws ds = Inr (ws', ds') \<Longrightarrow>
    ws' = ws @ concat (map (op_write read) ps) \<and> ds' = ds @ concat (map op_deletes ps)"
proof (induction ps arbitrary: ws ds)
  case (Cons p ps)
  from Cons.IH [OF plan_ops_step [OF Cons.prems]] show ?case by simp
qed simp

text \<open>The paths an operation writes or deletes.\<close>

definition op_paths :: "patch_op \<Rightarrow> string list" where
  "op_paths p = (if op_type p = OpUpdate \<and> eff_target p \<noteq> op_path p
     then [eff_target p, op_path p] else [op_path p])"

lemma op_paths_cover:
  "fst ` set (op_write read p) \<union> set (op_deletes p) \<subseteq> set (op_paths p)"
  by (cases "op_type p")
    (auto simp: op_write_def op_deletes_def op_paths_def split: sum.splits if_splits)

lemma op_paths_cover_all:
  "fst ` set (concat (map (op_write read) ps)) \<union> set (concat (map op_deletes ps))
    \<subseteq> set (concat (map op_paths ps))"
proof (induction ps)
  case (Cons p ps)
  have "fst ` set (concat (map (op_write read) (p # ps))) \<union> set (concat (map op_deletes (p # ps)))
    = (fst ` set (op_write read p) \<union> set (op_deletes p))
      \<union> (fst ` set (concat (map (op_write read) ps)) \<union> set (concat (map op_deletes ps)))"
    by auto
  also have "\<dots> \<subseteq> set (op_paths p) \<union> set (concat (map op_paths ps))"
    by (rule Un_mono [OF op_paths_cover Cons])
  finally show ?case by simp
qed simp

lemma distinct_interleave:
  "distinct (a @ d) \<Longrightarrow> distinct (b @ e) \<Longrightarrow> set (a @ d) \<inter> set (b @ e) = {} \<Longrightarrow>
    distinct ((a @ b) @ d @ e)"
  by (auto simp: disjoint_iff)

lemma op_paths_one:
  "distinct (map key (op_paths p)) \<Longrightarrow> distinct (map key (map fst (op_write read p) @ op_deletes p))"
  by (cases "op_type p")
    (auto simp: op_write_def op_deletes_def op_paths_def split: sum.splits if_splits)

lemma op_paths_distinct:
  assumes "distinct (map key (concat (map op_paths ops)))"
  shows "distinct (map key (map fst (concat (map (op_write read) ops)) @ concat (map op_deletes ops)))"
  using assms
proof (induction ops)
  case (Cons p ps)
  let ?ws = "map key (map fst (concat (map (op_write read) ps)))"
    and ?ds = "map key (concat (map op_deletes ps))"
  have sub: "set ?ws \<union> set ?ds \<subseteq> key ` set (concat (map op_paths ps))"
    using image_mono [OF op_paths_cover_all [of read ps], of key] by (simp only: set_map image_Un)
  have one: "set (map key (map fst (op_write read p) @ op_deletes p)) \<subseteq> key ` set (op_paths p)"
    using op_paths_cover [of read p] by auto
  have "distinct (map key (map fst (op_write read p) @ op_deletes p))"
    using Cons.prems by (intro op_paths_one) simp
  moreover have "key ` set (op_paths p) \<inter> key ` set (concat (map op_paths ps)) = {}"
    using Cons.prems by auto
  moreover have "distinct (?ws @ ?ds)" using Cons by simp
  moreover have "set (map key (map fst (op_write read p) @ op_deletes p)) \<inter> set (?ws @ ?ds) = {}"
    using sub one \<open>key ` set (op_paths p) \<inter> key ` set (concat (map op_paths ps)) = {}\<close>
    unfolding set_append by blast
  ultimately have "distinct ((map key (map fst (op_write read p)) @ ?ws) @ map key (op_deletes p) @ ?ds)"
    by (intro distinct_interleave) simp_all
  then show ?case by simp
qed simp

text \<open>What the engine asks of a backend on the paths \<open>ok\<close> it serves. \<open>key\<close> names the
  slot a path resolves to: two spellings of one file share a key.\<close>

locale patch_backend =
  fixes ok :: "string \<Rightarrow> bool"
    and key :: "string \<Rightarrow> 'k"
    and rd :: "'s \<Rightarrow> string \<Rightarrow> 'e + string"
    and wr :: "'s \<Rightarrow> string \<Rightarrow> string \<Rightarrow> 's \<times> 'e option"
    and rm :: "'s \<Rightarrow> string \<Rightarrow> 's \<times> 'e option"
  assumes write_same: "ok p \<Longrightarrow> snd (wr s p c) = None \<Longrightarrow> rd (fst (wr s p c)) p = Inr c"
    and write_other: "ok p \<Longrightarrow> ok q \<Longrightarrow> key p \<noteq> key q \<Longrightarrow> rd (fst (wr s p c)) q = rd s q"
    and del_other: "ok p \<Longrightarrow> ok q \<Longrightarrow> key p \<noteq> key q \<Longrightarrow> rd (fst (rm s p)) q = rd s q"
begin

lemma writes_other:
  "ok q \<Longrightarrow> \<forall>w \<in> set ws. ok (fst w) \<Longrightarrow> key q \<notin> key ` fst ` set ws \<Longrightarrow>
    rd (fst (do_writes wr ws s)) q = rd s q"
proof (induction ws arbitrary: s)
  case (Cons w ws)
  obtain p c where w: "w = (p, c)" by (cases w)
  have "rd (fst (wr s p c)) q = rd s q"
    using Cons.prems w by (intro write_other) auto
  moreover have "rd (fst (do_writes wr ws s1)) q = rd s1 q" for s1
    using Cons.prems by (intro Cons.IH) auto
  ultimately show ?case by (cases "wr s p c") (auto simp: w split: option.splits)
qed simp

lemma deletes_other:
  "ok q \<Longrightarrow> \<forall>d \<in> set ds. ok d \<Longrightarrow> key q \<notin> key ` set ds \<Longrightarrow>
    rd (fst (do_deletes rm ds s)) q = rd s q"
proof (induction ds arbitrary: s)
  case (Cons d ds)
  have "rd (fst (rm s d)) q = rd s q"
    using Cons.prems by (intro del_other) auto
  moreover have "rd (fst (do_deletes rm ds s1)) q = rd s1 q" for s1
    using Cons.prems by (intro Cons.IH) auto
  ultimately show ?case by (cases "rm s d") (auto split: option.splits)
qed simp

lemma writes_written:
  assumes "do_writes wr ws s = (s', None)" "distinct (map (key \<circ> fst) ws)"
    and "\<forall>w \<in> set ws. ok (fst w)" "(p, c) \<in> set ws"
  shows "rd s' p = Inr c"
  using assms
proof (induction ws arbitrary: s)
  case (Cons w ws)
  obtain q d where w: "w = (q, d)" by (cases w)
  from Cons.prems w obtain s1 where s1: "wr s q d = (s1, None)" "do_writes wr ws s1 = (s', None)"
    by (auto split: prod.splits option.splits)
  show ?case
  proof (cases "(p, c) = w")
    case True
    with Cons.prems have "key p \<notin> key ` fst ` set ws" using w by (auto simp: image_comp)
    with Cons.prems True w writes_other [of p ws s1] s1 write_same [of q s d] show ?thesis by simp
  next
    case False
    with Cons.prems have "(p, c) \<in> set ws" by simp
    with Cons.IH [OF s1(2)] Cons.prems show ?thesis by simp
  qed
qed simp

lemma run_success:
  assumes "run_apply_patch identity rd wr rm input s = (s', Inr out)"
  obtains ops ws ds s1 where "parse_patch input = Inr ops" "plan_ops identity (rd s) ops [] [] = Inr (ws, ds)"
    "do_writes wr ws s = (s1, None)" "do_deletes rm ds s1 = (s', None)"
  using assms by (force simp: run_apply_patch_def split: sum.splits prod.splits option.splits)

lemma run_effect:
  assumes "run_apply_patch identity rd wr rm input s = (s', Inr out)"
    and "parse_patch input = Inr ops"
    and "list_all (\<lambda>p. list_all ok (op_paths p)) ops"
    and "distinct (map key (concat (map op_paths ops)))"
  shows "\<forall>p \<in> set ops. \<forall>(t, c) \<in> set (op_write (rd s) p). rd s' t = Inr c"
    and "\<forall>q. ok q \<longrightarrow> key q \<notin> key ` set (concat (map op_paths ops)) \<longrightarrow> rd s' q = rd s q"
proof -
  obtain ops' ws ds s1 where r: "parse_patch input = Inr ops'"
    "plan_ops identity (rd s) ops' [] [] = Inr (ws, ds)" and
    s1: "do_writes wr ws s = (s1, None)" "do_deletes rm ds s1 = (s', None)"
    by (rule run_success [OF assms(1)])
  have plan: "plan_ops identity (rd s) ops [] [] = Inr (ws, ds)" using r assms(2) by simp
  have lists: "ws = concat (map (op_write (rd s)) ops)" "ds = concat (map op_deletes ops)"
    using plan_ops_lists [OF plan] by simp_all
  have sub: "fst ` set ws \<union> set ds \<subseteq> set (concat (map op_paths ops))"
    unfolding lists by (rule op_paths_cover_all)
  with assms(3) have oks: "\<forall>w \<in> set ws. ok (fst w)" "\<forall>d \<in> set ds. ok d"
    by (force simp: list_all_iff)+
  have dist: "distinct (map key (map fst ws @ ds))"
    unfolding lists using op_paths_distinct [OF assms(4)] .
  have "rd s' t = Inr c" if "(t, c) \<in> set ws" for t c
  proof -
    have "key t \<notin> key ` set ds" using dist that by (force simp: image_comp)
    with deletes_other [of t ds s1] writes_written [OF s1(1) _ oks(1) that] dist s1 oks that
    show ?thesis by force
  qed
  then show "\<forall>p \<in> set ops. \<forall>(t, c) \<in> set (op_write (rd s) p). rd s' t = Inr c"
    by (auto simp: lists)
  show "\<forall>q. ok q \<longrightarrow> key q \<notin> key ` set (concat (map op_paths ops)) \<longrightarrow> rd s' q = rd s q"
  proof (intro allI impI)
    fix q assume q: "ok q" "key q \<notin> key ` set (concat (map op_paths ops))"
    then have "key q \<notin> key ` fst ` set ws" "key q \<notin> key ` set ds" using sub by blast+
    with deletes_other [OF q(1) oks(2), of s1] writes_other [OF q(1) oks(1), of s] s1
    show "rd s' q = rd s q" by simp
  qed
qed

end

end
