(* ===== verification/File_Tools.thy ===== *)
theory File_Tools
  imports File_Store Patch
begin

text \<open>
  The file tools of the agent (\<^verbatim>\<open>internal/agent/tools/file.go\<close>,
  \<^verbatim>\<open>route.go\<close>, the file-related part of \<^verbatim>\<open>registry.go\<close>, and the
  backends of \<^verbatim>\<open>apply_patch.go\<close>): the confidentiality gates, the routing of a path
  to the workspace store, the agent file table, the skills directory, the host disk or the
  sandbox, and the read, write, edit and patch handlers in host and in sandbox mode. The
  sandbox executor is an interface whose implementations drive containers; it is a record of
  functions on an opaque state \<open>'x\<close>. Tool replies have one constructor per message.
\<close>

section \<open>State\<close>

record 'x executor =
  ex_read :: "'x \<Rightarrow> string \<Rightarrow> string + string"
  ex_write :: "'x \<Rightarrow> string \<Rightarrow> string \<Rightarrow> 'x \<times> (string + string)"
  ex_exec :: "'x \<Rightarrow> string \<Rightarrow> 'x \<times> (string + string)"
  ex_remote :: bool

record 'x registry =
  system_root :: string
  user_root :: string
  sandbox_root :: string
  workspace_root :: "string option"
  has_sys_store :: bool
  agent_id :: string
  session_id :: string
  project_id :: string
  coding_root_scope :: bool
  coding_subdir :: string
  user_skills_root :: string
  user_id :: string
  chatter_user_id :: string
  agent_owner_user_id :: string
  caller_is_admin :: bool
  executor_of :: "'x executor option"
  hosted :: bool
  user_home :: "string option"
  fastclaw_home :: string
  cwd :: string
  faults_of :: faults

record 'x fstate =
  disk_of :: disk
  db_of :: file_db
  box_of :: 'x

datatype reply =
    Text string
  | IdentityRefused
  | OwnerManagedRefused
  | SkillManifestRefused
  | BinaryRefused string nat
  | Written nat string
  | Edited string nat
  | Sandboxed reply

section \<open>Protected names\<close>

definition identity_files :: "string list" where
  "identity_files = [''SOUL.md'', ''IDENTITY.md'', ''AGENTS.md'', ''BOOTSTRAP.md'', ''TOOLS.md'',
     ''HEARTBEAT.md'', ''agent.json'']"

definition owner_scoped_system_files :: "string list" where
  "owner_scoped_system_files = [''SOUL.md'', ''IDENTITY.md'', ''AGENTS.md'', ''BOOTSTRAP.md'',
     ''TOOLS.md'', ''HEARTBEAT.md'', ''KNOWLEDGE.md'', ''agent.json'']"

definition system_files :: "string list" where
  "system_files = [''SOUL.md'', ''IDENTITY.md'', ''USER.md'', ''BOOTSTRAP.md'', ''MEMORY.md'',
     ''KNOWLEDGE.md'', ''HEARTBEAT.md'', ''AGENTS.md'', ''TOOLS.md'', ''agent.json'']"

definition has_sep :: "string \<Rightarrow> bool" where
  "has_sep p = (CHR ''/'' \<in> set p)"

definition is_identity_file_path :: "string \<Rightarrow> bool" where
  "is_identity_file_path path =
     (if path = [] then False
      else (let clean = path_clean path
            in if path_base clean \<notin> set identity_files then False
               else if is_abs path then True
               else \<not> has_sep clean))"

definition identity_file_blocked :: "'x registry \<Rightarrow> string \<Rightarrow> bool" where
  "identity_file_blocked r path = (\<not> caller_is_admin r \<and> is_identity_file_path path)"

definition owner_managed_file_write_blocked :: "'x registry \<Rightarrow> string \<Rightarrow> bool" where
  "owner_managed_file_write_blocked r path =
     (if caller_is_admin r then False
      else (let clean = path_clean path; base = path_base clean
            in if \<not> is_abs path \<and> has_sep clean then False
               else base \<in> set owner_scoped_system_files \<and> base \<notin> set identity_files))"

definition is_single_segment_system_file :: "string \<Rightarrow> bool" where
  "is_single_segment_system_file path =
     (if is_abs path then False
      else (let clean = path_clean path
            in if has_sep clean then False else clean \<in> set system_files))"

definition basename_is_system_file :: "string \<Rightarrow> bool" where
  "basename_is_system_file path = (path_base (path_clean path) \<in> set system_files)"

definition is_skill_path :: "string \<Rightarrow> bool" where
  "is_skill_path path =
     (if is_abs path then False
      else (let clean = path_clean path
            in clean \<noteq> ''skills'' \<and> has_prefix clean ''skills/''))"

definition is_protected_skill_manifest_path :: "'x registry \<Rightarrow> string \<Rightarrow> bool" where
  "is_protected_skill_manifest_path r path =
     (if path = [] then False
      else (let clean = path_clean path
            in if path_base clean \<noteq> ''SKILL.md'' then False
               else if is_abs clean then contains clean ''/skills/''
               else is_skill_path path \<and> user_skills_root r = []))"

definition skill_manifest_blocked :: "'x registry \<Rightarrow> string \<Rightarrow> bool" where
  "skill_manifest_blocked r path = (\<not> caller_is_admin r \<and> is_protected_skill_manifest_path r path)"

section \<open>Routing\<close>

definition is_workspace_path :: "string \<Rightarrow> bool" where
  "is_workspace_path path =
     (if is_abs path then False
      else (let clean = path_clean path
            in if clean = ''skills'' \<or> has_prefix clean ''skills/'' then False
               else if \<not> has_sep clean \<and> clean \<in> set system_files then False
               else True))"

definition root_for_path :: "'x registry \<Rightarrow> string \<Rightarrow> string" where
  "root_for_path r path =
     (if is_abs path then []
      else (let clean = path_clean path
            in if clean = ''skills'' \<or> has_prefix clean ''skills/'' then
                 (if user_skills_root r \<noteq> [] then user_skills_root r else system_root r)
               else if \<not> has_sep clean \<and> clean \<in> set system_files then system_root r
               else user_root r))"

definition effective_sandbox_root :: "'x registry \<Rightarrow> string \<Rightarrow> string" where
  "effective_sandbox_root r root =
     (if root = system_root r \<and> system_root r \<noteq> [] then system_root r else sandbox_root r)"

definition resolve_path :: "string \<Rightarrow> string \<Rightarrow> string" where
  "resolve_path root path =
     (if is_abs path then path_clean path else path_clean (path_join [root, path]))"

definition is_global_skills_path :: "string \<Rightarrow> bool" where
  "is_global_skills_path p =
     (let clean = path_clean p
      in has_suffix clean ''/.fastclaw/skills'' \<or> contains clean ''/.fastclaw/skills/'')"

definition resolve_path_sandboxed :: "string \<Rightarrow> string \<Rightarrow> string \<Rightarrow> string \<Rightarrow> file_error + string" where
  "resolve_path_sandboxed cw root sroot path =
     (let full = resolve_path root path
      in if sroot = [] then Inr full
         else (let abs_root = path_abs cw sroot; abs_full = path_abs cw full
               in if \<not> has_prefix abs_full (abs_root @ ''/'') \<and> abs_full \<noteq> abs_root
                  then Inl OutsideSandbox else Inr abs_full))"

definition host_path :: "'x registry \<Rightarrow> string \<Rightarrow> file_error + string" where
  "host_path r path =
     (let root = root_for_path r path
      in resolve_path_sandboxed (cwd r) root (effective_sandbox_root r root) path)"

definition skill_root :: "'x registry \<Rightarrow> string" where
  "skill_root r = (if user_skills_root r \<noteq> [] then user_skills_root r else system_root r)"

definition user_skill_owner :: "string \<Rightarrow> string" where
  "user_skill_owner uid = (if uid = [] then [] else ''_user_'' @ uid)"

definition skill_store_owner :: "'x registry \<Rightarrow> string" where
  "skill_store_owner r =
     (if user_skills_root r \<noteq> [] \<and> user_id r \<noteq> [] then user_skill_owner (user_id r) else agent_id r)"

definition scope_session_id :: "'x registry \<Rightarrow> string" where
  "scope_session_id r = (if coding_root_scope r then [] else session_id r)"

definition ws_path :: "'x registry \<Rightarrow> string \<Rightarrow> string" where
  "ws_path r p =
     (if coding_subdir r = [] then p
      else (let clean = dropWhile (\<lambda>c. c = CHR ''/'') p
            in if clean = coding_subdir r \<or> has_prefix clean (coding_subdir r @ ''/'') then clean
               else coding_subdir r @ ''/'' @ clean))"

definition system_file_user_id :: "'x registry \<Rightarrow> string \<Rightarrow> string" where
  "system_file_user_id r name =
     (if agent_owner_user_id r \<noteq> [] \<and> path_base (path_clean name) \<in> set owner_scoped_system_files
      then agent_owner_user_id r
      else if chatter_user_id r \<noteq> [] then chatter_user_id r
      else user_id r)"

definition is_per_user_system_file :: "string \<Rightarrow> bool" where
  "is_per_user_system_file name = (path_base (path_clean name) \<in> {''USER.md'', ''MEMORY.md''})"

definition read_system_file_for_user :: "'x registry \<Rightarrow> 'x fstate \<Rightarrow> string \<Rightarrow> string
    \<Rightarrow> file_error + string" where
  "read_system_file_for_user r s uid name =
     (if is_per_user_system_file name
      then get_agent_file_exact (faults_of r) (db_of s) (agent_id r) uid name
      else get_agent_file (faults_of r) (db_of s) (agent_id r) uid name)"

definition host_home_path :: "'x registry \<Rightarrow> string \<Rightarrow> string option" where
  "host_home_path r path =
     (if path = [] then None
      else if path = ''~'' \<or> has_prefix path ''~/'' then
        (if has_prefix path ''~/.fastclaw'' \<or> has_prefix path ''~/.agents'' then None
         else (case user_home r of
             None \<Rightarrow> None
           | Some home \<Rightarrow> if path = ''~'' then Some home else Some (path_join [home, drop 2 path])))
      else if \<not> is_abs path then None
      else if has_prefix path ''/Users/'' \<or> has_prefix path ''/home/'' then
        (case user_home r of
           None \<Rightarrow> Some path
         | Some home \<Rightarrow>
             (let dir = path_join [home, ''.fastclaw'']
              in if path = dir \<or> has_prefix path (dir @ ''/'') then None else Some path))
      else None)"

datatype route_target =
    RouteSandbox | RouteWorkspaceStore | RouteSystemStore | RouteSkillStore | RouteHostFS
  | RouteRefuseSuggestSandbox

datatype operation = OpRead | OpWrite | OpList | OpExec

definition fastclaw_internal_roots :: "'x registry \<Rightarrow> string list" where
  "fastclaw_internal_roots r =
     (if fastclaw_home r \<noteq> [] then [path_clean (fastclaw_home r)] else [])
     @ [path_clean ''/root/.fastclaw'']
     @ (case user_home r of None \<Rightarrow> [] | Some home \<Rightarrow> [path_join [home, ''.fastclaw'']])"

definition is_fastclaw_internal_path :: "'x registry \<Rightarrow> string \<Rightarrow> bool" where
  "is_fastclaw_internal_path r path =
     (if has_prefix path ''~/.fastclaw'' then True
      else is_abs path \<and>
        list_ex (\<lambda>root. path = root \<or> has_prefix path (root @ ''/'')) (fastclaw_internal_roots r))"

definition is_sandbox_only_path :: "string \<Rightarrow> bool" where
  "is_sandbox_only_path path = (has_prefix path ''~/.agents'' \<or> has_prefix path ''/root/.agents'')"

definition host_home_content_dirs :: "string list" where
  "host_home_content_dirs = [''Documents'', ''Downloads'', ''Desktop'', ''projects'', ''code'',
     ''work'', ''src'']"

definition is_explicit_host_scope :: "'x registry \<Rightarrow> string \<Rightarrow> bool" where
  "is_explicit_host_scope r path =
     (if is_fastclaw_internal_path r path \<or> is_sandbox_only_path path then False
      else if has_prefix path ''~/'' then
        list_ex (\<lambda>d. drop 2 path = d \<or> has_prefix (drop 2 path) (d @ ''/'')) host_home_content_dirs
      else if \<not> is_abs path then False
      else has_prefix path ''/Users/'' \<or> has_prefix path ''/home/'')"

definition is_dangerous_on_host :: "operation \<Rightarrow> string \<Rightarrow> bool" where
  "is_dangerous_on_host op path =
     (if op \<noteq> OpExec \<and> op \<noteq> OpWrite then False
      else is_abs path \<and> list_ex (\<lambda>p. path = p \<or> has_prefix path (p @ ''/''))
        [''/etc'', ''/usr'', ''/var'', ''/bin'', ''/sbin'', ''/opt'', ''/root''])"

definition use_workspace :: "'x registry \<Rightarrow> string \<Rightarrow> bool" where
  "use_workspace r path = (workspace_root r \<noteq> None \<and> agent_id r \<noteq> [] \<and> is_workspace_path path)"

definition use_sys_store :: "'x registry \<Rightarrow> bool" where
  "use_sys_store r = (has_sys_store r \<and> agent_id r \<noteq> [])"

definition route_for :: "'x registry \<Rightarrow> string \<Rightarrow> operation \<Rightarrow> route_target" where
  "route_for r path op =
     (if use_workspace r path then RouteWorkspaceStore
      else if use_sys_store r \<and> is_single_segment_system_file path then RouteSystemStore
      else if is_skill_path path \<and> skill_root r \<noteq> [] then RouteSkillStore
      else if hosted r then
        (if executor_of r \<noteq> None then RouteSandbox else RouteRefuseSuggestSandbox)
      else if executor_of r \<noteq> None then
        (if is_fastclaw_internal_path r path then RouteSandbox
         else if is_explicit_host_scope r path then RouteHostFS
         else RouteSandbox)
      else if is_dangerous_on_host op path then RouteRefuseSuggestSandbox
      else RouteHostFS)"

section \<open>Backends\<close>

definition ws_get :: "'x registry \<Rightarrow> 'x fstate \<Rightarrow> string \<Rightarrow> string \<Rightarrow> file_error + string" where
  "ws_get r s session path =
     (case workspace_root r of
        None \<Rightarrow> Inl StoreNotFound
      | Some root \<Rightarrow> local_get (faults_of r) (cwd r) root (agent_id r) (project_id r) session path (disk_of s))"

definition ws_put :: "'x registry \<Rightarrow> string \<Rightarrow> string \<Rightarrow> string \<Rightarrow> 'x fstate
    \<Rightarrow> 'x fstate \<times> file_error option" where
  "ws_put r session path content s =
     (case workspace_root r of
        None \<Rightarrow> (s, Some StoreNotFound)
      | Some root \<Rightarrow>
          (let (d, e) = local_put (faults_of r) (cwd r) root (agent_id r) (project_id r) session path
                          content (disk_of s)
           in (s\<lparr>disk_of := d\<rparr>, e)))"

definition ws_delete :: "'x registry \<Rightarrow> string \<Rightarrow> string \<Rightarrow> 'x fstate \<Rightarrow> 'x fstate \<times> file_error option" where
  "ws_delete r session path s =
     (case workspace_root r of
        None \<Rightarrow> (s, Some StoreNotFound)
      | Some root \<Rightarrow>
          (let (d, e) = local_delete (faults_of r) (cwd r) root (agent_id r) (project_id r) session path
                          (disk_of s)
           in (s\<lparr>disk_of := d\<rparr>, e)))"

definition fs_write :: "'x registry \<Rightarrow> string \<Rightarrow> string \<Rightarrow> 'x fstate \<Rightarrow> 'x fstate \<times> file_error option" where
  "fs_write r full content s =
     (let (d, e) = os_write (faults_of r) (disk_of s) full content in (s\<lparr>disk_of := d\<rparr>, e))"

definition mkdir_write :: "'x registry \<Rightarrow> string \<Rightarrow> string \<Rightarrow> 'x fstate \<Rightarrow> 'x fstate \<times> file_error option" where
  "mkdir_write r full content s =
     (case os_mkdir_all (faults_of r) (path_dir full) of
        Some e \<Rightarrow> (s, Some e)
      | None \<Rightarrow> fs_write r full content s)"

definition save_system_file :: "'x registry \<Rightarrow> string \<Rightarrow> string \<Rightarrow> string \<Rightarrow> 'x fstate
    \<Rightarrow> 'x fstate \<times> file_error option" where
  "save_system_file r uid name content s =
     (let (db, e) = save_agent_file (faults_of r) (agent_id r) uid name content (db_of s)
      in (s\<lparr>db_of := db\<rparr>, e))"

text \<open>The disk mirror of a system file: both calls' errors are dropped by the code.\<close>

definition mirror_system_file :: "'x registry \<Rightarrow> string \<Rightarrow> string \<Rightarrow> 'x fstate \<Rightarrow> 'x fstate" where
  "mirror_system_file r name content s =
     (if system_root r = [] then s else fst (fs_write r (path_join [system_root r, name]) content s))"

definition looks_binary :: "string \<Rightarrow> bool" where
  "looks_binary data = list_ex (\<lambda>c. byte c = 0) (take 8192 data)"

definition text_or_binary :: "string \<Rightarrow> string \<Rightarrow> reply" where
  "text_or_binary path data =
     (if looks_binary data then BinaryRefused path (length data) else Text data)"

definition validate_file_target_path :: "string \<Rightarrow> file_error option" where
  "validate_file_target_path path =
     (if trim_space path = [] then Some EmptyTarget
      else if has_suffix path ''/'' then Some (SeparatorTarget path)
      else if path_clean path \<in> {''.'', ''..'', ''/''} then Some (DirTarget path)
      else None)"

text \<open>The friendly rewriting of an \<^verbatim>\<open>is a directory\<close> failure.\<close>

definition as_is_dir_tool_error :: "string \<Rightarrow> string \<Rightarrow> file_error \<Rightarrow> file_error" where
  "as_is_dir_tool_error op path e = (case e of
     IoError m \<Rightarrow> if contains m ''is a directory'' then ResolvesToDir op path else e
   | _ \<Rightarrow> e)"

definition apply_edit :: "string \<Rightarrow> string \<Rightarrow> string \<Rightarrow> string \<Rightarrow> bool
    \<Rightarrow> file_error + (string \<times> nat)" where
  "apply_edit path content old new all =
     (if old = [] then Inl EditEmptyOld
      else if old = new then Inl EditSame
      else (let count = count_str old content
            in if count = 0 then Inl (EditNotFound path)
               else if count > 1 \<and> \<not> all then Inl (EditAmbiguous count path)
               else if all then Inr (replace_all_str old new content, count)
               else Inr (replace_first_str old new content, 1)))"

section \<open>Skill files\<close>

definition skill_key :: "string \<Rightarrow> string \<Rightarrow> string" where
  "skill_key name rel = ''skills/'' @ name @ ''/'' @ trim_prefix rel ''/''"

fun sync_files :: "'x registry \<Rightarrow> string \<Rightarrow> string \<Rightarrow> string \<Rightarrow> string \<Rightarrow> string list \<Rightarrow> disk
    \<Rightarrow> disk \<times> file_error option" where
  "sync_files r root owner name dir [] d = (d, None)"
| "sync_files r root owner name dir (p # ps) d =
     (case os_read (faults_of r) d p of
        Inl e \<Rightarrow> (d, Some e)
      | Inr content \<Rightarrow>
          (case local_put (faults_of r) (cwd r) root owner [] []
                  (skill_key name (drop (length dir + 1) p)) content d of
             (d', Some e) \<Rightarrow> (d', Some e)
           | (d', None) \<Rightarrow> sync_files r root owner name dir ps d'))"

text \<open>\<^verbatim>\<open>SyncSkillUp\<close>: every file below the skill directory, in the element-wise
  lexical order of \<^verbatim>\<open>filepath.Walk\<close>; a skill directory with no file is one that
  does not exist. The disk holds no symbolic links.\<close>

definition sync_skill_up :: "'x registry \<Rightarrow> string \<Rightarrow> string \<Rightarrow> string \<Rightarrow> 'x fstate
    \<Rightarrow> 'x fstate \<times> file_error option" where
  "sync_skill_up r owner name root_dir s =
     (case workspace_root r of
        None \<Rightarrow> (s, None)
      | Some root \<Rightarrow>
          (let dir = path_join [root_dir, name];
               files = sort_key (split_char (CHR ''/''))
                         (filter (\<lambda>p. has_prefix p (dir @ ''/'')) (map fst (disk_of s)))
           in if files = [] then (s, Some NotExist)
              else (let (d, e) = sync_files r root owner name dir files (disk_of s)
                    in (s\<lparr>disk_of := d\<rparr>, e))))"

definition write_skill_to_host :: "'x registry \<Rightarrow> string \<Rightarrow> string \<Rightarrow> 'x fstate
    \<Rightarrow> 'x fstate \<times> (file_error + string)" where
  "write_skill_to_host r path content s =
     (let root = skill_root r
      in if root = [] then (s, Inl (NoSkillsRoot path))
         else (let full = path_join [root, path_clean path]
               in if is_global_skills_path full then (s, Inl GlobalSkillsWrite)
                  else (case mkdir_write r full content s of
                      (s1, Some e) \<Rightarrow> (s1, Inl e)
                    | (s1, None) \<Rightarrow>
                        (let owner = skill_store_owner r;
                             name = takeWhile (\<lambda>c. c \<noteq> CHR ''/'')
                                      (trim_prefix (path_clean path) ''skills/'')
                         in (if workspace_root r \<noteq> None \<and> owner \<noteq> [] \<and> name \<noteq> []
                             then fst (sync_skill_up r owner name (path_join [root, ''skills'']) s1)
                             else s1,
                             Inr full)))))"

section \<open>Host-mode handlers\<close>

definition host_read_file :: "'x registry \<Rightarrow> 'x fstate \<Rightarrow> string \<Rightarrow> file_error + reply" where
  "host_read_file r s path =
     (if identity_file_blocked r path then Inr IdentityRefused
      else if skill_manifest_blocked r path then Inr SkillManifestRefused
      else if use_workspace r path then
        try_then (ws_get r s (scope_session_id r) (ws_path r path))
          (\<lambda>data. Inr (text_or_binary path data))
      else if use_sys_store r \<and> basename_is_system_file path then
        (let name = path_base (path_clean path)
         in case read_system_file_for_user r s (system_file_user_id r name) name of
              Inr data \<Rightarrow> Inr (Text data)
            | Inl _ \<Rightarrow>
                if system_root r \<noteq> [] then
                  (case os_read (faults_of r) (disk_of s) (path_join [system_root r, name]) of
                     Inr data \<Rightarrow> Inr (Text data)
                   | Inl _ \<Rightarrow> Inr (Text []))
                else Inr (Text []))
      else try_then (host_path r path)
        (\<lambda>full. case os_read (faults_of r) (disk_of s) full of
           Inr data \<Rightarrow> Inr (text_or_binary path data)
         | Inl e \<Rightarrow> if e = NotExist \<and> is_single_segment_system_file path then Inr (Text []) else Inl e))"

text \<open>\<open>reply_or s m f\<close>: the error of a state-changing call, or the reply.\<close>

definition reply_or :: "('x fstate \<times> file_error option) \<Rightarrow> (file_error \<Rightarrow> file_error)
    \<Rightarrow> ('x fstate \<Rightarrow> 'x fstate) \<Rightarrow> reply \<Rightarrow> 'x fstate \<times> (file_error + reply)" where
  "reply_or m conv post rep =
     (case m of (s, Some e) \<Rightarrow> (s, Inl (conv e)) | (s, None) \<Rightarrow> (post s, Inr rep))"

definition host_write_file :: "'x registry \<Rightarrow> string \<Rightarrow> string \<Rightarrow> 'x fstate
    \<Rightarrow> 'x fstate \<times> (file_error + reply)" where
  "host_write_file r path content s =
     (case validate_file_target_path path of
        Some e \<Rightarrow> (s, Inl e)
      | None \<Rightarrow>
        if identity_file_blocked r path then (s, Inr IdentityRefused)
        else if owner_managed_file_write_blocked r path then (s, Inr OwnerManagedRefused)
        else if use_workspace r path then
          reply_or (ws_put r (scope_session_id r) (ws_path r path) content s)
            (as_is_dir_tool_error ''write_file'' path) id (Written (length content) path)
        else if use_sys_store r \<and> is_single_segment_system_file path then
          (let name = path_clean path
           in reply_or (save_system_file r (system_file_user_id r name) name content s)
                id (mirror_system_file r name content) (Written (length content) name))
        else if is_skill_path path \<and> skill_root r \<noteq> [] then
          (case write_skill_to_host r path content s of
             (s', Inl e) \<Rightarrow> (s', Inl e)
           | (s', Inr full) \<Rightarrow> (s', Inr (Written (length content) full)))
        else (case host_path r path of
            Inl e \<Rightarrow> (s, Inl e)
          | Inr full \<Rightarrow>
              if is_global_skills_path full then (s, Inl GlobalSkillsWrite)
              else (case os_mkdir_all (faults_of r) (path_dir full) of
                  Some e \<Rightarrow> (s, Inl e)
                | None \<Rightarrow> reply_or (fs_write r full content s)
                    (as_is_dir_tool_error ''write_file'' path) id (Written (length content) full))))"

definition host_edit_file :: "'x registry \<Rightarrow> string \<Rightarrow> string \<Rightarrow> string \<Rightarrow> bool \<Rightarrow> 'x fstate
    \<Rightarrow> 'x fstate \<times> (file_error + reply)" where
  "host_edit_file r path old new all s =
     (case validate_file_target_path path of
        Some e \<Rightarrow> (s, Inl e)
      | None \<Rightarrow>
        if identity_file_blocked r path then (s, Inr IdentityRefused)
        else if owner_managed_file_write_blocked r path then (s, Inr OwnerManagedRefused)
        else if skill_manifest_blocked r path then (s, Inr SkillManifestRefused)
        else if use_workspace r path then
          (case ws_get r s (scope_session_id r) (ws_path r path) of
             Inl e \<Rightarrow> (s, Inl e)
           | Inr data \<Rightarrow>
               if looks_binary data then (s, Inr (BinaryRefused path (length data)))
               else (case apply_edit path data old new all of
                   Inl e \<Rightarrow> (s, Inl e)
                 | Inr (updated, n) \<Rightarrow>
                     reply_or (ws_put r (scope_session_id r) (ws_path r path) updated s)
                       (as_is_dir_tool_error ''edit_file'' path) id (Edited path n)))
        else if use_sys_store r \<and> is_single_segment_system_file path then
          (let name = path_clean path; uid = system_file_user_id r name
           in case read_system_file_for_user r s uid name of
                Inl e \<Rightarrow> (s, Inl e)
              | Inr data \<Rightarrow>
                  (case apply_edit path data old new all of
                     Inl e \<Rightarrow> (s, Inl e)
                   | Inr (updated, n) \<Rightarrow>
                       reply_or (save_system_file r uid name updated s)
                         id (mirror_system_file r name updated) (Edited name n)))
        else (case host_path r path of
            Inl e \<Rightarrow> (s, Inl e)
          | Inr full \<Rightarrow>
              if is_global_skills_path full then (s, Inl GlobalSkillsWrite)
              else (case os_read (faults_of r) (disk_of s) full of
                  Inl e \<Rightarrow> (s, Inl e)
                | Inr data \<Rightarrow>
                    if looks_binary data then (s, Inr (BinaryRefused path (length data)))
                    else (case apply_edit path data old new all of
                        Inl e \<Rightarrow> (s, Inl e)
                      | Inr (updated, n) \<Rightarrow> reply_or (fs_write r full updated s) id id (Edited full n)))))"

section \<open>Sandbox-mode handlers\<close>

definition box_read :: "'x executor \<Rightarrow> 'x fstate \<Rightarrow> string \<Rightarrow> file_error + string" where
  "box_read ex s path = (case ex_read ex (box_of s) path of
     Inl m \<Rightarrow> Inl (SandboxError m) | Inr t \<Rightarrow> Inr t)"

definition box_write :: "'x executor \<Rightarrow> string \<Rightarrow> string \<Rightarrow> 'x fstate
    \<Rightarrow> 'x fstate \<times> (file_error + string)" where
  "box_write ex path content s = (case ex_write ex (box_of s) path content of
     (x, Inl m) \<Rightarrow> (s\<lparr>box_of := x\<rparr>, Inl (SandboxError m))
   | (x, Inr t) \<Rightarrow> (s\<lparr>box_of := x\<rparr>, Inr t))"

definition box_read_reply :: "'x executor \<Rightarrow> 'x fstate \<Rightarrow> string \<Rightarrow> file_error + reply" where
  "box_read_reply ex s path = (case box_read ex s path of
     Inl e \<Rightarrow> Inl e
   | Inr out \<Rightarrow> Inr (if looks_binary out then BinaryRefused path (length out) else Sandboxed (Text out)))"

definition mirror_coding_write :: "'x registry \<Rightarrow> string \<Rightarrow> string \<Rightarrow> 'x fstate \<Rightarrow> 'x fstate" where
  "mirror_coding_write r path content s =
     (case executor_of r of
        None \<Rightarrow> s
      | Some ex \<Rightarrow>
          if coding_subdir r = [] \<or> \<not> ex_remote ex then s
          else fst (box_write ex (''/workspace/'' @ trim_prefix (path_clean path) ''/'') content s))"

definition host_or_home :: "'x registry \<Rightarrow> string \<Rightarrow> string" where
  "host_or_home r path = (case host_home_path r path of None \<Rightarrow> path | Some full \<Rightarrow> full)"

definition sandbox_read_file :: "'x registry \<Rightarrow> 'x executor \<Rightarrow> 'x fstate \<Rightarrow> string
    \<Rightarrow> file_error + reply" where
  "sandbox_read_file r ex s path =
     (if identity_file_blocked r path then Inr IdentityRefused
      else if skill_manifest_blocked r path then Inr SkillManifestRefused
      else if use_sys_store r \<and> basename_is_system_file path then
        (let name = path_base (path_clean path)
         in case read_system_file_for_user r s (system_file_user_id r name) name of
              Inr data \<Rightarrow> Inr (Text data)
            | Inl _ \<Rightarrow> Inr (Text []))
      else (case route_for r path OpRead of
          RouteWorkspaceStore \<Rightarrow>
            (case ws_get r s (scope_session_id r) (ws_path r path) of
               Inr data \<Rightarrow> Inr (text_or_binary path data)
             | Inl _ \<Rightarrow> box_read_reply ex s path)
        | RouteSkillStore \<Rightarrow>
            (case os_read (faults_of r) (disk_of s) (path_join [skill_root r, path_clean path]) of
               Inr data \<Rightarrow> Inr (text_or_binary path data)
             | Inl _ \<Rightarrow> box_read_reply ex s path)
        | RouteHostFS \<Rightarrow>
            (case os_read (faults_of r) (disk_of s) (host_or_home r path) of
               Inr data \<Rightarrow> Inr (text_or_binary path data)
             | Inl e \<Rightarrow> Inl e)
        | RouteRefuseSuggestSandbox \<Rightarrow> Inl SandboxRequired
        | _ \<Rightarrow> box_read_reply ex s path))"

definition sandbox_write_file :: "'x registry \<Rightarrow> 'x executor \<Rightarrow> string \<Rightarrow> string \<Rightarrow> 'x fstate
    \<Rightarrow> 'x fstate \<times> (file_error + reply)" where
  "sandbox_write_file r ex path content s =
     (case validate_file_target_path path of
        Some e \<Rightarrow> (s, Inl e)
      | None \<Rightarrow>
        if identity_file_blocked r path then (s, Inr IdentityRefused)
        else if owner_managed_file_write_blocked r path then (s, Inr OwnerManagedRefused)
        else (case route_for r path OpWrite of
          RouteSystemStore \<Rightarrow>
            (let name = path_clean path
             in reply_or (save_system_file r (system_file_user_id r name) name content s)
                  id id (Written (length content) name))
        | RouteWorkspaceStore \<Rightarrow>
            reply_or (ws_put r (scope_session_id r) (ws_path r path) content s)
              (as_is_dir_tool_error ''write_file'' path) (mirror_coding_write r path content)
              (Written (length content) path)
        | RouteSkillStore \<Rightarrow>
            (case write_skill_to_host r path content s of
               (s', Inl e) \<Rightarrow> (s', Inl e)
             | (s', Inr full) \<Rightarrow> (s', Inr (Written (length content) full)))
        | RouteHostFS \<Rightarrow>
            reply_or (mkdir_write r (host_or_home r path) content s) id id
              (Written (length content) (host_or_home r path))
        | RouteRefuseSuggestSandbox \<Rightarrow> (s, Inl SandboxRequired)
        | RouteSandbox \<Rightarrow>
            (case box_write ex path content s of
               (s', Inl e) \<Rightarrow> (s', Inl e)
             | (s', Inr out) \<Rightarrow> (s', Inr (Sandboxed (Text out))))))"

definition edit_sandbox_rmw :: "'x executor \<Rightarrow> string \<Rightarrow> string \<Rightarrow> string \<Rightarrow> bool \<Rightarrow> 'x fstate
    \<Rightarrow> 'x fstate \<times> (file_error + reply)" where
  "edit_sandbox_rmw ex path old new all s =
     (case box_read ex s path of
        Inl e \<Rightarrow> (s, Inl e)
      | Inr data \<Rightarrow>
          if looks_binary data then (s, Inr (BinaryRefused path (length data)))
          else (case apply_edit path data old new all of
              Inl e \<Rightarrow> (s, Inl e)
            | Inr (updated, n) \<Rightarrow>
                (case box_write ex path updated s of
                   (s', Inl e) \<Rightarrow> (s', Inl e)
                 | (s', Inr _) \<Rightarrow> (s', Inr (Sandboxed (Edited path n))))))"

definition sandbox_edit_file :: "'x registry \<Rightarrow> 'x executor \<Rightarrow> string \<Rightarrow> string \<Rightarrow> string \<Rightarrow> bool
    \<Rightarrow> 'x fstate \<Rightarrow> 'x fstate \<times> (file_error + reply)" where
  "sandbox_edit_file r ex path old new all s =
     (case validate_file_target_path path of
        Some e \<Rightarrow> (s, Inl e)
      | None \<Rightarrow>
        if identity_file_blocked r path then (s, Inr IdentityRefused)
        else if owner_managed_file_write_blocked r path then (s, Inr OwnerManagedRefused)
        else if skill_manifest_blocked r path then (s, Inr SkillManifestRefused)
        else (case route_for r path OpWrite of
          RouteSystemStore \<Rightarrow>
            if owner_managed_file_write_blocked r path then (s, Inr OwnerManagedRefused)
            else (let name = path_clean path; uid = system_file_user_id r name
              in case read_system_file_for_user r s uid name of
                   Inl e \<Rightarrow> (s, Inl e)
                 | Inr data \<Rightarrow>
                     (case apply_edit path data old new all of
                        Inl e \<Rightarrow> (s, Inl e)
                      | Inr (updated, n) \<Rightarrow>
                          reply_or (save_system_file r uid name updated s) id id (Edited name n)))
        | RouteWorkspaceStore \<Rightarrow>
            (case ws_get r s (scope_session_id r) (ws_path r path) of
               Inl e \<Rightarrow> edit_sandbox_rmw ex path old new all s
             | Inr data \<Rightarrow>
                 if looks_binary data then (s, Inr (BinaryRefused path (length data)))
                 else (case apply_edit path data old new all of
                     Inl e \<Rightarrow> (s, Inl e)
                   | Inr (updated, n) \<Rightarrow>
                       reply_or (ws_put r (scope_session_id r) (ws_path r path) updated s)
                         (as_is_dir_tool_error ''edit_file'' path)
                         (mirror_coding_write r path updated) (Edited path n)))
        | RouteHostFS \<Rightarrow>
            (case os_read (faults_of r) (disk_of s) (host_or_home r path) of
               Inl e \<Rightarrow> (s, Inl e)
             | Inr data \<Rightarrow>
                 if looks_binary data then (s, Inr (BinaryRefused path (length data)))
                 else (case apply_edit path data old new all of
                     Inl e \<Rightarrow> (s, Inl e)
                   | Inr (updated, n) \<Rightarrow>
                       reply_or (fs_write r (host_or_home r path) updated s) id id
                         (Edited (host_or_home r path) n)))
        | RouteRefuseSuggestSandbox \<Rightarrow> (s, Inl SandboxRequired)
        | _ \<Rightarrow> edit_sandbox_rmw ex path old new all s))"

section \<open>Patch backends\<close>

definition read_for_patch :: "'x registry \<Rightarrow> 'x fstate \<Rightarrow> string \<Rightarrow> file_error + string" where
  "read_for_patch r s path =
     (if identity_file_blocked r path then Inl IdentityRefusal
      else if use_workspace r path then ws_get r s (session_id r) path
      else if use_sys_store r \<and> basename_is_system_file path then
        (let name = path_base (path_clean path)
         in case read_system_file_for_user r s (system_file_user_id r name) name of
              Inr data \<Rightarrow> Inr data
            | Inl _ \<Rightarrow>
                if system_root r \<noteq> [] then
                  (case os_read (faults_of r) (disk_of s) (path_join [system_root r, name]) of
                     Inr data \<Rightarrow> Inr data | Inl _ \<Rightarrow> Inr [])
                else Inr [])
      else try_then (host_path r path)
        (\<lambda>full. case os_read (faults_of r) (disk_of s) full of
           Inr data \<Rightarrow> Inr data
         | Inl e \<Rightarrow> if e = NotExist \<and> is_single_segment_system_file path then Inr [] else Inl e))"

definition write_for_patch :: "'x registry \<Rightarrow> 'x fstate \<Rightarrow> string \<Rightarrow> string
    \<Rightarrow> 'x fstate \<times> file_error option" where
  "write_for_patch r s path content =
     (if identity_file_blocked r path then (s, Some IdentityRefusal)
      else if owner_managed_file_write_blocked r path then (s, Some OwnerManagedRefusal)
      else if use_workspace r path then ws_put r (session_id r) path content s
      else if use_sys_store r \<and> is_single_segment_system_file path then
        (let name = path_clean path
         in case save_system_file r (system_file_user_id r name) name content s of
              (s', Some e) \<Rightarrow> (s', Some e)
            | (s', None) \<Rightarrow> (mirror_system_file r name content s', None))
      else (case host_path r path of
          Inl e \<Rightarrow> (s, Some e)
        | Inr full \<Rightarrow>
            if is_global_skills_path full then (s, Some GlobalSkillsWrite)
            else mkdir_write r full content s))"

definition delete_for_patch :: "'x registry \<Rightarrow> 'x fstate \<Rightarrow> string \<Rightarrow> 'x fstate \<times> file_error option" where
  "delete_for_patch r s path =
     (if is_single_segment_system_file path then (s, Some (IdentityDeleteRefusal path))
      else if use_workspace r path then ws_delete r (session_id r) path s
      else (case host_path r path of
          Inl e \<Rightarrow> (s, Some e)
        | Inr full \<Rightarrow>
            (let (d, e) = os_remove (faults_of r) (disk_of s) full in (s\<lparr>disk_of := d\<rparr>, e))))"

definition read_for_patch_sandbox :: "'x registry \<Rightarrow> 'x executor \<Rightarrow> 'x fstate \<Rightarrow> string
    \<Rightarrow> file_error + string" where
  "read_for_patch_sandbox r ex s path =
     (if use_sys_store r \<and> basename_is_system_file path then
        (let name = path_base (path_clean path)
         in case read_system_file_for_user r s (system_file_user_id r name) name of
              Inr data \<Rightarrow> Inr data | Inl _ \<Rightarrow> Inr [])
      else if use_workspace r path then
        (case ws_get r s (session_id r) path of
           Inr data \<Rightarrow> Inr data | Inl _ \<Rightarrow> box_read ex s path)
      else box_read ex s path)"

definition write_for_patch_sandbox :: "'x registry \<Rightarrow> 'x executor \<Rightarrow> 'x fstate \<Rightarrow> string \<Rightarrow> string
    \<Rightarrow> 'x fstate \<times> file_error option" where
  "write_for_patch_sandbox r ex s path content =
     (if owner_managed_file_write_blocked r path then (s, Some OwnerManagedRefusal)
      else if use_sys_store r \<and> is_single_segment_system_file path then
        (let name = path_clean path
         in save_system_file r (system_file_user_id r name) name content s)
      else if use_workspace r path then ws_put r (session_id r) path content s
      else (case box_write ex path content s of
          (s', Inl e) \<Rightarrow> (s', Some e) | (s', Inr _) \<Rightarrow> (s', None)))"

definition quote_for_rm :: "string \<Rightarrow> string" where
  "quote_for_rm path =
     (let q = [CHR 0x27]
      in q @ replace_byte (CHR 0x27) (q @ [CHR 0x5C] @ q @ q) path @ q)"

definition delete_for_patch_sandbox :: "'x registry \<Rightarrow> 'x executor \<Rightarrow> 'x fstate \<Rightarrow> string
    \<Rightarrow> 'x fstate \<times> file_error option" where
  "delete_for_patch_sandbox r ex s path =
     (if is_single_segment_system_file path then (s, Some (IdentityDeleteRefusal path))
      else if use_workspace r path then ws_delete r (session_id r) path s
      else (case ex_exec ex (box_of s) (''rm -f -- '' @ quote_for_rm path) of
          (x, Inl m) \<Rightarrow> (s\<lparr>box_of := x\<rparr>, Some (SandboxError m))
        | (x, Inr _) \<Rightarrow> (s\<lparr>box_of := x\<rparr>, None)))"

text \<open>The two registrations of \<^verbatim>\<open>apply_patch\<close>.\<close>

definition host_apply_patch :: "'x registry \<Rightarrow> string \<Rightarrow> 'x fstate
    \<Rightarrow> 'x fstate \<times> (file_error run_error + reply)" where
  "host_apply_patch r input s =
     (case run_apply_patch is_single_segment_system_file (read_for_patch r) (write_for_patch r)
             (delete_for_patch r) input s of
        (s', Inl e) \<Rightarrow> (s', Inl e)
      | (s', Inr out) \<Rightarrow> (s', Inr (Text out)))"

definition sandbox_apply_patch :: "'x registry \<Rightarrow> 'x executor \<Rightarrow> string \<Rightarrow> 'x fstate
    \<Rightarrow> 'x fstate \<times> (file_error run_error + reply)" where
  "sandbox_apply_patch r ex input s =
     (case run_apply_patch is_single_segment_system_file (read_for_patch_sandbox r ex)
             (write_for_patch_sandbox r ex) (delete_for_patch_sandbox r ex) input s of
        (s', Inl e) \<Rightarrow> (s', Inl e)
      | (s', Inr out) \<Rightarrow> (s', Inr (Sandboxed (Text out))))"

section \<open>The gates on the canonical names\<close>

lemma identity_normal:
  "name \<in> set identity_files \<Longrightarrow> normal_elem name \<and> name \<in> set system_files \<and> name \<noteq> ''SKILL.md''"
  by (auto simp: identity_files_def system_files_def normal_elem_def)

lemma identity_path: "name \<in> set identity_files \<Longrightarrow> is_identity_file_path name"
  using identity_normal [of name] path_clean_elem [of name] path_base_elem [of name]
  by (auto simp: is_identity_file_path_def has_sep_def normal_elem_def Let_def)

lemma identity_blocked: "name \<in> set identity_files \<Longrightarrow> \<not> caller_is_admin r \<Longrightarrow> identity_file_blocked r name"
  by (simp add: identity_file_blocked_def identity_path)

text \<open>A caller who is not an administrator is refused an identity file by its plain name in
  every file tool, in host and in sandbox mode, and the state is unchanged.\<close>

theorem identity_name_refused:
  assumes "name \<in> set identity_files" and "\<not> caller_is_admin r"
  shows "host_read_file r s name = Inr IdentityRefused \<and>
    sandbox_read_file r ex s name = Inr IdentityRefused \<and>
    host_write_file r name c s = (s, Inr IdentityRefused) \<and>
    sandbox_write_file r ex name c s = (s, Inr IdentityRefused) \<and>
    host_edit_file r name old new all s = (s, Inr IdentityRefused) \<and>
    sandbox_edit_file r ex name old new all s = (s, Inr IdentityRefused)"
proof -
  have b: "identity_file_blocked r name" by (rule identity_blocked [OF assms])
  obtain a x z where n: "name = a # x @ [z]" "byte a < 128" "\<not> is_space (byte a)" "byte z < 128" "\<not> is_space (byte z)"
    "z \<noteq> CHR ''/''"
  proof -
    have "\<exists>x. name = hd name # x @ [last name]"
      using assms(1) by (auto simp: identity_files_def)
    moreover have "byte (hd name) < 128 \<and> \<not> is_space (byte (hd name)) \<and> byte (last name) < 128
        \<and> \<not> is_space (byte (last name)) \<and> last name \<noteq> CHR ''/''"
      using assms(1) by (auto simp: identity_files_def is_space_def in_range_def)
    ultimately show ?thesis using that by blast
  qed
  have "trim_space name = name" unfolding n(1) by (rule trim_space_id) (use n in auto)
  moreover have "\<not> has_suffix name ''/''" using n by (auto simp: has_suffix_iff)
  moreover have "path_clean name \<notin> {''.'', ''..'', ''/''}"
    using identity_normal [OF assms(1)] path_clean_elem [of name] by (auto simp: normal_elem_def)
  ultimately have "validate_file_target_path name = None"
    using n(1) by (auto simp: validate_file_target_path_def)
  with b show ?thesis
    by (simp add: host_read_file_def sandbox_read_file_def host_write_file_def sandbox_write_file_def
        host_edit_file_def sandbox_edit_file_def)
qed

section \<open>Where the gates do not reach\<close>

lemma skills_alias:
  assumes "normal_elem name"
  shows "path_clean (''skills/'' @ name) = ''skills/'' @ name" "path_base (''skills/'' @ name) = name"
    "\<not> is_abs (''skills/'' @ name)" "has_sep (''skills/'' @ name)"
proof -
  have j: "join_with ''/'' [''skills'', name] = ''skills/'' @ name" by simp
  have n: "list_all normal_elem [''skills'', name]" using assms by (simp add: normal_elem_def)
  show "path_clean (''skills/'' @ name) = ''skills/'' @ name"
    using path_clean_rel [OF n] j by simp
  show "\<not> is_abs (''skills/'' @ name)" using not_abs_rel [OF n] j by simp
  show "path_base (''skills/'' @ name) = name"
    using path_base_join [OF assms, of "[''skills'']"] j by simp
  show "has_sep (''skills/'' @ name)" by (simp add: has_sep_def)
qed

text \<open>C23: The gate is passed by the alias \<^verbatim>\<open>skills/NAME\<close>: it counts as nested, so it
  is not an identity path, but it is not a workspace path either, and the lenient base-name lookup
  serves the stored identity file to a caller who is no administrator, in both modes.\<close>

theorem identity_alias_leaks:
  assumes "name \<in> set identity_files" and "\<not> caller_is_admin r" and "use_sys_store r"
    and "read_system_file_for_user r s (system_file_user_id r name) name = Inr data"
  shows "host_read_file r s (''skills/'' @ name) = Inr (Text data) \<and>
    sandbox_read_file r ex s (''skills/'' @ name) = Inr (Text data)"
proof -
  note n = identity_normal [OF assms(1)]
  note a = skills_alias [of name]
  have "\<not> identity_file_blocked r (''skills/'' @ name)"
    using n a by (auto simp: identity_file_blocked_def is_identity_file_path_def Let_def)
  moreover have "\<not> skill_manifest_blocked r (''skills/'' @ name)"
    using n a by (auto simp: skill_manifest_blocked_def is_protected_skill_manifest_path_def Let_def)
  moreover have "\<not> use_workspace r (''skills/'' @ name)"
    using n a by (auto simp: use_workspace_def is_workspace_path_def Let_def)
  moreover have "basename_is_system_file (''skills/'' @ name)"
    using n a by (simp add: basename_is_system_file_def)
  ultimately show ?thesis
    using n a assms by (simp add: host_read_file_def sandbox_read_file_def Let_def)
qed

definition demo_faults :: faults where
  "demo_faults = \<lparr>io_fault = (\<lambda>_. None), mkdir_fault = (\<lambda>_. None), db_fault = None\<rparr>"

definition demo_registry :: "unit registry" where
  "demo_registry = \<lparr>system_root = ''/h'', user_root = ''/u'', sandbox_root = [],
     workspace_root = Some ''/w'', has_sys_store = True, agent_id = ''a'', session_id = ''s'',
     project_id = [], coding_root_scope = False, coding_subdir = [], user_skills_root = [],
     user_id = ''own'', chatter_user_id = ''chat'', agent_owner_user_id = ''own'',
     caller_is_admin = False, executor_of = None, hosted = False, user_home = None,
     fastclaw_home = [], cwd = ''/'', faults_of = demo_faults\<rparr>"

definition demo_state :: "unit fstate" where
  "demo_state = \<lparr>disk_of = [], db_of = \<lparr>agent_files =
       [\<lparr>af_agent = ''a'', af_user = ''own'', af_name = ''SOUL.md'', af_content = ''secret''\<rparr>],
     agent_owners = [(''a'', ''own'')]\<rparr>, box_of = ()\<rparr>"

definition demo_box :: "unit executor" where
  "demo_box = \<lparr>ex_read = (\<lambda>_ _. Inl ''missing''), ex_write = (\<lambda>_ _ _. ((), Inr ''ok'')),
     ex_exec = (\<lambda>_ _. ((), Inr [])), ex_remote = False\<rparr>"

lemma demo_soul:
  "''SOUL.md'' \<in> set identity_files" "\<not> caller_is_admin demo_registry" "use_sys_store demo_registry"
  "read_system_file_for_user demo_registry demo_state (system_file_user_id demo_registry ''SOUL.md'') ''SOUL.md''
     = Inr ''secret''"
proof -
  have n: "normal_elem ''SOUL.md''" by (simp add: normal_elem_def)
  show "''SOUL.md'' \<in> set identity_files" by (simp add: identity_files_def)
  show "\<not> caller_is_admin demo_registry" by (simp add: demo_registry_def)
  show "use_sys_store demo_registry" by (simp add: use_sys_store_def demo_registry_def)
  show "read_system_file_for_user demo_registry demo_state (system_file_user_id demo_registry ''SOUL.md'') ''SOUL.md''
     = Inr ''secret''"
    by (simp add: read_system_file_for_user_def system_file_user_id_def is_per_user_system_file_def
        get_agent_file_def path_clean_elem [OF n] path_base_elem [OF n] owner_scoped_system_files_def
        demo_registry_def demo_state_def demo_faults_def af_key_def table_simps)
qed

theorem identity_name_refused_witness:
  "host_read_file demo_registry demo_state ''SOUL.md'' = Inr IdentityRefused"
  using identity_name_refused [OF demo_soul(1,2)] by blast

theorem identity_alias_leaks_witness:
  "host_read_file demo_registry demo_state (''skills/'' @ ''SOUL.md'') = Inr (Text ''secret'')"
  using identity_alias_leaks [OF demo_soul, of demo_box] by blast

text \<open>The sandbox backend of \<^verbatim>\<open>apply_patch\<close> has no identity gate: a write to an
  identity file by a caller who is no administrator goes straight to the agent file table, under
  the agent owner's row when one is set.\<close>

theorem sandbox_patch_writes_identity:
  assumes "name \<in> set identity_files" and "\<not> caller_is_admin r" and "use_sys_store r"
  shows "write_for_patch_sandbox r ex s name content
    = save_system_file r (system_file_user_id r name) name content s"
proof -
  note n = identity_normal [OF assms(1)]
  have c: "path_clean name = name" "\<not> is_abs name" "path_base name = name" "\<not> has_sep name"
    using n path_clean_elem [of name] path_base_elem [of name] by (auto simp: normal_elem_def has_sep_def)
  have "\<not> owner_managed_file_write_blocked r name"
    using assms c by (simp add: owner_managed_file_write_blocked_def Let_def)
  moreover have "is_single_segment_system_file name"
    using n c by (simp add: is_single_segment_system_file_def Let_def)
  ultimately show ?thesis
    using assms c by (simp add: write_for_patch_sandbox_def Let_def)
qed

theorem sandbox_patch_writes_identity_witness:
  "write_for_patch_sandbox demo_registry demo_box demo_state ''SOUL.md'' ''x''
    = save_system_file demo_registry (system_file_user_id demo_registry ''SOUL.md'') ''SOUL.md'' ''x'' demo_state"
  by (rule sandbox_patch_writes_identity [OF demo_soul(1-3)])

section \<open>Edits\<close>

text \<open>A single-match edit that succeeds replaces exactly one occurrence: the text before and
  after it is kept, the search text does not occur in what follows, and the count is one.\<close>

theorem apply_edit_unique:
  assumes "apply_edit path content old new False = Inr (updated, n)"
  shows "n = 1 \<and> (\<exists>u v. content = u @ old @ v \<and> updated = u @ new @ v \<and> \<not> contains v old)"
proof -
  from assms have o: "old \<noteq> []" and c: "count_str old content \<noteq> 0" "\<not> count_str old content > 1"
    and u: "updated = replace_first_str old new content" and n: "n = 1"
    by (auto simp: apply_edit_def Let_def split: if_splits)
  from c have "count_str old content = 1" by simp
  from count_str_1 [OF o this] obtain x y where
    "cut_str old content = Some (x, y)" "content = x @ old @ y" "\<not> contains y old" .
  with u n show ?thesis by (auto simp: replace_first_str_def)
qed

theorem apply_edit_unique_witness:
  "\<exists>u v. ''abc'' = u @ ''b'' @ v \<and> ''axc'' = u @ ''x'' @ v \<and> \<not> contains v ''b''"
proof -
  have "apply_edit ''f'' ''abc'' ''b'' ''x'' False = Inr (''axc'', 1)"
    by (simp add: apply_edit_def count_str.simps replace_first_str_def)
  from apply_edit_unique [OF this] show ?thesis by blast
qed

section \<open>The patch engine on the workspace\<close>

text \<open>The paths the workspace store serves in both modes, and the slot of a path.\<close>

definition ws_served :: "'x registry \<Rightarrow> string \<Rightarrow> bool" where
  "ws_served r path = (use_workspace r path \<and> \<not> basename_is_system_file path
     \<and> \<not> identity_file_blocked r path \<and> \<not> owner_managed_file_write_blocked r path)"

definition ws_slot :: "'x registry \<Rightarrow> string \<Rightarrow> file_error + string" where
  "ws_slot r path = (case workspace_root r of
     None \<Rightarrow> Inl StoreNotFound
   | Some root \<Rightarrow> local_resolve (cwd r) root (agent_id r) (project_id r) (session_id r) path)"

lemma fst_snd_let: "(let (d, e) = m in (s d, e)) = (s (fst m), snd m)"
  by (cases m) simp

lemma ws_get_put_same:
  "snd (ws_put r sess p c s) = None \<Longrightarrow> ws_get r (fst (ws_put r sess p c s)) sess p = Inr c"
  by (cases "workspace_root r")
    (simp_all add: ws_put_def ws_get_def fst_snd_let local_get_put_same)

lemma ws_get_put_other:
  "ws_slot r p \<noteq> ws_slot r q \<Longrightarrow>
    ws_get r (fst (ws_put r (session_id r) p c s)) (session_id r) q = ws_get r s (session_id r) q"
  by (cases "workspace_root r")
    (simp_all add: ws_put_def ws_get_def ws_slot_def fst_snd_let local_get_put_other)

lemma ws_get_delete_other:
  "ws_slot r p \<noteq> ws_slot r q \<Longrightarrow>
    ws_get r (fst (ws_delete r (session_id r) p s)) (session_id r) q = ws_get r s (session_id r) q"
  by (cases "workspace_root r")
    (simp_all add: ws_delete_def ws_get_def ws_slot_def fst_snd_let local_get_delete_other)

lemma ws_keeps_box:
  "box_of (fst (ws_put r sess p c s)) = box_of s" "box_of (fst (ws_delete r sess p s)) = box_of s"
  by (cases "workspace_root r"; simp add: ws_put_def ws_delete_def fst_snd_let)+

lemma ws_served_not_single:
  assumes "ws_served r p"
  shows "\<not> is_single_segment_system_file p" "use_workspace r p" "\<not> basename_is_system_file p"
    "\<not> identity_file_blocked r p" "\<not> owner_managed_file_write_blocked r p"
  using assms
  by (auto simp: ws_served_def use_workspace_def is_workspace_path_def
      is_single_segment_system_file_def Let_def split: if_splits)

lemma ws_served_host:
  assumes "ws_served r p"
  shows "read_for_patch r s p = ws_get r s (session_id r) p"
    "write_for_patch r s p c = ws_put r (session_id r) p c s"
    "delete_for_patch r s p = ws_delete r (session_id r) p s"
  using ws_served_not_single [OF assms]
  by (simp_all add: read_for_patch_def write_for_patch_def delete_for_patch_def)

lemma ws_served_sandbox:
  assumes "ws_served r p"
  shows "read_for_patch_sandbox r ex s p = (case ws_get r s (session_id r) p of
      Inr data \<Rightarrow> Inr data | Inl _ \<Rightarrow> box_read ex s p)"
    "write_for_patch_sandbox r ex s p c = ws_put r (session_id r) p c s"
    "delete_for_patch_sandbox r ex s p = ws_delete r (session_id r) p s"
  using ws_served_not_single [OF assms]
  by (simp_all add: read_for_patch_sandbox_def write_for_patch_sandbox_def delete_for_patch_sandbox_def)

lemma ws_box_read:
  "box_read ex (fst (ws_put r sess p c s)) q = box_read ex s q"
  "box_read ex (fst (ws_delete r sess p s)) q = box_read ex s q"
  by (simp_all add: box_read_def ws_keeps_box)

interpretation host_ws: patch_backend "ws_served r" "ws_slot r" "read_for_patch r" "write_for_patch r"
  "delete_for_patch r" for r :: "'x registry"
  by unfold_locales
    (simp_all add: ws_served_host ws_get_put_same ws_get_put_other ws_get_delete_other)

interpretation sandbox_ws: patch_backend "ws_served r" "ws_slot r" "read_for_patch_sandbox r ex"
  "write_for_patch_sandbox r ex" "delete_for_patch_sandbox r ex" for r :: "'x registry" and ex
  by unfold_locales
    (simp_all add: ws_served_sandbox ws_get_put_same ws_get_put_other ws_get_delete_other
      ws_box_read split: sum.split)

text \<open>C1: A patch that succeeds on workspace paths no two of which share a slot does what its
  operations say, in both modes: every added or updated path then reads back exactly the content
  computed from the files before the run, and every other workspace path reads as before.\<close>

theorem apply_patch_workspace:
  assumes "host_apply_patch r input s = (s', Inr rep)"
    and "parse_patch input = Inr ops"
    and "list_all (\<lambda>p. list_all (ws_served r) (op_paths p)) ops"
    and "distinct (map (ws_slot r) (concat (map op_paths ops)))"
  shows "(\<forall>p \<in> set ops. \<forall>(t, c) \<in> set (op_write (read_for_patch r s) p). read_for_patch r s' t = Inr c) \<and>
    (\<forall>q. ws_served r q \<longrightarrow> ws_slot r q \<notin> ws_slot r ` set (concat (map op_paths ops)) \<longrightarrow>
       read_for_patch r s' q = read_for_patch r s q)"
proof -
  from assms(1) obtain out where "run_apply_patch is_single_segment_system_file (read_for_patch r)
      (write_for_patch r) (delete_for_patch r) input s = (s', Inr out)"
    by (auto simp: host_apply_patch_def split: prod.splits sum.splits)
  from host_ws.run_effect [OF this assms(2-4)] show ?thesis by (intro conjI)
qed

definition demo_ops :: "patch_op list" where
  "demo_ops = [\<lparr>op_type = OpAdd, op_path = ''n'', move_to = [], add_body = ''x'' @ [CHR 0x0A], op_hunks = []\<rparr>]"

lemma demo_ops_parse: "parse_patch (print_patch demo_ops) = Inr demo_ops"
proof (rule parse_print)
  have "trim_space [CHR ''n''] = [CHR ''n'']"
    by (simp add: trim_space_def trim_left_runes_def trim_right_runes_def is_space_def in_range_def)
  then show "list_all wf_op demo_ops"
    by (simp add: demo_ops_def wf_op_def wf_name_def has_suffix_def)
qed (simp add: demo_ops_def)

lemma demo_served: "ws_served demo_registry ''n''"
proof -
  have n: "normal_elem ''n''" by (simp add: normal_elem_def)
  note c = path_clean_elem [OF n] path_base_elem [OF n]
  show ?thesis
    using c by (simp add: ws_served_def use_workspace_def is_workspace_path_def demo_registry_def
        basename_is_system_file_def identity_file_blocked_def is_identity_file_path_def
        owner_managed_file_write_blocked_def owner_scoped_system_files_def identity_files_def
        system_files_def has_sep_def Let_def)
qed

lemma demo_run: "\<exists>s' rep. host_apply_patch demo_registry (print_patch demo_ops) demo_state = (s', Inr rep)"
proof -
  have d: "path_abs ''/'' (scope_dir ''/w'' ''a'' [] ''s'') = abs_of [''w'', ''a'', ''sessions'', ''s'']"
  proof -
    have "scope_dir ''/w'' ''a'' [] ''s'' = abs_of [''w'', ''a'', ''sessions'', ''s'']"
      by (simp add: scope_dir_def path_join_def path_clean_def is_abs_def clean_elems_def
          clean_step_def abs_of_def Let_def)
    then show ?thesis
      using path_clean_abs_of [of "[''w'', ''a'', ''sessions'', ''s'']"]
      by (simp add: path_abs_def normal_elem_def)
  qed
  obtain full where "local_resolve ''/'' ''/w'' ''a'' [] ''s'' ''n'' = Inr full"
    using local_resolve_below [OF d, of "''n''"] by (auto simp: normal_elem_def)
  then have "snd (ws_put demo_registry ''s'' ''n'' c demo_state) = None" for c
    by (simp add: ws_put_def demo_registry_def demo_faults_def local_put_def os_mkdir_all_def
        os_write_def demo_state_def)
  then have "snd (write_for_patch demo_registry demo_state ''n'' c) = None" for c
    using demo_served by (simp add: ws_served_host) (simp add: demo_registry_def)
  then obtain s1 where "write_for_patch demo_registry demo_state ''n'' (''x'' @ [CHR 0x0A]) = (s1, None)"
    by (metis prod.collapse)
  then show ?thesis
    unfolding host_apply_patch_def run_apply_patch_def demo_ops_parse by (simp add: demo_ops_def)
qed

theorem apply_patch_workspace_witness:
  "\<exists>s'. read_for_patch demo_registry s' ''n'' = Inr (''x'' @ [CHR 0x0A])"
proof -
  from demo_run obtain s' rep where
    "host_apply_patch demo_registry (print_patch demo_ops) demo_state = (s', Inr rep)" by blast
  from apply_patch_workspace [OF this demo_ops_parse] demo_served show ?thesis
    by (auto simp: demo_ops_def op_paths_def op_write_def)
qed

end
