(* ===== verification/Rate_Limit.thy ===== *)
theory Rate_Limit
  imports Claw_Prelude
begin

text \<open>
  The sliding-window rate limiter of the HTTP API, \<^verbatim>\<open>internal/api/ratelimit.go\<close>: the
  windows map, \<^verbatim>\<open>allow\<close>, one tick of \<^verbatim>\<open>cleanup\<close>, and the middleware's
  decision. A run is a list of timed events in the order the mutex serializes them.
\<close>

section \<open>Limiter\<close>

record rate_limiter =
  rl_windows :: "string \<rightharpoonup> instant list"
  rl_rpm :: int
  rl_window :: duration

definition new_rate_limiter :: "int \<Rightarrow> rate_limiter" where
  "new_rate_limiter rpm =
     (if rpm \<le> 0 then \<lparr>rl_windows = Map.empty, rl_rpm = 0, rl_window = 0\<rparr>
      else \<lparr>rl_windows = Map.empty, rl_rpm = rpm, rl_window = minute\<rparr>)"

definition window_of :: "rate_limiter \<Rightarrow> string \<Rightarrow> instant list" where
  "window_of rl uid = (case rl_windows rl uid of None \<Rightarrow> [] | Some ts \<Rightarrow> ts)"

definition prune_before :: "instant \<Rightarrow> instant list \<Rightarrow> instant list" where
  "prune_before cutoff ts = dropWhile (\<lambda>t. t < cutoff) ts"

definition allow :: "instant \<Rightarrow> string \<Rightarrow> rate_limiter \<Rightarrow> rate_limiter \<times> bool" where
  "allow now uid rl =
     (if rl_rpm rl \<le> 0 then (rl, True)
      else (let ts = prune_before (now - rl_window rl) (window_of rl uid)
            in if int (length ts) \<ge> rl_rpm rl
               then (rl\<lparr>rl_windows := (rl_windows rl)(uid \<mapsto> ts)\<rparr>, False)
               else (rl\<lparr>rl_windows := (rl_windows rl)(uid \<mapsto> ts @ [now])\<rparr>, True)))"

definition cleanup_tick :: "instant \<Rightarrow> rate_limiter \<Rightarrow> rate_limiter" where
  "cleanup_tick now rl =
     (if rl_rpm rl \<le> 0 then rl
      else rl\<lparr>rl_windows := (\<lambda>uid. case rl_windows rl uid of
             None \<Rightarrow> None
           | Some ts \<Rightarrow> (let ts' = prune_before (now - rl_window rl) ts
                         in if ts' = [] then None else Some ts'))\<rparr>)"

datatype middleware_result = Next_Handler | Too_Many_Requests

definition rate_limit_middleware :: "instant \<Rightarrow> string \<Rightarrow> rate_limiter option
    \<Rightarrow> rate_limiter option \<times> middleware_result" where
  "rate_limit_middleware now uid rl = (case rl of
     None \<Rightarrow> (None, Next_Handler)
   | Some l \<Rightarrow>
       if rl_rpm l \<le> 0 then (Some l, Next_Handler)
       else (let (l', ok) = allow now uid l
             in (Some l', if ok then Next_Handler else Too_Many_Requests)))"

section \<open>Runs\<close>

datatype rl_event = Request instant string | Cleanup instant

fun event_time :: "rl_event \<Rightarrow> instant" where
  "event_time (Request t _) = t"
| "event_time (Cleanup t) = t"

text \<open>The final limiter and the accepted requests, oldest first.\<close>

fun run_limiter :: "rl_event list \<Rightarrow> rate_limiter \<Rightarrow> (instant \<times> string) list
    \<Rightarrow> rate_limiter \<times> (instant \<times> string) list" where
  "run_limiter [] rl acc = (rl, acc)"
| "run_limiter (Cleanup t # es) rl acc = run_limiter es (cleanup_tick t rl) acc"
| "run_limiter (Request t uid # es) rl acc =
     (let (rl', ok) = allow t uid rl
      in run_limiter es rl' (if ok then acc @ [(t, uid)] else acc))"

definition accepted_by :: "string \<Rightarrow> (instant \<times> string) list \<Rightarrow> instant list" where
  "accepted_by uid acc = map fst (filter (\<lambda>(_, u). u = uid) acc)"

definition in_window :: "instant \<Rightarrow> duration \<Rightarrow> instant list \<Rightarrow> nat" where
  "in_window a w ts = length (filter (\<lambda>t. a \<le> t \<and> t \<le> a + w) ts)"

text \<open>Between events the stored list is what a cutoff not later than the current one keeps of
  the accepted requests, and no window holds more than the limit.\<close>

definition limiter_ok :: "instant \<Rightarrow> rate_limiter \<Rightarrow> (instant \<times> string) list \<Rightarrow> bool" where
  "limiter_ok now rl acc \<longleftrightarrow>
     (\<forall>uid. sorted (accepted_by uid acc) \<and> (\<forall>t \<in> set (accepted_by uid acc). t \<le> now) \<and>
        (\<exists>c \<le> now - rl_window rl. window_of rl uid = filter (\<lambda>t. c \<le> t) (accepted_by uid acc)) \<and>
        (\<forall>a. int (in_window a (rl_window rl) (accepted_by uid acc)) \<le> rl_rpm rl))"

lemma prune_filter:
  "sorted ts \<Longrightarrow> prune_before c ts = filter (\<lambda>t. c \<le> t) ts"
proof (induction ts)
  case (Cons a ts)
  show ?case
  proof (cases "a < c")
    case False
    with Cons.prems have "\<forall>x \<in> set (a # ts). c \<le> x" by auto
    then have "filter (\<lambda>t. c \<le> t) (a # ts) = a # ts" by (simp only: filter_id_conv)
    with False show ?thesis by (simp add: prune_before_def)
  qed (use Cons in \<open>simp add: prune_before_def\<close>)
qed (simp add: prune_before_def)

lemma prune_prune:
  assumes "sorted ts" "d \<le> c"
  shows "prune_before c (filter (\<lambda>t. d \<le> t) ts) = filter (\<lambda>t. c \<le> t) ts"
proof -
  have "sorted (filter (\<lambda>t. d \<le> t) ts)" using assms(1) by (rule sorted_filter [where f = id, simplified])
  from prune_filter [OF this] show ?thesis
    using assms(2) by (simp add: conj_commute) (metis (mono_tags, lifting) dual_order.trans)
qed

lemma allow_fields [simp]:
  "rl_rpm (fst (allow t u rl)) = rl_rpm rl" "rl_window (fst (allow t u rl)) = rl_window rl"
  by (simp_all add: allow_def Let_def)

lemma cleanup_fields [simp]:
  "rl_rpm (cleanup_tick t rl) = rl_rpm rl" "rl_window (cleanup_tick t rl) = rl_window rl"
  by (simp_all add: cleanup_tick_def)

lemma accepted_by_snoc [simp]:
  "accepted_by u (acc @ [(t, v)]) = accepted_by u acc @ (if u = v then [t] else [])"
  by (simp add: accepted_by_def)

lemma limiter_ok_cleanup:
  assumes ok: "limiter_ok now rl acc" and "now \<le> t" "0 < rl_rpm rl"
  shows "limiter_ok t (cleanup_tick t rl) acc"
  unfolding limiter_ok_def
proof (intro allI conjI)
  fix uid
  from ok have s: "sorted (accepted_by uid acc)" and le: "\<forall>x \<in> set (accepted_by uid acc). x \<le> now"
    and b: "\<forall>a. int (in_window a (rl_window rl) (accepted_by uid acc)) \<le> rl_rpm rl"
    by (auto simp: limiter_ok_def)
  from ok obtain c where c: "c \<le> now - rl_window rl"
    "window_of rl uid = filter (\<lambda>t. c \<le> t) (accepted_by uid acc)"
    unfolding limiter_ok_def by blast
  have "window_of (cleanup_tick t rl) uid = prune_before (t - rl_window rl) (window_of rl uid)"
    using assms(3) by (cases "rl_windows rl uid")
      (auto simp: cleanup_tick_def window_of_def prune_before_def Let_def eq_commute [of "[]"])
  also have "\<dots> = filter (\<lambda>x. t - rl_window rl \<le> x) (accepted_by uid acc)"
    unfolding c(2) using c(1) assms(2) by (intro prune_prune [OF s]) simp
  finally show "\<exists>c \<le> t - rl_window (cleanup_tick t rl).
      window_of (cleanup_tick t rl) uid = filter (\<lambda>x. c \<le> x) (accepted_by uid acc)"
    by (intro exI [of _ "t - rl_window rl"]) simp
  show "sorted (accepted_by uid acc)" by (rule s)
  show "\<forall>x \<in> set (accepted_by uid acc). x \<le> t" using le assms(2) by auto
  show "int (in_window a (rl_window (cleanup_tick t rl)) (accepted_by uid acc)) \<le> rl_rpm (cleanup_tick t rl)" for a
    using b by simp
qed

lemma limiter_ok_allow:
  assumes ok: "limiter_ok now rl acc" and "now \<le> t" "0 < rl_rpm rl" "0 \<le> rl_window rl"
  shows "limiter_ok t (fst (allow t u rl)) (if snd (allow t u rl) then acc @ [(t, u)] else acc)"
  unfolding limiter_ok_def
proof (intro allI conjI)
  fix uid
  let ?rl = "fst (allow t u rl)" and ?w = "rl_window rl"
  let ?acc = "if snd (allow t u rl) then acc @ [(t, u)] else acc"
  let ?old = "accepted_by uid acc"
  from ok have s: "sorted ?old" and le: "\<forall>x \<in> set ?old. x \<le> now"
    and b: "\<forall>a. int (in_window a ?w ?old) \<le> rl_rpm rl"
    by (auto simp: limiter_ok_def)
  from ok obtain c where c: "c \<le> now - ?w" "window_of rl uid = filter (\<lambda>t. c \<le> t) ?old"
    unfolding limiter_ok_def by blast
  have pruned: "prune_before (t - ?w) (window_of rl uid) = filter (\<lambda>x. t - ?w \<le> x) ?old"
    unfolding c(2) using c(1) assms(2) by (intro prune_prune [OF s]) simp
  have new: "accepted_by uid ?acc = ?old @ (if snd (allow t u rl) \<and> uid = u then [t] else [])"
    by simp
  show "sorted (accepted_by uid ?acc)"
    unfolding new using s le assms(2) by (auto simp: sorted_append)
  show "\<forall>x \<in> set (accepted_by uid ?acc). x \<le> t"
    unfolding new using le assms(2) by auto
  show "\<exists>c \<le> t - rl_window ?rl. window_of ?rl uid = filter (\<lambda>x. c \<le> x) (accepted_by uid ?acc)"
  proof (cases "uid = u")
    case True
    have "window_of ?rl uid = filter (\<lambda>x. t - ?w \<le> x) (accepted_by uid ?acc)"
      unfolding new using True pruned assms(3,4)
      by (auto simp: allow_def window_of_def Let_def)
    then show ?thesis by (intro exI [of _ "t - ?w"]) simp
  next
    case False
    then have "window_of ?rl uid = window_of rl uid"
      by (auto simp: allow_def window_of_def Let_def)
    with False c assms(2) show ?thesis
      unfolding new by (intro exI [of _ c]) auto
  qed
  fix a
  show "int (in_window a (rl_window ?rl) (accepted_by uid ?acc)) \<le> rl_rpm ?rl"
  proof (cases "snd (allow t u rl) \<and> uid = u \<and> a \<le> t \<and> t \<le> a + ?w")
    case True
    then have "int (length (filter (\<lambda>x. t - ?w \<le> x) ?old)) < rl_rpm rl"
      using pruned assms(3) by (auto simp: allow_def Let_def split: if_splits)
    moreover have "in_window a ?w ?old \<le> length (filter (\<lambda>x. t - ?w \<le> x) ?old)"
    proof -
      have "filter (\<lambda>x. a \<le> x \<and> x \<le> a + ?w) ?old
        = filter (\<lambda>x. a \<le> x \<and> x \<le> a + ?w) (filter (\<lambda>x. t - ?w \<le> x) ?old)"
        using True by (auto intro!: filter_cong)
      then show ?thesis unfolding in_window_def by (metis length_filter_le)
    qed
    ultimately show ?thesis unfolding new using True by (simp add: in_window_def)
  next
    case False
    then have "in_window a ?w (accepted_by uid ?acc) = in_window a ?w ?old"
      unfolding new by (auto simp: in_window_def)
    with b show ?thesis by simp
  qed
qed

lemma run_limiter_ok:
  "limiter_ok now rl acc \<Longrightarrow> sorted (now # map event_time es) \<Longrightarrow> 0 < rl_rpm rl \<Longrightarrow> 0 \<le> rl_window rl \<Longrightarrow>
    \<exists>now'. limiter_ok now' (fst (run_limiter es rl acc)) (snd (run_limiter es rl acc)) \<and>
      rl_rpm (fst (run_limiter es rl acc)) = rl_rpm rl \<and>
      rl_window (fst (run_limiter es rl acc)) = rl_window rl"
proof (induction es rl acc arbitrary: now rule: run_limiter.induct)
  case (2 t es rl acc)
  have "limiter_ok t (cleanup_tick t rl) acc"
    using 2 by (intro limiter_ok_cleanup [of now]) auto
  from "2.IH" [OF this] 2 show ?case by simp
next
  case (3 t u es rl acc)
  have "limiter_ok t (fst (allow t u rl)) (if snd (allow t u rl) then acc @ [(t, u)] else acc)"
    using 3 by (intro limiter_ok_allow [of now]) auto
  from "3.IH" [OF refl prod.collapse this] 3 show ?case
    by (simp add: case_prod_beta Let_def)
qed auto

text \<open>C36: In every run of requests and cleanup ticks with non-decreasing times, no user has more
  than \<^verbatim>\<open>rpm\<close> accepted requests in any closed interval of one minute.\<close>

theorem rate_limit_bound:
  assumes "0 < rpm" and "sorted (map event_time es)"
  shows "int (in_window a minute (accepted_by uid (snd (run_limiter es (new_rate_limiter rpm) [])))) \<le> rpm"
proof (cases es)
  case Nil
  with assms show ?thesis by (simp add: accepted_by_def in_window_def)
next
  case (Cons e es')
  let ?rl = "new_rate_limiter rpm"
  have f: "rl_rpm ?rl = rpm" "rl_window ?rl = minute"
    using assms by (simp_all add: new_rate_limiter_def)
  have ok: "limiter_ok (event_time e) ?rl []"
    unfolding limiter_ok_def using assms(1)
    by (auto simp: accepted_by_def in_window_def window_of_def new_rate_limiter_def
        intro: exI [of _ "event_time e - minute"])
  have "sorted (event_time e # map event_time es)" using assms(2) Cons by simp
  from run_limiter_ok [OF ok this] f assms(1) show ?thesis
    by (auto simp: limiter_ok_def)
qed

theorem rate_limit_bound_witness:
  "int (in_window 0 minute (accepted_by ''u'' (snd (run_limiter
     [Request 1 ''u'', Request 2 ''u'', Cleanup 3, Request 4 ''u''] (new_rate_limiter 2) [])))) \<le> 2"
  by (rule rate_limit_bound) simp_all

end
