(* ===== verification/Go_Time.thy ===== *)
theory Go_Time
  imports Go_Strings
begin

text \<open>
  The parts of Go's \<^verbatim>\<open>time\<close> package the modelled code uses: wall-clock fields of an
  instant in a zone (a zone gives its offset from UTC in seconds at every instant; the zone
  database itself is outside the repository), the proleptic Gregorian calendar, truncation to the
  minute, and \<^verbatim>\<open>time.ParseDuration\<close> (fractions are taken exactly).
\<close>

section \<open>Calendar\<close>

type_synonym zone = "instant \<Rightarrow> int"

definition utc :: zone where "utc t = 0"

text \<open>Years count from the first of March; 400-year, 100-year and 4-year cycles are cut off in
  turn, as \<^verbatim>\<open>time.absDate\<close> does.\<close>

definition year_day :: "int \<Rightarrow> int \<times> int" where
  "year_day z' =
     (let era = z' div 146097; doe = z' mod 146097;
          c = min 3 (doe div 36524); doc = doe - c * 36524;
          q = doc div 1461; doq = doc mod 1461;
          n = min 3 (doq div 365)
      in (era * 400 + c * 100 + q * 4 + n, doq - n * 365))"

definition civil_from_days :: "int \<Rightarrow> int \<times> int \<times> int" where
  "civil_from_days z =
     (case year_day (z + 719468) of (y, doy) \<Rightarrow>
        let mp = (5 * doy + 2) div 153;
            d = doy - (153 * mp + 2) div 5 + 1;
            m = (if mp < 10 then mp + 3 else mp - 9)
        in (y + (if m \<le> 2 then 1 else 0), m, d))"

definition days_from_civil :: "int \<Rightarrow> int \<Rightarrow> int \<Rightarrow> int" where
  "days_from_civil y m d =
     (let y' = (if m \<le> 2 then y - 1 else y); era = y' div 400; yoe = y' mod 400;
          mp = (if m > 2 then m - 3 else m + 9);
          doy = (153 * mp + 2) div 5 + d - 1;
          doe = yoe * 365 + yoe div 4 - yoe div 100 + doy
      in era * 146097 + doe - 719468)"

text \<open>\<^verbatim>\<open>time.Date(y, m, d, 0, 0, 0, 0, time.UTC)\<close>: months are normalized first, then
  days count on from the first of the month.\<close>

definition date_utc :: "int \<Rightarrow> int \<Rightarrow> int \<Rightarrow> instant" where
  "date_utc y m d =
     (days_from_civil (y + (m - 1) div 12) ((m - 1) mod 12 + 1) 1 + (d - 1)) * (24 * hour)"

text \<open>Months are numbered through: month \<open>k\<close> is month \<open>k mod 12 + 1\<close> of year
  \<open>k div 12\<close>, and it starts on day \<open>month_start k\<close>.\<close>

definition month_start :: "int \<Rightarrow> int" where
  "month_start k = days_from_civil (k div 12) (k mod 12 + 1) 1"

lemma date_utc_month: "date_utc y m d = (month_start (12 * y + m - 1) + (d - 1)) * (24 * hour)"
proof -
  have "12 * y + m - 1 = (m - 1) + y * 12" by simp
  then have "(12 * y + m - 1) div 12 = y + (m - 1) div 12" "(12 * y + m - 1) mod 12 = (m - 1) mod 12"
    by (simp_all only: div_mult_self1 mod_mult_self1)
  then show ?thesis by (simp add: date_utc_def month_start_def)
qed

text \<open>Day \<open>march_start y\<close>, counted as in \<open>year_day\<close>, is the first of March of year \<open>y\<close>.\<close>

definition march_start :: "int \<Rightarrow> int" where
  "march_start y = (y div 400) * 146097 + (y mod 400) * 365 + (y mod 400) div 4 - (y mod 400) div 100"

lemma cycle_div_mod:
  fixes r p e :: int
  assumes "0 \<le> r" "r < p"
  shows "(e * p + r) div p = e" "(e * p + r) mod p = r"
  using assms by (simp_all add: div_pos_pos_trivial mod_pos_pos_trivial)

lemma cut_cycle:
  assumes "0 < p" "0 \<le> (x :: int)" "x < (b + 1) * p + e" "0 \<le> e" "e \<le> p" "0 \<le> b"
  shows "0 \<le> min b (x div p)" "min b (x div p) \<le> b" "0 \<le> x - min b (x div p) * p"
    "x - min b (x div p) * p < p + e" "min b (x div p) < b \<Longrightarrow> x - min b (x div p) * p < p"
proof -
  have x: "x = x div p * p + x mod p" "0 \<le> x mod p" "x mod p < p" "0 \<le> x div p"
    using assms(1,2) by (simp_all add: pos_imp_zdiv_nonneg_iff)
  show "0 \<le> min b (x div p)" "min b (x div p) \<le> b" using x(4) assms(6) by simp_all
  show "0 \<le> x - min b (x div p) * p"
  proof (cases "b \<le> x div p")
    case True
    then have "b * p \<le> x div p * p" using assms(1) by (simp add: mult_right_mono)
    with x(1,2) True show ?thesis by linarith
  next
    case False
    then have m: "min b (x div p) = x div p" by simp
    show ?thesis unfolding m using x(1,2) by linarith
  qed
  show "x - min b (x div p) * p < p + e"
  proof (cases "b \<le> x div p")
    case True
    then have m: "min b (x div p) = b" by simp
    show ?thesis unfolding m using assms(3) by (simp add: algebra_simps)
  next
    case False
    then have m: "min b (x div p) = x div p" by simp
    show ?thesis unfolding m using x assms(4) by linarith
  qed
  show "x - min b (x div p) * p < p" if "min b (x div p) < b"
  proof -
    from that have m: "min b (x div p) = x div p" by (simp add: min_def split: if_splits)
    show ?thesis unfolding m using x by linarith
  qed
qed

lemma march_start_eq:
  assumes "0 \<le> r" "r < 400"
  shows "march_start (e * 400 + r) = e * 146097 + r * 365 + r div 4 - r div 100"
  unfolding march_start_def cycle_div_mod(1) [OF assms] cycle_div_mod(2) [OF assms] by (rule refl)

lemma leap_arith:
  "d < 365 + (a' - a) - (b' - b) \<Longrightarrow> m' = e + (s + 1) * 365 + a' - b' \<Longrightarrow> m = e + s * 365 + a - b \<Longrightarrow>
    m + d < (m' :: int)"
  by simp

lemma year_day_bounds:
  assumes "year_day z = (y, doy)"
  shows "z = march_start y + doy" "0 \<le> doy" "march_start y + doy < march_start (y + 1)" "doy \<le> 365"
proof -
  define era where "era = z div 146097"
  define doe where "doe = z mod 146097"
  define c where "c = min 3 (doe div 36524)"
  define doc where "doc = doe - c * 36524"
  define q where "q = doc div 1461"
  define doq where "doq = doc mod 1461"
  define n where "n = min 3 (doq div 365)"
  have z: "z = era * 146097 + doe" "0 \<le> doe" "doe < 146097" by (simp_all add: era_def doe_def)
  have c: "0 \<le> c" "c \<le> 3" "0 \<le> doc" "doc < 36525" "c < 3 \<Longrightarrow> doc < 36524"
    using cut_cycle [of 36524 doe 3 1] z(2,3) unfolding doc_def c_def by auto
  have q: "doc = q * 1461 + doq" "0 \<le> doq" "doq < 1461" "0 \<le> q" "q \<le> 24"
    using c(3,4) div_mult_mod_eq [of doc 1461] by (simp_all add: q_def doq_def)
  have n: "0 \<le> n" "n \<le> 3" "0 \<le> doq - n * 365" "n < 3 \<Longrightarrow> doq - n * 365 < 365" "doq - n * 365 \<le> 365"
    using cut_cycle [of 365 doq 3 1] q(2,3) unfolding n_def by auto
  have "year_day z = (era * 400 + c * 100 + q * 4 + n, doq - n * 365)"
    unfolding year_day_def Let_def era_def doe_def c_def doc_def q_def doq_def n_def by (rule refl)
  with assms have y: "y = era * 400 + c * 100 + q * 4 + n" and doy: "doy = doq - n * 365"
    by (simp_all only: prod.inject)
  have r: "0 \<le> c * 100 + q * 4 + n" "c * 100 + q * 4 + n < 400" using c q n by linarith+
  have y': "y = era * 400 + (c * 100 + q * 4 + n)" using y by simp
  have "c * 100 + q * 4 + n = (25 * c + q) * 4 + n" "c * 100 + q * 4 + n = c * 100 + (q * 4 + n)"
    "n < 4" "0 \<le> q * 4 + n" "q * 4 + n < 100" using n(1,2) q(4,5) by simp_all
  then have dv: "(c * 100 + q * 4 + n) div 4 = 25 * c + q" "(c * 100 + q * 4 + n) div 100 = c"
    using cycle_div_mod(1) [OF n(1), of 4] cycle_div_mod(1) [of "q * 4 + n" 100 c] by (simp_all only:)
  show "z = march_start y + doy"
    unfolding y' march_start_eq [OF r] dv using z(1) q(1) doy by (simp add: doc_def)
  show "0 \<le> doy" "doy \<le> 365" using n(3,5) doy by simp_all
  show "march_start y + doy < march_start (y + 1)"
  proof (cases "c * 100 + q * 4 + n = 399")
    case True
    then have y1: "y + 1 = (era + 1) * 400 + 0" using y by simp
    have "march_start (y + 1) = (era + 1) * 146097"
      unfolding y1 march_start_eq [OF order_refl zero_less_numeral] by simp
    with \<open>z = march_start y + doy\<close> z(1,3) show ?thesis by simp
  next
    case False
    then have y1: "y + 1 = era * 400 + (c * 100 + q * 4 + n + 1)" "c * 100 + q * 4 + n + 1 < 400"
      using y r by simp_all
    have "doy < 365 + ((c * 100 + q * 4 + n + 1) div 4 - (25 * c + q)) - ((c * 100 + q * 4 + n + 1) div 100 - c)"
    proof (cases "n < 3")
      case True
      then show ?thesis
        using cycle_div_mod(1) [of "n + 1" 4 "25 * c + q"] cycle_div_mod(1) [of "q * 4 + n + 1" 100 c]
          n q(4,5) doy by (simp add: algebra_simps)
    next
      case n3: False
      then have "n = 3" using n(2) by simp
      then have d4: "(c * 100 + q * 4 + n + 1) div 4 = 25 * c + q + 1"
        using cycle_div_mod(1) [of 0 4 "25 * c + q + 1"] by (simp add: algebra_simps)
      show ?thesis
      proof (cases "q < 24")
        case True
        with d4 \<open>n = 3\<close> show ?thesis
          using cycle_div_mod(1) [of "q * 4 + n + 1" 100 c] q(4) n(5) doy by simp
      next
        case False
        with q(5) have "q = 24" by simp
        with \<open>n = 3\<close> \<open>c * 100 + q * 4 + n \<noteq> 399\<close> c(2) have "c < 3" by simp
        then have "doy < 365" using c(5) q(1) doy \<open>q = 24\<close> \<open>n = 3\<close> by simp
        moreover have "(c * 100 + q * 4 + n + 1) div 100 = c + 1"
          using cycle_div_mod(1) [of 0 100 "c + 1"] \<open>q = 24\<close> \<open>n = 3\<close> by (simp add: algebra_simps)
        ultimately show ?thesis using d4 by simp
      qed
    qed
    moreover have "march_start (y + 1) = era * 146097 + (c * 100 + q * 4 + n + 1) * 365
        + (c * 100 + q * 4 + n + 1) div 4 - (c * 100 + q * 4 + n + 1) div 100"
      unfolding y1(1) by (rule march_start_eq) (use r y1(2) in simp_all)
    moreover have "march_start y = era * 146097 + (c * 100 + q * 4 + n) * 365 + (25 * c + q) - c"
      unfolding y' march_start_eq [OF r] dv ..
    ultimately show ?thesis by (rule leap_arith)
  qed
qed

lemma succ_div:
  fixes m r :: int
  assumes "0 < m"
  shows "(r + 1) div m = r div m + (if m dvd r + 1 then 1 else 0)"
proof -
  obtain q s where r: "r = q * m + s" "0 \<le> s" "s < m"
    using that [of "r div m" "r mod m"] assms by simp
  note d = cycle_div_mod [OF r(2,3), of q]
  show ?thesis
  proof (cases "s + 1 < m")
    case True
    with r(2) have "(q * m + (s + 1)) div m = q" "\<not> m dvd q * m + (s + 1)"
      using cycle_div_mod [of "s + 1" m q] by (simp_all add: dvd_eq_mod_eq_0)
    then show ?thesis unfolding r(1) d by (simp only: add.assoc) simp
  next
    case False
    with r(3) have e: "q * m + s + 1 = (q + 1) * m" by (simp add: algebra_simps)
    show ?thesis unfolding r(1) d e using assms by simp
  qed
qed

lemma gap_arith: "b' - b \<le> a' - (a :: int) \<Longrightarrow> e + r * 365 + a - b + 365 \<le> e + (r + 1) * 365 + a' - b'"
  by simp

lemma march_start_gap: "march_start y + 365 \<le> march_start (y + 1)"
proof -
  obtain e r where y: "y = e * 400 + r" and r: "0 \<le> r" "r < 400"
    using that [of "y div 400" "y mod 400"] by simp
  show ?thesis
  proof (cases "r = 399")
    case True
    then have y1: "y + 1 = (e + 1) * 400 + 0" using y by simp
    show ?thesis
      unfolding y1 march_start_eq [OF order_refl zero_less_numeral] unfolding y march_start_eq [OF r]
      using True by simp
  next
    case False
    then have y1: "y + 1 = e * 400 + (r + 1)" "0 \<le> r + 1" "r + 1 < 400" using y r by simp_all
    have "4 dvd r + 1" if "100 dvd r + 1" by (rule dvd_trans [OF _ that]) simp
    then have "(if 100 dvd r + 1 then 1 else 0) \<le> (if 4 dvd r + 1 then 1 else (0 :: int))" by simp
    then have "(r + 1) div 100 - r div 100 \<le> (r + 1) div 4 - r div 4"
      by (simp only: succ_div [of 100 r, OF zero_less_numeral] succ_div [of 4 r, OF zero_less_numeral])
    from gap_arith [OF this, of "e * 146097" r] show ?thesis
      unfolding y1(1) march_start_eq [OF y1(2,3)] unfolding y march_start_eq [OF r] .
  qed
qed

lemma month_start_march:
  assumes "0 \<le> mp" "mp < 12"
  shows "month_start (12 * y + mp + 2) = march_start y + (153 * mp + 2) div 5 - 719468"
proof (cases "mp < 10")
  case True
  then have "(12 * y + mp + 2) div 12 = y" "(12 * y + mp + 2) mod 12 = mp + 2"
    using cycle_div_mod [of "mp + 2" 12 y] assms by (simp_all add: algebra_simps)
  with assms True show ?thesis by (simp add: month_start_def days_from_civil_def march_start_def Let_def)
next
  case False
  then have "(12 * y + mp + 2) div 12 = y + 1" "(12 * y + mp + 2) mod 12 = mp - 10"
    using cycle_div_mod [of "mp - 10" 12 "y + 1"] assms by (simp_all add: algebra_simps)
  with assms False show ?thesis by (simp add: month_start_def days_from_civil_def march_start_def Let_def)
qed

lemma month_start_gap: "month_start k + 28 \<le> month_start (k + 1)"
proof -
  define y where "y = (k - 2) div 12"
  define mp where "mp = (k - 2) mod 12"
  have k: "k = 12 * y + mp + 2" "0 \<le> mp" "mp < 12" by (simp_all add: y_def mp_def)
  show ?thesis
  proof (cases "mp = 11")
    case True
    then have "k + 1 = 12 * (y + 1) + 0 + 2" using k by simp
    then have "month_start (k + 1) = march_start (y + 1) - 719468"
      using month_start_march [of 0 "y + 1"] by simp
    with True show ?thesis unfolding k(1) using month_start_march [of mp y] march_start_gap [of y] by simp
  next
    case False
    then have "k + 1 = 12 * y + (mp + 1) + 2" using k by simp
    then have "month_start (k + 1) = march_start y + (153 * (mp + 1) + 2) div 5 - 719468"
      using month_start_march [of "mp + 1" y] k False by simp
    moreover have "(153 * mp + 2) div 5 + 28 \<le> (153 * (mp + 1) + 2) div 5" by presburger
    ultimately show ?thesis unfolding k(1) using month_start_march [OF k(2,3), of y] by simp
  qed
qed

lemma month_start_mono: "k < l \<Longrightarrow> month_start (k + 1) \<le> month_start l"
proof (induction "nat (l - k - 1)" arbitrary: l)
  case (Suc n)
  then have "month_start (k + 1) \<le> month_start (l - 1)" by (intro Suc.hyps) auto
  also have "\<dots> \<le> month_start l" using month_start_gap [of "l - 1"] by simp
  finally show ?case .
next
  case 0
  then have "l = k + 1" by simp
  then show ?case by simp
qed

lemma month_unique:
  assumes "month_start k \<le> z" "z < month_start (k + 1)" "month_start l \<le> z" "z < month_start (l + 1)"
  shows "k = l"
  using assms month_start_mono [of k l] month_start_mono [of l k] by (cases k l rule: linorder_cases) auto

text \<open>The date of day \<open>z\<close>: its month holds it, and the day of the month counts from the
  first.\<close>

lemma civil_month:
  assumes "civil_from_days z = (y, m, d)"
  shows "z = month_start (12 * y + m - 1) + (d - 1)" "1 \<le> d" "z < month_start (12 * y + m)"
    "1 \<le> m" "m \<le> 12"
proof -
  obtain yy doy where yd: "year_day (z + 719468) = (yy, doy)" by (cases "year_day (z + 719468)")
  note b = year_day_bounds [OF yd]
  define mp where "mp = (5 * doy + 2) div 153"
  have mp: "153 * mp \<le> 5 * doy + 2" "5 * doy + 2 < 153 * (mp + 1)"
  proof -
    define s where "s = (5 * doy + 2) mod 153"
    have "0 \<le> s" "s < 153" by (simp_all add: s_def)
    moreover have "5 * doy + 2 = mp * 153 + s"
      unfolding mp_def s_def by (rule div_mult_mod_eq [symmetric])
    ultimately show "153 * mp \<le> 5 * doy + 2" and "5 * doy + 2 < 153 * (mp + 1)"
      by (simp_all add: algebra_simps)
  qed
  then have mp12: "0 \<le> mp" "mp < 12" using b(2,4) by auto
  from assms yd have d: "d = doy - (153 * mp + 2) div 5 + 1" and m: "m = (if mp < 10 then mp + 3 else mp - 9)"
    and y: "y = yy + (if m \<le> 2 then 1 else 0)"
    by (auto simp: civil_from_days_def Let_def mp_def)
  have k: "12 * y + m - 1 = 12 * yy + mp + 2" using m y mp12 by auto
  show "z = month_start (12 * y + m - 1) + (d - 1)"
    unfolding k month_start_march [OF mp12] d using b(1) by simp
  have "(153 * mp + 2) div 5 \<le> doy" using mp(1) by linarith
  then show "1 \<le> d" by (simp add: d)
  show "1 \<le> m" "m \<le> 12" using m mp12 by auto
  show "z < month_start (12 * y + m)"
  proof (cases "mp = 11")
    case True
    with k have "12 * y + m = 12 * (yy + 1) + 0 + 2" by simp
    then have "month_start (12 * y + m) = march_start (yy + 1) - 719468"
      using month_start_march [of 0 "yy + 1"] by simp
    with b(1,3) show ?thesis by simp
  next
    case False
    with k have "12 * y + m = 12 * yy + (mp + 1) + 2" by simp
    then have "month_start (12 * y + m) = march_start yy + (153 * (mp + 1) + 2) div 5 - 719468"
      using month_start_march [of "mp + 1" yy] mp12 False by simp
    moreover have "doy < (153 * (mp + 1) + 2) div 5" using mp(2) by linarith
    ultimately show ?thesis using b(1) by simp
  qed
qed

lemma civil_of_day:
  assumes "1 \<le> d" "d \<le> 28"
  shows "civil_from_days (month_start k + (d - 1)) = (k div 12, k mod 12 + 1, d)"
proof -
  let ?z = "month_start k + (d - 1)"
  obtain y m d' where c: "civil_from_days ?z = (y, m, d')" by (cases "civil_from_days ?z")
  note b = civil_month [OF c]
  have "k = 12 * y + m - 1"
    using month_start_gap [of k] assms b by (intro month_unique [of _ ?z]) simp_all
  moreover have "(12 * y + m - 1) div 12 = y" "(12 * y + m - 1) mod 12 = m - 1"
    using cycle_div_mod [of "m - 1" 12 y] b(4,5) by (simp_all add: algebra_simps)
  ultimately show ?thesis using c b(1) by simp
qed

definition local_seconds :: "zone \<Rightarrow> instant \<Rightarrow> int" where
  "local_seconds z t = t div second + z t"

definition minute_of :: "zone \<Rightarrow> instant \<Rightarrow> int" where
  "minute_of z t = local_seconds z t div 60 mod 60"

definition hour_of :: "zone \<Rightarrow> instant \<Rightarrow> int" where
  "hour_of z t = local_seconds z t div 3600 mod 24"

definition days_of :: "zone \<Rightarrow> instant \<Rightarrow> int" where
  "days_of z t = local_seconds z t div 86400"

definition date_of :: "zone \<Rightarrow> instant \<Rightarrow> int \<times> int \<times> int" where
  "date_of z t = civil_from_days (days_of z t)"

definition weekday_of :: "zone \<Rightarrow> instant \<Rightarrow> int" where
  "weekday_of z t = (days_of z t + 4) mod 7"

definition truncate_minute :: "instant \<Rightarrow> instant" where
  "truncate_minute t = t - t mod minute"

lemma truncate_minute_bounds: "truncate_minute t \<le> t \<and> t < truncate_minute t + minute"
  by (simp add: truncate_minute_def)

section \<open>Durations\<close>

definition unit_value :: "string \<Rightarrow> nat option" where
  "unit_value u = map_of [(''ns'', 1), (''us'', 1000),
     ([CHR 0xC2, CHR 0xB5, CHR ''s''], 1000), ([CHR 0xCE, CHR 0xBC, CHR ''s''], 1000),
     (''ms'', 1000000), (''s'', 1000000000), (''m'', 60000000000), (''h'', 3600000000000)] u"

definition nat_of_digits :: "string \<Rightarrow> nat" where
  "nat_of_digits ds = foldl (\<lambda>v d. v * 10 + (byte d - 48)) 0 ds"

function duration_parts :: "string \<Rightarrow> nat \<Rightarrow> nat option" where
  "duration_parts s d = (if s = [] then Some d else
     (let whole = takeWhile is_digit s; r1 = dropWhile is_digit s;
          dot = (r1 \<noteq> [] \<and> hd r1 = CHR ''.'');
          r2 = (if dot then tl r1 else r1);
          frac = (if dot then takeWhile is_digit r2 else []);
          r3 = (if dot then dropWhile is_digit r2 else r2);
          u = takeWhile (\<lambda>c. c \<noteq> CHR ''.'' \<and> \<not> is_digit c) r3;
          rest = dropWhile (\<lambda>c. c \<noteq> CHR ''.'' \<and> \<not> is_digit c) r3
      in if (whole = [] \<and> frac = []) \<or> u = [] then None
         else (case unit_value u of
             None \<Rightarrow> None
           | Some n \<Rightarrow>
               (let v = nat_of_digits whole * n
                      + (if frac = [] then 0 else nat_of_digits frac * n div 10 ^ length frac)
                in if v > 2 ^ 63 \<or> d + v > 2 ^ 63 then None
                   else if length rest < length s then duration_parts rest (d + v) else None))))"
  by pat_completeness auto
termination by (relation "measure (length \<circ> fst)") auto

declare duration_parts.simps [simp del]

definition parse_duration :: "string \<Rightarrow> duration option" where
  "parse_duration s =
     (let neg = has_prefix s ''-'';
          r = (if neg \<or> has_prefix s ''+'' then tl s else s)
      in if r = ''0'' then Some 0
         else if r = [] then None
         else (case duration_parts r 0 of
             None \<Rightarrow> None
           | Some d \<Rightarrow> if neg then Some (- int d)
                      else if d > 2 ^ 63 - 1 then None else Some (int d)))"

end
