(* ===== verification/Bus.thy ===== *)
theory Bus
  imports Go_Strings "HOL-Library.Word"
begin

text \<open>
  The inbound message of \<^verbatim>\<open>internal/bus/bus.go\<close> with its session triple, the test for
  process-local channels, and the duplicate filter of the gateway,
  \<^verbatim>\<open>internal/gateway/dedup.go\<close>: the key of a message, the 32-bit text hash, the
  lookup-or-store step and the cleanup tick. The Redis bridge and the channel buffers are not
  modelled.
\<close>

section \<open>Messages\<close>

text \<open>A JSON value, as \<^verbatim>\<open>map[string]any\<close> holds it; a number is kept as its text.\<close>

datatype param =
    Param_Null | Param_Bool bool | Param_Num string | Param_Text string
  | Param_List "param list" | Param_Object "(string \<times> param) list"

record inbound_message =
  m_channel :: string
  m_account :: string
  m_chat :: string
  m_project :: string
  m_user :: string
  m_owner :: string
  m_agent :: string
  m_id :: string
  m_text :: string
  m_peer_kind :: string
  m_sender_name :: string
  m_avatar_url :: string
  m_mentions :: "string list"
  m_is_bot :: bool
  m_photo_url :: string
  m_photo_urls :: "string list"
  m_reply_to :: string
  m_params :: "(string \<times> param) list"
  m_source :: string
  m_shared_identity :: bool

definition empty_message :: inbound_message where
  "empty_message = \<lparr>m_channel = [], m_account = [], m_chat = [], m_project = [], m_user = [],
     m_owner = [], m_agent = [], m_id = [], m_text = [], m_peer_kind = [], m_sender_name = [],
     m_avatar_url = [], m_mentions = [], m_is_bot = False, m_photo_url = [], m_photo_urls = [],
     m_reply_to = [], m_params = [], m_source = [], m_shared_identity = False\<rparr>"

definition session_triple :: "inbound_message \<Rightarrow> string \<times> string \<times> string" where
  "session_triple m = (if m_shared_identity m then (''shared'', [], m_user m)
     else (m_channel m, m_account m, m_chat m))"

definition local_only :: "string \<Rightarrow> bool" where
  "local_only channel = (channel = [] \<or> channel = ''web'' \<or> channel = ''api'')"

section \<open>Duplicate filter\<close>

definition dedup_ttl :: duration where "dedup_ttl = 60 * second"

definition hash_string :: "string \<Rightarrow> 32 word" where
  "hash_string s = foldl (\<lambda>h r. h * 31 + of_nat r) 0 (map fst (runes s))"

fun hex_nat :: "nat \<Rightarrow> string" where
  "hex_nat n =
     (let d = n mod 16; c = (if d < 10 then char_of (48 + d) else char_of (87 + d))
      in if n < 16 then [c] else hex_nat (n div 16) @ [c])"

declare hex_nat.simps [simp del]

definition dedup_key :: "inbound_message \<Rightarrow> string option" where
  "dedup_key m =
     (if m_peer_kind m = ''group'' then
        Some (''group:'' @ m_channel m @ '':'' @ m_chat m @ '':'' @ m_user m @ '':''
          @ hex_nat (unat (hash_string (m_text m))))
      else if m_id m = [] then None
      else Some (''dm:'' @ m_channel m @ '':'' @ m_account m @ '':'' @ m_id m))"

type_synonym dedup_cache = "string \<rightharpoonup> instant"

definition is_duplicate :: "instant \<Rightarrow> inbound_message \<Rightarrow> dedup_cache \<Rightarrow> dedup_cache \<times> bool" where
  "is_duplicate now m cache = (case dedup_key m of
     None \<Rightarrow> (cache, False)
   | Some k \<Rightarrow> (case cache k of
       Some _ \<Rightarrow> (cache, True)
     | None \<Rightarrow> (cache(k \<mapsto> now), False)))"

definition cleanup_dedup :: "instant \<Rightarrow> dedup_cache \<Rightarrow> dedup_cache" where
  "cleanup_dedup now cache = (\<lambda>k. case cache k of
     None \<Rightarrow> None
   | Some seen \<Rightarrow> if now - seen > dedup_ttl then None else Some seen)"

datatype dedup_event = Arrive instant inbound_message | Tick instant

fun dedup_time :: "dedup_event \<Rightarrow> instant" where
  "dedup_time (Arrive t _) = t"
| "dedup_time (Tick t) = t"

fun dedup_step :: "dedup_event \<Rightarrow> dedup_cache \<Rightarrow> dedup_cache" where
  "dedup_step (Arrive t m) c = fst (is_duplicate t m c)"
| "dedup_step (Tick t) c = cleanup_dedup t c"

definition dedup_run :: "dedup_event list \<Rightarrow> dedup_cache \<Rightarrow> dedup_cache" where
  "dedup_run es c = fold dedup_step es c"

lemma dedup_step_keeps:
  "c k = Some t \<Longrightarrow> dedup_time e \<le> t + dedup_ttl \<Longrightarrow> dedup_step e c k = Some t"
  by (cases e) (auto simp: is_duplicate_def cleanup_dedup_def split: option.splits)

lemma dedup_run_keeps:
  "c k = Some t \<Longrightarrow> \<forall>e \<in> set es. dedup_time e \<le> t + dedup_ttl \<Longrightarrow> dedup_run es c k = Some t"
  by (induction es arbitrary: c) (auto simp: dedup_run_def dedup_step_keeps)

text \<open>A message that was let through at \<open>t\<close> suppresses every later message with its key up
  to \<open>t\<close> plus the time to live, whatever arrives and however often the cleaner ticks between.\<close>

theorem dedup_within_ttl:
  assumes "dedup_key m = Some k" and "dedup_key m' = Some k"
    and "\<not> snd (is_duplicate t m c)"
    and "\<forall>e \<in> set es. dedup_time e \<le> t + dedup_ttl"
  shows "snd (is_duplicate t' m' (dedup_run es (fst (is_duplicate t m c))))"
proof -
  have "fst (is_duplicate t m c) k = Some t"
    using assms(1,3) by (auto simp: is_duplicate_def split: option.splits)
  then have "dedup_run es (fst (is_duplicate t m c)) k = Some t"
    using assms(4) by (rule dedup_run_keeps)
  with assms(2) show ?thesis
    by (simp add: is_duplicate_def)
qed

theorem dedup_within_ttl_witness:
  "snd (is_duplicate 9 (empty_message\<lparr>m_id := ''7''\<rparr>)
     (dedup_run [Tick 5] (fst (is_duplicate 1 (empty_message\<lparr>m_id := ''7''\<rparr>) Map.empty))))"
  by (rule dedup_within_ttl [where k = "''dm:::7''"])
    (simp_all add: dedup_key_def empty_message_def is_duplicate_def dedup_ttl_def)

text \<open>The window is not the time to live: an entry is dropped only by a tick, so a message
  repeated later than the time to live is still suppressed as long as no tick fell after its
  expiry.\<close>

theorem dedup_window_exceeds_ttl:
  assumes "dedup_key m = Some k" and "\<not> snd (is_duplicate t m c)"
    and "\<forall>e \<in> set es. \<forall>n. e = Tick n \<longrightarrow> n \<le> t + dedup_ttl"
  shows "snd (is_duplicate t' m (dedup_run es (fst (is_duplicate t m c))))"
proof -
  have step: "d k = Some t \<Longrightarrow> \<forall>n. e = Tick n \<longrightarrow> n \<le> t + dedup_ttl \<Longrightarrow> dedup_step e d k = Some t" for d e
    by (cases e) (auto simp: is_duplicate_def cleanup_dedup_def split: option.splits)
  have run: "d k = Some t \<Longrightarrow> \<forall>e \<in> set es. \<forall>n. e = Tick n \<longrightarrow> n \<le> t + dedup_ttl \<Longrightarrow>
      dedup_run es d k = Some t" for d es
    using step by (induction es arbitrary: d) (auto simp: dedup_run_def)
  have "fst (is_duplicate t m c) k = Some t"
    using assms(1,2) by (auto simp: is_duplicate_def split: option.splits)
  then have "dedup_run es (fst (is_duplicate t m c)) k = Some t"
    using assms(3) by (rule run)
  with assms(1) show ?thesis
    by (simp add: is_duplicate_def)
qed

theorem dedup_window_exceeds_ttl_witness:
  "snd (is_duplicate (89 * second) (empty_message\<lparr>m_id := ''7''\<rparr>)
     (dedup_run [Tick (30 * second), Tick (60 * second)]
       (fst (is_duplicate 0 (empty_message\<lparr>m_id := ''7''\<rparr>) Map.empty))))"
  by (rule dedup_window_exceeds_ttl [where k = "''dm:::7''"])
    (simp_all add: dedup_key_def empty_message_def is_duplicate_def dedup_ttl_def)

end
