(* ===== verification/Cron.thy ===== *)
theory Cron
  imports Go_Time Bus
begin

text \<open>
  The cron scheduler: matching and next occurrence of a five-field expression
  (\<^verbatim>\<open>internal/cron/scheduler.go\<close>), one pass of \<^verbatim>\<open>processDueJobs\<close> over the
  scheduler's store interface, and that interface on the \<^verbatim>\<open>cron_jobs\<close> table
  (\<^verbatim>\<open>internal/store/database.go\<close> through \<^verbatim>\<open>internal/gateway/cron_adapter.go\<close>).
  The interface is the record \<open>cron_ops\<close>; the locale \<open>cron_store\<close> states what the pass
  relies on and is interpreted on the table.
\<close>

section \<open>Expressions\<close>

definition field_match :: "string \<Rightarrow> int \<Rightarrow> bool" where
  "field_match field v =
     (if field = ''*'' then True
      else if has_prefix field ''*/'' then
        (case atoi (drop 2 field) of None \<Rightarrow> False | Some n \<Rightarrow> if n \<le> 0 then False else v mod n = 0)
      else (case atoi field of None \<Rightarrow> False | Some n \<Rightarrow> n = v))"

definition cron_match :: "string list \<Rightarrow> zone \<Rightarrow> instant \<Rightarrow> bool" where
  "cron_match fs z t =
     (case date_of z t of (_, month, day) \<Rightarrow>
        list_all2 field_match fs [minute_of z t, hour_of z t, day, month, weekday_of z t])"

function next_scan :: "string list \<Rightarrow> zone \<Rightarrow> instant \<Rightarrow> instant \<Rightarrow> instant option" where
  "next_scan fs z limit t =
     (if t < limit then if cron_match fs z t then Some t else next_scan fs z limit (t + minute)
      else None)"
  by pat_completeness auto
termination by (relation "measure (\<lambda>(fs, z, limit, t). nat (limit - t))") auto

declare next_scan.simps [simp del]

definition first_minute :: "instant \<Rightarrow> instant" where
  "first_minute after = truncate_minute after + minute"

definition next_occurrence_in :: "string \<Rightarrow> instant \<Rightarrow> zone \<Rightarrow> instant" where
  "next_occurrence_in schedule after z =
     (let fs = split_fields schedule
      in if length fs \<noteq> 5 then after + hour
         else (case next_scan fs z (after + 48 * hour) (first_minute after) of
             Some t \<Rightarrow> t | None \<Rightarrow> after + hour))"

lemma next_scan_Some:
  "next_scan fs z limit t = Some r \<Longrightarrow>
    \<exists>k. r = t + int k * minute \<and> r < limit \<and> cron_match fs z r \<and>
      (\<forall>j < k. \<not> cron_match fs z (t + int j * minute))"
proof (induction fs z limit t rule: next_scan.induct)
  case (1 fs z limit t)
  from "1.prems" have lt: "t < limit"
    by (subst (asm) next_scan.simps) (simp split: if_splits)
  show ?case
  proof (cases "cron_match fs z t")
    case True
    with "1.prems" lt show ?thesis
      by (subst (asm) next_scan.simps) (auto intro: exI [of _ 0])
  next
    case False
    with "1.prems" lt have "next_scan fs z limit (t + minute) = Some r"
      by (subst (asm) next_scan.simps) simp
    from "1.IH" [OF lt False this] obtain k where k: "r = t + minute + int k * minute" "r < limit"
      "cron_match fs z r" "\<forall>j < k. \<not> cron_match fs z (t + minute + int j * minute)" by blast
    have "\<not> cron_match fs z (t + int j * minute)" if "j < Suc k" for j
      using k(4) False that by (cases j) (auto simp: algebra_simps)
    with k show ?thesis by (intro exI [of _ "Suc k"]) (auto simp: algebra_simps)
  qed
qed

lemma next_scan_None:
  "next_scan fs z limit t = None \<Longrightarrow> t + int k * minute < limit \<Longrightarrow> \<not> cron_match fs z (t + int k * minute)"
proof (induction fs z limit t arbitrary: k rule: next_scan.induct)
  case (1 fs z limit t)
  have lt: "t < limit" using "1.prems"(2) by (smt (verit) of_nat_0_le_iff mult_nonneg_nonneg)
  have n: "\<not> cron_match fs z t" "next_scan fs z limit (t + minute) = None"
    using "1.prems"(1) lt by (subst (asm) next_scan.simps, simp split: if_splits)+
  show ?case
  proof (cases k)
    case 0
    with n show ?thesis by simp
  next
    case (Suc j)
    with "1.IH" [OF lt n(1) n(2), of j] "1.prems"(2) show ?thesis by (simp add: algebra_simps)
  qed
qed

text \<open>C27: The next occurrence of a five-field expression is the earliest whole minute after the
  given instant and less than 48 hours ahead at which the expression matches in the job's zone; when
  there is none it is one hour later, whether or not that minute matches.\<close>

theorem next_occurrence_least:
  assumes "length (split_fields schedule) = 5"
  shows "let r = next_occurrence_in schedule after z in
    ((\<exists>k. r = first_minute after + int k * minute \<and> r < after + 48 * hour \<and>
        cron_match (split_fields schedule) z r \<and>
        (\<forall>j < k. \<not> cron_match (split_fields schedule) z (first_minute after + int j * minute))) \<or>
     (r = after + hour \<and>
       (\<forall>k. first_minute after + int k * minute < after + 48 * hour \<longrightarrow>
         \<not> cron_match (split_fields schedule) z (first_minute after + int k * minute))))"
proof (cases "next_scan (split_fields schedule) z (after + 48 * hour) (first_minute after)")
  case None
  then have eq: "next_occurrence_in schedule after z = after + hour"
    using assms unfolding next_occurrence_in_def Let_def by (simp only: option.case if_cancel)
  show ?thesis unfolding Let_def eq using next_scan_None [OF None] by (intro disjI2 conjI refl) simp
next
  case (Some t)
  then have eq: "next_occurrence_in schedule after z = t"
    using assms by (simp add: next_occurrence_in_def)
  show ?thesis unfolding Let_def eq by (rule disjI1) (rule next_scan_Some [OF Some])
qed

lemma fields_demo: "split_fields ''0 9 * * 1-5'' = [''0'', ''9'', ''*'', ''*'', ''1-5'']"
  by (simp add: split_fields_def is_space_def in_range_def)

lemma unreadable_field:
  assumes "f \<in> set fs" "f \<noteq> ''*''" "\<not> has_prefix f ''*/''" "atoi f = None"
  shows "\<not> cron_match fs z t"
proof
  assume "cron_match fs z t"
  then obtain vs where "list_all2 field_match fs vs"
    by (auto simp: cron_match_def split: prod.splits)
  with assms(1) obtain v where "field_match f v"
    by (auto simp: list_all2_conv_all_nth in_set_conv_nth)
  with assms(2-4) show False by (simp add: field_match_def)
qed

section \<open>The scheduler and its store\<close>

record store_job =
  sj_id :: string
  sj_agent :: string
  sj_owner :: string
  sj_name :: string
  sj_type :: string
  sj_schedule :: string
  sj_message :: string
  sj_channel :: string
  sj_chat :: string
  sj_account :: string
  sj_timezone :: string

record 's cron_ops =
  op_due :: "'s \<Rightarrow> instant \<Rightarrow> string + store_job list"
  op_lock :: "'s \<Rightarrow> instant \<Rightarrow> string \<Rightarrow> string \<Rightarrow> 's \<times> (string + bool)"
  op_update :: "'s \<Rightarrow> string \<Rightarrow> instant \<Rightarrow> instant \<Rightarrow> 's \<times> string option"
  op_fail :: "'s \<Rightarrow> string \<Rightarrow> 's \<times> (string + nat)"
  op_delete :: "'s \<Rightarrow> string \<Rightarrow> 's \<times> string option"
  op_next :: "'s \<Rightarrow> string + instant option"

record cron_env =
  ce_channels :: "(string \<Rightarrow> string \<Rightarrow> bool) option"
  ce_instance :: string
  ce_zone :: "string \<Rightarrow> zone option"
  ce_local :: zone

definition location_of :: "cron_env \<Rightarrow> string \<Rightarrow> zone" where
  "location_of env name = (if name = [] then ce_local env
     else (case ce_zone env name of None \<Rightarrow> ce_local env | Some z \<Rightarrow> z))"

definition cron_max_failures :: nat where "cron_max_failures = 3"

definition far_future :: "instant \<Rightarrow> instant" where
  "far_future now = now + 100 * 365 * 24 * hour"

definition cron_message :: "store_job \<Rightarrow> inbound_message" where
  "cron_message j = empty_message\<lparr>m_channel := sj_channel j, m_account := sj_account j,
     m_chat := sj_chat j, m_user := ''cron'', m_owner := sj_owner j, m_agent := sj_agent j,
     m_text := (if sj_message j = []
        then ''[Cron Job: '' @ sj_name j @ ''] This is a scheduled task trigger.''
        else sj_message j),
     m_peer_kind := ''dm'', m_source := ''cron''\<rparr>"

definition channel_missing :: "cron_env \<Rightarrow> store_job \<Rightarrow> bool" where
  "channel_missing env j = (case ce_channels env of
     None \<Rightarrow> False
   | Some has \<Rightarrow> sj_channel j \<noteq> [] \<and> sj_channel j \<noteq> ''web'' \<and> sj_channel j \<noteq> ''api''
       \<and> \<not> has (sj_channel j) (sj_account j))"

definition job_failed :: "'s cron_ops \<Rightarrow> store_job \<Rightarrow> 's \<Rightarrow> 's" where
  "job_failed ops j s = (case op_fail ops s (sj_id j) of
     (s1, Inl _) \<Rightarrow> s1
   | (s1, Inr count) \<Rightarrow>
       if count \<ge> cron_max_failures then fst (op_delete ops s1 (sj_id j)) else s1)"

definition reschedule :: "'s cron_ops \<Rightarrow> cron_env \<Rightarrow> instant \<Rightarrow> store_job \<Rightarrow> 's \<Rightarrow> 's" where
  "reschedule ops env now j s =
     (if sj_type j = ''once'' then
        (case op_delete ops s (sj_id j) of
           (s1, Some _) \<Rightarrow> fst (op_update ops s1 (sj_id j) now (far_future now))
         | (s1, None) \<Rightarrow> s1)
      else if sj_type j = ''interval'' then
        (case parse_duration (trim_prefix (sj_schedule j) ''every '') of
           None \<Rightarrow> fst (op_update ops s (sj_id j) now (far_future now))
         | Some d \<Rightarrow> fst (op_update ops s (sj_id j) now (now + d)))
      else if sj_type j = ''cron'' then
        fst (op_update ops s (sj_id j) now
          (next_occurrence_in (sj_schedule j) now (location_of env (sj_timezone j))))
      else fst (op_update ops s (sj_id j) now (now + hour)))"

text \<open>One due job; \<open>clock\<close> is what the store reads as the current time when it locks.\<close>

definition process_job :: "'s cron_ops \<Rightarrow> cron_env \<Rightarrow> instant \<Rightarrow> instant \<Rightarrow> store_job
    \<Rightarrow> 's \<times> inbound_message list \<Rightarrow> 's \<times> inbound_message list" where
  "process_job ops env now clock j st =
     (case st of (s, out) \<Rightarrow>
        (case op_lock ops s clock (sj_id j) (ce_instance env) of
           (s1, Inl _) \<Rightarrow> (s1, out)
         | (s1, Inr False) \<Rightarrow> (s1, out)
         | (s1, Inr True) \<Rightarrow>
             if channel_missing env j then (job_failed ops j s1, out)
             else (reschedule ops env now j s1, out @ [cron_message j])))"

definition process_due_jobs :: "'s cron_ops \<Rightarrow> cron_env \<Rightarrow> instant \<Rightarrow> instant \<Rightarrow> 's
    \<Rightarrow> 's \<times> inbound_message list" where
  "process_due_jobs ops env now clock s =
     (case op_due ops s now of
        Inl _ \<Rightarrow> (s, [])
      | Inr jobs \<Rightarrow> fold (process_job ops env now clock) jobs (s, []))"

text \<open>How long \<^verbatim>\<open>pollStore\<close> sleeps before the next pass; zero means it loops at
  once.\<close>

definition poll_sleep :: "'s cron_ops \<Rightarrow> 's \<Rightarrow> instant \<Rightarrow> duration" where
  "poll_sleep ops s now = (case op_next ops s of
     Inl _ \<Rightarrow> 5 * minute
   | Inr None \<Rightarrow> 5 * minute
   | Inr (Some t) \<Rightarrow> if t - now \<le> 0 then 0 else t - now)"

text \<open>The contract: on the states \<open>ok\<close>, which every operation keeps, a lock that was
  granted is not granted again for five minutes.\<close>

locale cron_store =
  fixes ops :: "'s cron_ops" and ok :: "'s \<Rightarrow> bool"
  assumes ok_lock: "ok s \<Longrightarrow> ok (fst (op_lock ops s t i a))"
    and ok_update: "ok s \<Longrightarrow> ok (fst (op_update ops s i t u))"
    and ok_fail: "ok s \<Longrightarrow> ok (fst (op_fail ops s i))"
    and ok_delete: "ok s \<Longrightarrow> ok (fst (op_delete ops s i))"
    and lock_exclusive: "ok s \<Longrightarrow> op_lock ops s t i a = (s1, Inr True) \<Longrightarrow> t' \<le> t + 5 * minute \<Longrightarrow>
      fst (op_lock ops s1 t' i b) = s1 \<and> snd (op_lock ops s1 t' i b) \<noteq> Inr True"
begin

lemma locked_job_skipped:
  assumes "ok s" "op_lock ops s t (sj_id j) a = (s1, Inr True)" "t' \<le> t + 5 * minute"
  shows "process_job ops env now t' j (s1, out) = (s1, out)"
  using lock_exclusive [OF assms, of "ce_instance env"]
  by (cases "op_lock ops s1 t' (sj_id j) (ce_instance env)")
    (auto simp: process_job_def split: sum.splits bool.splits)

lemma ok_job_failed: "ok s \<Longrightarrow> ok (job_failed ops j s)"
  using ok_fail [of s "sj_id j"] ok_delete [of "fst (op_fail ops s (sj_id j))" "sj_id j"]
  by (auto simp: job_failed_def split: prod.splits sum.splits)

lemma ok_reschedule: "ok s \<Longrightarrow> ok (reschedule ops env now j s)"
  using ok_delete [of s "sj_id j"] ok_update
  by (auto simp: reschedule_def split: prod.splits option.splits)

lemma ok_process_job: "ok (fst st) \<Longrightarrow> ok (fst (process_job ops env now clock j st))"
  using ok_lock [of "fst st" clock "sj_id j" "ce_instance env"]
  by (cases st) (auto simp: process_job_def ok_job_failed ok_reschedule split: prod.splits sum.splits bool.splits)

lemma ok_fold: "ok (fst st) \<Longrightarrow> ok (fst (fold (process_job ops env now clock) js st))"
  by (induction js arbitrary: st) (simp_all add: ok_process_job)

lemma ok_process_due_jobs: "ok s \<Longrightarrow> ok (fst (process_due_jobs ops env now clock s))"
  using ok_fold [of "(s, [])"] by (auto simp: process_due_jobs_def split: sum.splits)

end

section \<open>The table\<close>

record cron_row =
  cj_id :: string
  cj_user :: string
  cj_agent :: string
  cj_name :: string
  cj_type :: string
  cj_schedule :: string
  cj_message :: string
  cj_channel :: string
  cj_chat :: string
  cj_account :: string
  cj_timezone :: string
  cj_enabled :: bool
  cj_last :: "instant option"
  cj_next :: "instant option"
  cj_failures :: nat
  cj_created :: instant
  cj_locked_by :: "string option"
  cj_locked_at :: "instant option"

record cron_db =
  cron_jobs :: "cron_row list"
  cron_agents :: "(string \<times> string) list"
  cron_fault :: "string option"

definition is_due :: "instant \<Rightarrow> cron_row \<Rightarrow> bool" where
  "is_due now r = (cj_enabled r \<and> (case cj_next r of None \<Rightarrow> False | Some t \<Rightarrow> t \<le> now))"

definition job_of_row :: "cron_db \<Rightarrow> cron_row \<Rightarrow> store_job" where
  "job_of_row db r = \<lparr>sj_id = cj_id r, sj_agent = cj_agent r,
     sj_owner = (case map_of (cron_agents db) (cj_agent r) of None \<Rightarrow> [] | Some u \<Rightarrow> u),
     sj_name = cj_name r, sj_type = cj_type r, sj_schedule = cj_schedule r,
     sj_message = cj_message r, sj_channel = cj_channel r, sj_chat = cj_chat r,
     sj_account = cj_account r, sj_timezone = cj_timezone r\<rparr>"

definition get_due_cron_jobs :: "cron_db \<Rightarrow> instant \<Rightarrow> string + store_job list" where
  "get_due_cron_jobs db now = (case cron_fault db of
     Some m \<Rightarrow> Inl m
   | None \<Rightarrow> Inr (map (job_of_row db)
       (sort_key (\<lambda>r. (case cj_next r of None \<Rightarrow> 0 | Some t \<Rightarrow> t)) (filter (is_due now) (cron_jobs db)))))"

definition lockable :: "instant \<Rightarrow> string \<Rightarrow> cron_row \<Rightarrow> bool" where
  "lockable now i r = (cj_id r = i \<and> (cj_locked_by r = None \<or>
     (case cj_locked_at r of None \<Rightarrow> False | Some t \<Rightarrow> t < now - 5 * minute)))"

definition lock_cron_job :: "cron_db \<Rightarrow> instant \<Rightarrow> string \<Rightarrow> string \<Rightarrow> cron_db \<times> (string + bool)" where
  "lock_cron_job db now i inst = (case cron_fault db of
     Some m \<Rightarrow> (db, Inl m)
   | None \<Rightarrow> (db\<lparr>cron_jobs := tbl_update (lockable now i)
        (\<lambda>r. r\<lparr>cj_locked_by := Some inst, cj_locked_at := Some now\<rparr>) (cron_jobs db)\<rparr>,
      Inr (0 < tbl_affected (lockable now i) (cron_jobs db))))"

definition update_cron_job_run :: "cron_db \<Rightarrow> string \<Rightarrow> instant \<Rightarrow> instant \<Rightarrow> cron_db \<times> string option" where
  "update_cron_job_run db i fired nxt = (case cron_fault db of
     Some m \<Rightarrow> (db, Some m)
   | None \<Rightarrow> (db\<lparr>cron_jobs := tbl_update (\<lambda>r. cj_id r = i)
        (\<lambda>r. r\<lparr>cj_last := Some fired, cj_next := Some nxt, cj_failures := 0,
              cj_locked_by := None, cj_locked_at := None\<rparr>) (cron_jobs db)\<rparr>, None))"

definition increment_cron_job_failure :: "cron_db \<Rightarrow> string \<Rightarrow> cron_db \<times> (string + nat)" where
  "increment_cron_job_failure db i = (case cron_fault db of
     Some m \<Rightarrow> (db, Inl m)
   | None \<Rightarrow>
       (let rows = tbl_update (\<lambda>r. cj_id r = i)
              (\<lambda>r. r\<lparr>cj_failures := cj_failures r + 1, cj_locked_by := None, cj_locked_at := None\<rparr>)
              (cron_jobs db)
        in (db\<lparr>cron_jobs := rows\<rparr>,
            case tbl_first (\<lambda>r. cj_id r = i) rows of
              None \<Rightarrow> Inl ''not found'' | Some r \<Rightarrow> Inr (cj_failures r))))"

definition delete_cron_job :: "cron_db \<Rightarrow> string \<Rightarrow> cron_db \<times> string option" where
  "delete_cron_job db i = (case cron_fault db of
     Some m \<Rightarrow> (db, Some m)
   | None \<Rightarrow> (db\<lparr>cron_jobs := tbl_delete (\<lambda>r. cj_id r = i) (cron_jobs db)\<rparr>, None))"

definition get_next_due_time :: "cron_db \<Rightarrow> string + instant option" where
  "get_next_due_time db = (case cron_fault db of
     Some m \<Rightarrow> Inl m
   | None \<Rightarrow>
       (let ts = List.map_filter (\<lambda>r. if cj_enabled r then cj_next r else None) (cron_jobs db)
        in Inr (if ts = [] then None else Some (foldl min (hd ts) (tl ts)))))"

definition db_cron_ops :: "cron_db cron_ops" where
  "db_cron_ops = \<lparr>op_due = get_due_cron_jobs, op_lock = lock_cron_job,
     op_update = update_cron_job_run, op_fail = increment_cron_job_failure,
     op_delete = delete_cron_job, op_next = get_next_due_time\<rparr>"

definition cron_keys :: "cron_db \<Rightarrow> bool" where
  "cron_keys db = distinct (map cj_id (cron_jobs db))"

lemma db_cron_ops_simps [simp]:
  "op_due db_cron_ops = get_due_cron_jobs" "op_lock db_cron_ops = lock_cron_job"
  "op_update db_cron_ops = update_cron_job_run" "op_fail db_cron_ops = increment_cron_job_failure"
  "op_delete db_cron_ops = delete_cron_job" "op_next db_cron_ops = get_next_due_time"
  by (simp_all add: db_cron_ops_def)

lemma cron_keys_update:
  "cron_keys db \<Longrightarrow> (\<And>r. cj_id (f r) = cj_id r) \<Longrightarrow> cron_keys (db\<lparr>cron_jobs := tbl_update w f (cron_jobs db)\<rparr>)"
  by (simp add: cron_keys_def tbl_update_key)

lemma lock_again:
  assumes keys: "cron_keys db" and lock: "lock_cron_job db t i a = (db1, Inr True)"
    and t': "t' \<le> t + 5 * minute"
  shows "lock_cron_job db1 t' i b = (db1, Inr False)"
proof -
  let ?f = "\<lambda>r. r\<lparr>cj_locked_by := Some a, cj_locked_at := Some t\<rparr>"
  from lock have nf: "cron_fault db = None" and aff: "0 < tbl_affected (lockable t i) (cron_jobs db)"
    and db1: "db1 = db\<lparr>cron_jobs := tbl_update (lockable t i) ?f (cron_jobs db)\<rparr>"
    by (auto simp: lock_cron_job_def split: option.splits)
  from aff obtain r where r: "r \<in> set (cron_jobs db)" "lockable t i r"
    by (auto simp: tbl_affected_pos)
  have "\<not> lockable t' i x" if "x \<in> set (cron_jobs db1)" for x
  proof -
    from that obtain y where y: "y \<in> set (cron_jobs db)" "x = (if lockable t i y then ?f y else y)"
      by (auto simp: db1 tbl_update_def)
    show ?thesis
    proof (cases "y = r")
      case True
      with y r t' show ?thesis by (auto simp: lockable_def)
    next
      case False
      with keys r(1) y(1) have "cj_id y \<noteq> cj_id r"
        by (auto simp: cron_keys_def distinct_map inj_on_def)
      with y r(2) show ?thesis by (auto simp: lockable_def)
    qed
  qed
  then have "tbl_affected (lockable t' i) (cron_jobs db1) = 0"
    "tbl_update (lockable t' i) g (cron_jobs db1) = cron_jobs db1" for g
    by (simp_all add: tbl_affected_zero tbl_update_none)
  with nf db1 show ?thesis by (simp add: lock_cron_job_def)
qed

interpretation db_cron: cron_store db_cron_ops cron_keys
proof
  fix s t i a
  assume "cron_keys s"
  then show "cron_keys (fst (op_lock db_cron_ops s t i a))"
    by (simp add: lock_cron_job_def cron_keys_update split: option.splits)
next
  fix s i t u
  assume "cron_keys s"
  then show "cron_keys (fst (op_update db_cron_ops s i t u))"
    by (simp add: update_cron_job_run_def cron_keys_update split: option.splits)
next
  fix s i
  assume "cron_keys s"
  then show "cron_keys (fst (op_fail db_cron_ops s i))"
    by (simp add: increment_cron_job_failure_def cron_keys_update Let_def split: option.splits)
next
  fix s i
  assume "cron_keys s"
  then show "cron_keys (fst (op_delete db_cron_ops s i))"
    by (simp add: delete_cron_job_def cron_keys_def tbl_delete_distinct split: option.splits)
next
  fix s t i a s1 t' b
  assume "cron_keys s" "op_lock db_cron_ops s t i a = (s1, Inr True)" "t' \<le> t + 5 * minute"
  then show "fst (op_lock db_cron_ops s1 t' i b) = s1 \<and> snd (op_lock db_cron_ops s1 t' i b) \<noteq> Inr True"
    by (simp add: lock_again)
qed


section \<open>What a pass does to one row\<close>

lemma lock_grants:
  assumes "r \<in> set (cron_jobs db)" "lockable t (cj_id r) r" "cron_fault db = None"
  shows "lock_cron_job db t (cj_id r) inst = (db\<lparr>cron_jobs := tbl_update (lockable t (cj_id r))
    (\<lambda>r. r\<lparr>cj_locked_by := Some inst, cj_locked_at := Some t\<rparr>) (cron_jobs db)\<rparr>, Inr True)"
  using assms by (auto simp: lock_cron_job_def tbl_affected_pos)

lemma relock:
  assumes "\<And>r. f (r\<lparr>cj_locked_by := a, cj_locked_at := b\<rparr>) = f r"
  shows "tbl_update (\<lambda>r. cj_id r = i) f (tbl_update (lockable t i)
    (\<lambda>r. r\<lparr>cj_locked_by := a, cj_locked_at := b\<rparr>) rows) = tbl_update (\<lambda>r. cj_id r = i) f rows"
  using assms by (auto simp: tbl_update_def lockable_def)

definition failed_row :: "cron_row \<Rightarrow> cron_row" where
  "failed_row r = r\<lparr>cj_failures := cj_failures r + 1, cj_locked_by := None, cj_locked_at := None\<rparr>"

definition fired_row :: "instant \<Rightarrow> instant \<Rightarrow> cron_row \<Rightarrow> cron_row" where
  "fired_row fired nxt r = r\<lparr>cj_last := Some fired, cj_next := Some nxt, cj_failures := 0,
     cj_locked_by := None, cj_locked_at := None\<rparr>"

text \<open>The row a fired job of a repeating type leaves behind.\<close>

definition next_run :: "cron_env \<Rightarrow> instant \<Rightarrow> store_job \<Rightarrow> instant" where
  "next_run env now j =
     (if sj_type j = ''interval'' then
        (case parse_duration (trim_prefix (sj_schedule j) ''every '') of
           None \<Rightarrow> far_future now | Some d \<Rightarrow> now + d)
      else if sj_type j = ''cron'' then
        next_occurrence_in (sj_schedule j) now (location_of env (sj_timezone j))
      else now + hour)"

lemma reschedule_db:
  assumes "sj_type j \<noteq> ''once''" "cron_fault db = None"
  shows "reschedule db_cron_ops env now j db = db\<lparr>cron_jobs := tbl_update (\<lambda>x. cj_id x = sj_id j)
    (fired_row now (next_run env now j)) (cron_jobs db)\<rparr>"
  using assms unfolding reschedule_def next_run_def
  by (auto simp: update_cron_job_run_def fired_row_def [abs_def] split: option.splits)

lemma fire_pass:
  assumes "r \<in> set (cron_jobs db)" "lockable clock (cj_id r) r" "cron_fault db = None"
    and "sj_id j = cj_id r" "sj_type j \<noteq> ''once''" "\<not> channel_missing env j"
  shows "process_job db_cron_ops env now clock j (db, out) =
    (db\<lparr>cron_jobs := tbl_update (\<lambda>x. cj_id x = cj_id r) (fired_row now (next_run env now j)) (cron_jobs db)\<rparr>,
     out @ [cron_message j])"
  using assms by (simp add: process_job_def lock_grants reschedule_db relock fired_row_def [abs_def])

lemma row_fields [simp]:
  "cj_id (failed_row r) = cj_id r" "cj_id (fired_row a b r) = cj_id r"
  "cj_failures (failed_row r) = cj_failures r + 1" "is_due t (failed_row r) = is_due t r"
  "cj_next (fired_row a b r) = Some b" "sj_id (job_of_row db r) = cj_id r"
  by (simp_all add: failed_row_def fired_row_def is_due_def job_of_row_def)

lemma first_by_id:
  "cron_keys db \<Longrightarrow> r \<in> set (cron_jobs db) \<Longrightarrow> tbl_first (\<lambda>x. cj_id x = cj_id r) (cron_jobs db) = Some r"
  using tbl_first_unique [of cj_id "cron_jobs db" r] by (simp add: cron_keys_def)

text \<open>A due cron job whose expression matches at no minute of the next 48 hours (a weekly or
  monthly date, or a list or range, which the field matcher cannot read) is fired on every pass all
  the same and rescheduled one hour later.\<close>

theorem cron_fires_unmatched:
  assumes "cron_keys db" and "cron_fault db = None" and "r \<in> set (cron_jobs db)"
    and "lockable clock (cj_id r) r" and "cj_type r = ''cron''"
    and "\<not> channel_missing env (job_of_row db r)"
    and "\<forall>k. first_minute now + int k * minute < now + 48 * hour \<longrightarrow>
      \<not> cron_match (split_fields (cj_schedule r)) (location_of env (cj_timezone r))
          (first_minute now + int k * minute)"
  shows "\<exists>db' r'. process_job db_cron_ops env now clock (job_of_row db r) (db, out)
      = (db', out @ [cron_message (job_of_row db r)]) \<and>
    tbl_first (\<lambda>x. cj_id x = cj_id r) (cron_jobs db') = Some r' \<and> cj_next r' = Some (now + hour)"
proof -
  let ?z = "location_of env (cj_timezone r)"
  have next_run: "next_occurrence_in (cj_schedule r) now ?z = now + hour"
  proof (cases "next_scan (split_fields (cj_schedule r)) ?z (now + 48 * hour) (first_minute now)")
    case None
    then show ?thesis unfolding next_occurrence_in_def by (simp only: option.case Let_def if_cancel)
  next
    case (Some t)
    from next_scan_Some [OF Some] assms(7) show ?thesis by auto
  qed
  let ?db' = "db\<lparr>cron_jobs := tbl_update (\<lambda>x. cj_id x = cj_id r) (fired_row now (now + hour)) (cron_jobs db)\<rparr>"
  have "sj_id (job_of_row db r) = cj_id r" "sj_type (job_of_row db r) = ''cron''"
    "next_run env now (job_of_row db r) = now + hour"
    using assms(5) next_run by (simp_all add: job_of_row_def next_run_def)
  then have "process_job db_cron_ops env now clock (job_of_row db r) (db, out)
      = (?db', out @ [cron_message (job_of_row db r)])"
    using fire_pass [OF assms(3,4,2) _ _ assms(6)] by simp
  moreover have "tbl_first (\<lambda>x. cj_id x = cj_id r) (cron_jobs ?db') = Some (fired_row now (now + hour) r)"
    using first_by_id [OF assms(1,3)] by (simp add: tbl_first_update)
  ultimately show ?thesis
    by (intro exI [of _ ?db'] exI [of _ "fired_row now (now + hour) r"] conjI) (simp_all add: fired_row_def)
qed

section \<open>A missing channel\<close>

lemma missing_pass:
  assumes keys: "cron_keys db" and nf: "cron_fault db = None"
    and due: "filter (is_due now) (cron_jobs db) = [r]" and lk: "lockable now (cj_id r) r"
    and miss: "channel_missing env (job_of_row db r)"
  shows "process_due_jobs db_cron_ops env now now db =
    (db\<lparr>cron_jobs := (if cj_failures r + 1 < cron_max_failures
         then tbl_update (\<lambda>x. cj_id x = cj_id r) failed_row (cron_jobs db)
         else tbl_delete (\<lambda>x. cj_id x = cj_id r) (cron_jobs db))\<rparr>, [])"
proof -
  have "r \<in> set (filter (is_due now) (cron_jobs db))" by (simp only: due) simp
  then have r: "r \<in> set (cron_jobs db)" by simp
  have upd: "(\<lambda>x. x\<lparr>cj_failures := Suc (cj_failures x), cj_locked_by := None, cj_locked_at := None\<rparr>) = failed_row"
    by (simp add: fun_eq_iff failed_row_def)
  have first: "tbl_first (\<lambda>x. cj_id x = cj_id r)
      (tbl_update (\<lambda>x. cj_id x = cj_id r) failed_row (cron_jobs db)) = Some (failed_row r)"
    using first_by_id [OF keys r] by (simp add: tbl_first_update)
  have del: "tbl_delete (\<lambda>x. cj_id x = i) (tbl_update (\<lambda>x. cj_id x = i) failed_row rows)
      = tbl_delete (\<lambda>x. cj_id x = i) rows" for i rows
    by (induction rows) (auto simp: tbl_delete_def tbl_update_def)
  show ?thesis
    using nf r lk miss first
    by (simp add: process_due_jobs_def get_due_cron_jobs_def due process_job_def lock_grants
        job_failed_def increment_cron_job_failure_def delete_cron_job_def upd Let_def
        relock [of failed_row] failed_row_def del)
qed

lemma foldl_min_le: "foldl min (a :: int) ts \<le> a \<and> (\<forall>t \<in> set ts. foldl min a ts \<le> t)"
  by (induction ts arbitrary: a) (auto, fastforce+)

lemma due_no_sleep:
  assumes "cron_fault db = None" "r \<in> set (cron_jobs db)" "is_due now r"
  shows "poll_sleep db_cron_ops db now = 0"
proof -
  let ?ts = "List.map_filter (\<lambda>r. if cj_enabled r then cj_next r else None) (cron_jobs db)"
  from assms(3) obtain t where t: "cj_enabled r" "cj_next r = Some t" "t \<le> now"
    by (auto simp: is_due_def split: option.splits)
  with assms(2) have "t \<in> set ?ts" by (force simp: List.map_filter_def)
  then have "foldl min (hd ?ts) (tl ?ts) \<le> t" "?ts \<noteq> []"
    using foldl_min_le [of "hd ?ts" "tl ?ts"] by (cases ?ts; auto)+
  with t assms(1) show ?thesis
    by (simp add: poll_sleep_def get_next_due_time_def Let_def)
qed

lemma filter_due_failed:
  "filter (is_due now) rows = [r] \<Longrightarrow> distinct (map cj_id rows) \<Longrightarrow>
   filter (is_due now) (tbl_update (\<lambda>x. cj_id x = cj_id r) failed_row rows) = [failed_row r]"
proof -
  assume f: "filter (is_due now) rows = [r]" and "distinct (map cj_id rows)"
  have "filter (is_due now) (tbl_update w failed_row xs) = tbl_update w failed_row (filter (is_due now) xs)"
    for w xs by (induction xs) (auto simp: tbl_update_def)
  with f show ?thesis by (simp add: tbl_update_def)
qed

text \<open>A job whose channel adapter is missing is not given three ticks of time: a miss leaves
  the next run in the past, so the poller does not sleep, and three passes at the same instant
  delete the job without sending anything.\<close>

theorem missing_channel_deleted_at_once:
  assumes "cron_keys db" and "cron_fault db = None"
    and "filter (is_due now) (cron_jobs db) = [r]" and "lockable now (cj_id r) r"
    and "cj_failures r = 0" and "channel_missing env (job_of_row db r)"
  shows "\<exists>db1 db2 db3. process_due_jobs db_cron_ops env now now db = (db1, []) \<and>
    poll_sleep db_cron_ops db1 now = 0 \<and>
    process_due_jobs db_cron_ops env now now db1 = (db2, []) \<and>
    poll_sleep db_cron_ops db2 now = 0 \<and>
    process_due_jobs db_cron_ops env now now db2 = (db3, []) \<and>
    tbl_first (\<lambda>x. cj_id x = cj_id r) (cron_jobs db3) = None"
proof -
  have step: "\<exists>d'. process_due_jobs db_cron_ops env now now d = (d', []) \<and> cron_keys d' \<and>
      cron_fault d' = None \<and> filter (is_due now) (cron_jobs d') = [failed_row x] \<and>
      lockable now (cj_id x) (failed_row x) \<and> channel_missing env (job_of_row d' (failed_row x)) \<and>
      poll_sleep db_cron_ops d' now = 0"
    if d: "cron_keys d" "cron_fault d = None" "filter (is_due now) (cron_jobs d) = [x]"
      "lockable now (cj_id x) x" "channel_missing env (job_of_row d x)" "cj_failures x + 1 < cron_max_failures" for d x
  proof -
    let ?d = "d\<lparr>cron_jobs := tbl_update (\<lambda>y. cj_id y = cj_id x) failed_row (cron_jobs d)\<rparr>"
    have f: "filter (is_due now) (cron_jobs ?d) = [failed_row x]"
      using filter_due_failed [OF d(3)] d(1) by (simp add: cron_keys_def)
    have "failed_row x \<in> set (filter (is_due now) (cron_jobs ?d))" by (simp only: f) simp
    then have m: "failed_row x \<in> set (cron_jobs ?d)" "is_due now (failed_row x)" by simp_all
    have "poll_sleep db_cron_ops ?d now = 0"
      by (rule due_no_sleep [OF _ m]) (use d in simp)
    moreover have "process_due_jobs db_cron_ops env now now d = (?d, [])"
      using missing_pass [OF d(1-5)] d(6) by simp
    moreover have "cron_keys ?d" using d(1) by (intro cron_keys_update) simp_all
    moreover have "channel_missing env (job_of_row ?d (failed_row x))"
      using d(5) by (simp add: channel_missing_def job_of_row_def failed_row_def)
    ultimately show ?thesis
      using f d(2) by (intro exI [of _ ?d]) (simp add: lockable_def failed_row_def)
  qed
  from step [OF assms(1-4) assms(6)] assms(5) obtain db1 where 1:
    "process_due_jobs db_cron_ops env now now db = (db1, [])" "cron_keys db1" "cron_fault db1 = None"
    "filter (is_due now) (cron_jobs db1) = [failed_row r]" "lockable now (cj_id r) (failed_row r)"
    "channel_missing env (job_of_row db1 (failed_row r))" "poll_sleep db_cron_ops db1 now = 0"
    by (auto simp: cron_max_failures_def)
  from step [OF 1(2-4) _ 1(6)] 1(5) assms(5) obtain db2 where 2:
    "process_due_jobs db_cron_ops env now now db1 = (db2, [])" "cron_keys db2" "cron_fault db2 = None"
    "filter (is_due now) (cron_jobs db2) = [failed_row (failed_row r)]"
    "lockable now (cj_id r) (failed_row (failed_row r))"
    "channel_missing env (job_of_row db2 (failed_row (failed_row r)))" "poll_sleep db_cron_ops db2 now = 0"
    by (auto simp: cron_max_failures_def)
  let ?db3 = "db2\<lparr>cron_jobs := tbl_delete (\<lambda>x. cj_id x = cj_id r) (cron_jobs db2)\<rparr>"
  have "process_due_jobs db_cron_ops env now now db2 = (?db3, [])"
    using missing_pass [OF 2(2-4) _ 2(6)] 2(5) assms(5) by (simp add: cron_max_failures_def)
  moreover have "tbl_first (\<lambda>x. cj_id x = cj_id r) (cron_jobs ?db3) = None"
    by (simp add: tbl_delete_first)
  ultimately show ?thesis using 1 2 by blast
qed

section \<open>A stale list\<close>

text \<open>The lock does not look at the due time again. When two replicas read the due list before
  either has run the job, the second one, reaching the job after the first has finished and released
  it, fires it a second time from its stale list, even though the row is no longer due.\<close>

theorem cron_stale_list_refires:
  assumes "r \<in> set (cron_jobs db)" and "lockable clock (cj_id r) r" and "cron_fault db = None"
    and "cj_type r \<noteq> ''once''" and "\<not> channel_missing env (job_of_row db r)"
  shows "\<exists>db1 db2. process_job db_cron_ops env now clock (job_of_row db r) (db, [])
      = (db1, [cron_message (job_of_row db r)]) \<and>
    process_job db_cron_ops env now clock2 (job_of_row db r) (db1, [cron_message (job_of_row db r)])
      = (db2, [cron_message (job_of_row db r), cron_message (job_of_row db r)])"
proof -
  let ?j = "job_of_row db r"
  let ?f = "fired_row now (next_run env now ?j)"
  let ?db1 = "db\<lparr>cron_jobs := tbl_update (\<lambda>x. cj_id x = cj_id r) ?f (cron_jobs db)\<rparr>"
  have j: "sj_id ?j = cj_id r" "sj_type ?j \<noteq> ''once''" using assms(4) by (simp_all add: job_of_row_def)
  have row: "?f r \<in> set (cron_jobs ?db1)" "cj_id (?f r) = cj_id r" "lockable clock2 (cj_id r) (?f r)"
    using assms(1) by (auto simp: tbl_update_def fired_row_def lockable_def)
  have one: "process_job db_cron_ops env now clock ?j (db, []) = (?db1, [cron_message ?j])"
    using fire_pass [OF assms(1-3) j assms(5)] by simp
  have "cron_fault ?db1 = None" using assms(3) by simp
  from fire_pass [OF row(1) _ this _ j(2) assms(5)] row(2,3) j(1)
  have "process_job db_cron_ops env now clock2 ?j (?db1, [cron_message ?j])
    = (?db1\<lparr>cron_jobs := tbl_update (\<lambda>x. cj_id x = cj_id r) ?f (cron_jobs ?db1)\<rparr>,
       [cron_message ?j] @ [cron_message ?j])"
    by simp
  with one show ?thesis by (intro exI conjI) simp_all
qed

section \<open>Instances\<close>

definition demo_row :: cron_row where
  "demo_row = \<lparr>cj_id = ''j'', cj_user = ''u'', cj_agent = ''a'', cj_name = ''n'', cj_type = ''cron'',
     cj_schedule = ''0 9 * * 1-5'', cj_message = ''m'', cj_channel = ''telegram'', cj_chat = ''c'',
     cj_account = ''b'', cj_timezone = [], cj_enabled = True, cj_last = None, cj_next = Some 0,
     cj_failures = 0, cj_created = 0, cj_locked_by = None, cj_locked_at = None\<rparr>"

definition demo_cron_db :: cron_db where
  "demo_cron_db = \<lparr>cron_jobs = [demo_row], cron_agents = [], cron_fault = None\<rparr>"

definition demo_env :: "bool \<Rightarrow> cron_env" where
  "demo_env up = \<lparr>ce_channels = Some (\<lambda>_ _. up), ce_instance = ''default'', ce_zone = (\<lambda>_. None),
     ce_local = utc\<rparr>"

theorem cron_fires_unmatched_witness:
  "\<exists>db' r'. process_job db_cron_ops (demo_env True) 0 0 (job_of_row demo_cron_db demo_row) (demo_cron_db, [])
      = (db', [] @ [cron_message (job_of_row demo_cron_db demo_row)]) \<and>
    tbl_first (\<lambda>x. cj_id x = cj_id demo_row) (cron_jobs db') = Some r' \<and> cj_next r' = Some (0 + hour)"
proof (rule cron_fires_unmatched)
  have "atoi ''1-5'' = None" by (simp add: atoi_def is_digit_def in_range_def Let_def)
  then show "\<forall>k. first_minute 0 + int k * minute < 0 + 48 * hour \<longrightarrow>
      \<not> cron_match (split_fields (cj_schedule demo_row)) (location_of (demo_env True) (cj_timezone demo_row))
        (first_minute 0 + int k * minute)"
    using unreadable_field [of "''1-5''"] by (simp add: demo_row_def fields_demo)
qed (simp_all add: cron_keys_def demo_cron_db_def demo_row_def lockable_def channel_missing_def demo_env_def job_of_row_def)


theorem cron_stale_list_refires_witness:
  "\<exists>db1 db2. process_job db_cron_ops (demo_env True) 0 0 (job_of_row demo_cron_db demo_row) (demo_cron_db, [])
      = (db1, [cron_message (job_of_row demo_cron_db demo_row)]) \<and>
    process_job db_cron_ops (demo_env True) 0 1 (job_of_row demo_cron_db demo_row)
        (db1, [cron_message (job_of_row demo_cron_db demo_row)])
      = (db2, [cron_message (job_of_row demo_cron_db demo_row), cron_message (job_of_row demo_cron_db demo_row)])"
  by (rule cron_stale_list_refires)
    (simp_all add: demo_cron_db_def demo_row_def lockable_def channel_missing_def demo_env_def job_of_row_def)

theorem missing_channel_deleted_at_once_witness:
  "\<exists>db3. tbl_first (\<lambda>x. cj_id x = ''j'') (cron_jobs db3) = None \<and>
    (\<exists>db2. process_due_jobs db_cron_ops (demo_env False) 0 0 db2 = (db3, []))"
proof -
  have "filter (is_due 0) (cron_jobs demo_cron_db) = [demo_row]"
    by (simp add: demo_cron_db_def demo_row_def is_due_def)
  from missing_channel_deleted_at_once [OF _ _ this, of "demo_env False"] show ?thesis
    by (auto simp: cron_keys_def demo_cron_db_def demo_row_def lockable_def channel_missing_def
        demo_env_def job_of_row_def)
qed

theorem next_occurrence_least_witness:
  "next_occurrence_in ''* * * * *'' 0 utc = minute"
proof -
  have fs: "split_fields ''* * * * *'' = [''*'', ''*'', ''*'', ''*'', ''*'']"
    by (simp add: split_fields_def is_space_def in_range_def)
  have m: "cron_match [''*'', ''*'', ''*'', ''*'', ''*''] utc t" for t
    by (simp add: cron_match_def field_match_def split: prod.splits)
  have f: "first_minute 0 = minute" by (simp add: first_minute_def truncate_minute_def)
  have len: "length (split_fields ''* * * * *'') = 5" by (simp add: fs)
  have 0: "minute + int 0 * minute < 0 + 48 * hour" by simp
  let ?n = "next_occurrence_in ''* * * * *'' 0 utc"
  let ?none = "\<lambda>k. \<forall>j < k. \<not> cron_match [''*'', ''*'', ''*'', ''*'', ''*''] utc (minute + int j * minute)"
  from next_occurrence_least [OF len, of 0 utc] consider k where "?n = minute + int k * minute" "?none k"
    | "\<not> cron_match [''*'', ''*'', ''*'', ''*'', ''*''] utc (minute + int 0 * minute)"
    unfolding fs Let_def f using 0 by blast
  then show ?thesis
  proof cases
    case 1
    with m have "\<not> 0 < k" by blast
    with 1 show ?thesis by simp
  qed (use m in blast)
qed

end
