(* ===== verification/Goal.thy ===== *)
theory Goal
  imports Bus
begin

text \<open>
  The \<^verbatim>\<open>/goal\<close> feature: the goal record and usage folding of
  \<^verbatim>\<open>internal/agent/goal\<close>, its table in \<^verbatim>\<open>internal/store/database.go\<close>, the slash
  handlers of \<^verbatim>\<open>internal/agent/slash_goal.go\<close>, the accounting and continuation hooks
  (\<^verbatim>\<open>goal_hook.go\<close>, \<^verbatim>\<open>loop.go\<close>) and the model's
  \<^verbatim>\<open>update_goal\<close> tool. Every handler reads the record, changes it in memory and writes it
  back, so each is the composition of a read and a write part, and \<open>goal_reach\<close> interleaves
  those of concurrent handlers. The texts of the two embedded prompt templates are parameters.
\<close>

section \<open>Records\<close>

definition status_active :: string where "status_active = ''active''"
definition status_paused :: string where "status_paused = ''paused''"
definition status_budget_limited :: string where "status_budget_limited = ''budget_limited''"
definition status_complete :: string where "status_complete = ''complete''"

lemmas status_defs = status_active_def status_paused_def status_budget_limited_def status_complete_def

record goal =
  g_id :: string
  g_agent :: string
  g_session :: string
  g_owner :: string
  g_channel :: string
  g_account :: string
  g_chat :: string
  g_project :: string
  g_objective :: string
  g_status :: string
  g_budget :: "int option"
  g_used :: int
  g_created :: "instant option"
  g_updated :: "instant option"

text \<open>\<^verbatim>\<open>int64\<close> arithmetic wraps.\<close>

definition int64 :: "int \<Rightarrow> int" where
  "int64 x = (x + 2 ^ 63) mod 2 ^ 64 - 2 ^ 63"

lemma int64_id [simp]: "- (2 ^ 63) \<le> x \<Longrightarrow> x < 2 ^ 63 \<Longrightarrow> int64 x = x"
  by (simp add: int64_def)

definition remaining_tokens :: "goal \<Rightarrow> int option" where
  "remaining_tokens g = (case g_budget g of
     None \<Rightarrow> None | Some b \<Rightarrow> Some (max 0 (int64 (b - g_used g))))"

text \<open>The updated record, the delta and whether the budget was just crossed.\<close>

definition fold_usage :: "goal \<Rightarrow> int \<Rightarrow> int \<Rightarrow> goal \<times> int \<times> bool" where
  "fold_usage g inp outp =
     (if g_status g \<noteq> status_active then (g, 0, False)
      else (let delta = int64 (max 0 inp + max 0 outp)
            in if delta = 0 then (g, 0, False)
               else (let g1 = g\<lparr>g_used := int64 (g_used g + delta)\<rparr>
                     in if g_budget g \<noteq> None \<and> g_used g1 \<ge> the (g_budget g)
                        then (g1\<lparr>g_status := status_budget_limited\<rparr>, delta, True)
                        else (g1, delta, False))))"

section \<open>Prompts\<close>

datatype template_part = Lit string | Objective | Tokens_Used | Token_Budget | Remaining_Tokens

definition escape_byte :: "char \<Rightarrow> string" where
  "escape_byte c = (if c = CHR ''&'' then ''&amp;'' else if c = CHR ''<'' then ''&lt;''
     else if c = CHR ''>'' then ''&gt;'' else [c])"

definition escape_xml_text :: "string \<Rightarrow> string" where
  "escape_xml_text s = concat (map escape_byte s)"

fun render_part :: "goal \<Rightarrow> template_part \<Rightarrow> string" where
  "render_part g (Lit s) = s"
| "render_part g Objective = escape_xml_text (g_objective g)"
| "render_part g Tokens_Used = show_int (g_used g)"
| "render_part g Token_Budget = (case g_budget g of None \<Rightarrow> ''none'' | Some b \<Rightarrow> show_int b)"
| "render_part g Remaining_Tokens =
     (case remaining_tokens g of None \<Rightarrow> ''unbounded'' | Some n \<Rightarrow> show_int n)"

definition render :: "template_part list \<Rightarrow> goal \<Rightarrow> string" where
  "render t g = concat (map (render_part g) t)"

section \<open>Table\<close>

datatype goal_error = Goal_Not_Found | Goal_Exists | Goal_Refused string | Goal_Db string

definition goal_error_text :: "goal_error \<Rightarrow> string" where
  "goal_error_text e = (case e of
     Goal_Not_Found \<Rightarrow> ''store: not found''
   | Goal_Exists \<Rightarrow> ''goal already exists for this session''
   | Goal_Refused m \<Rightarrow> m | Goal_Db m \<Rightarrow> m)"

text \<open>The rows and, per statement, the driver error it answers with, if any.\<close>

record goal_db =
  goals :: "goal list"
  insert_fault :: "string option"
  select_fault :: "string option"
  update_fault :: "string option"
  delete_fault :: "string option"

definition is_unique_violation :: "string \<Rightarrow> bool" where
  "is_unique_violation m = (contains m ''duplicate key value'' \<or> contains m ''UNIQUE constraint failed'')"

definition same_slot :: "goal \<Rightarrow> goal \<Rightarrow> bool" where
  "same_slot g r = (g_id r = g_id g \<or> (g_agent r = g_agent g \<and> g_session r = g_session g))"

definition create_goal :: "instant \<Rightarrow> goal \<Rightarrow> goal_db \<Rightarrow> goal_db \<times> goal_error option" where
  "create_goal now g db =
     (if g_agent g = [] \<or> g_session g = [] then
        (db, Some (Goal_Refused ''store: goal.agent_id and session_key are required''))
      else if g_owner g = [] then (db, Some (Goal_Refused ''store: goal.owner_user_id is required''))
      else
        (let g1 = g\<lparr>g_created := (if g_created g = None then Some now else g_created g),
                    g_updated := (if g_updated g = None then Some now else g_updated g),
                    g_status := (if g_status g = [] then ''active'' else g_status g)\<rparr>
         in case insert_fault db of
              Some m \<Rightarrow> (db, Some (if is_unique_violation m then Goal_Exists else Goal_Db m))
            | None \<Rightarrow>
                if \<exists>r \<in> set (goals db). same_slot g1 r then (db, Some Goal_Exists)
                else (db\<lparr>goals := goals db @ [g1]\<rparr>, None)))"

definition get_goal_by_session :: "goal_db \<Rightarrow> string \<Rightarrow> string \<Rightarrow> goal_error + goal" where
  "get_goal_by_session db agent session = (case select_fault db of
     Some m \<Rightarrow> Inl (Goal_Db m)
   | None \<Rightarrow> (case tbl_first (\<lambda>r. g_agent r = agent \<and> g_session r = session) (goals db) of
       None \<Rightarrow> Inl Goal_Not_Found | Some g \<Rightarrow> Inr g))"

definition update_goal :: "instant \<Rightarrow> goal \<Rightarrow> goal_db \<Rightarrow> goal_db \<times> goal_error option" where
  "update_goal now g db =
     (if g_id g = [] then (db, Some (Goal_Refused ''store: goal.id is required for UpdateGoal''))
      else (case update_fault db of
          Some m \<Rightarrow> (db, Some (Goal_Db m))
        | None \<Rightarrow>
            (db\<lparr>goals := tbl_update (\<lambda>r. g_id r = g_id g)
               (\<lambda>r. r\<lparr>g_status := g_status g, g_budget := g_budget g, g_used := g_used g,
                     g_updated := Some now\<rparr>) (goals db)\<rparr>,
             if tbl_affected (\<lambda>r. g_id r = g_id g) (goals db) = 0 then Some Goal_Not_Found else None)))"

definition delete_goal :: "string \<Rightarrow> goal_db \<Rightarrow> goal_db \<times> goal_error option" where
  "delete_goal i db = (case delete_fault db of
     Some m \<Rightarrow> (db, Some (Goal_Db m))
   | None \<Rightarrow> (db\<lparr>goals := tbl_delete (\<lambda>r. g_id r = i) (goals db)\<rparr>, None))"

section \<open>Continuations\<close>

text \<open>The agent's side: its name and owner, whether a store is wired, the session manager's
  answer for a message (empty when there is none) and the two prompt texts.\<close>

record goal_agent =
  ga_name :: string
  ga_owner :: string
  ga_store :: bool
  ga_session :: "inbound_message \<Rightarrow> string"
  ga_continuation :: "template_part list"
  ga_wrapup :: "template_part list"

text \<open>The bus is a bounded channel, absent when the agent has none.\<close>

record goal_world =
  gw_db :: goal_db
  gw_bus :: "(nat \<times> inbound_message list) option"

definition continuation_message :: "goal \<Rightarrow> string \<Rightarrow> inbound_message" where
  "continuation_message g prompt = empty_message\<lparr>m_channel := g_channel g, m_account := g_account g,
     m_chat := g_chat g, m_project := g_project g, m_user := ''goal'', m_owner := g_owner g,
     m_agent := g_agent g, m_text := prompt, m_peer_kind := ''dm'', m_source := ''goal_context''\<rparr>"

definition publish :: "goal \<Rightarrow> string \<Rightarrow> goal_world \<Rightarrow> goal_world \<times> bool" where
  "publish g prompt w = (case gw_bus w of
     None \<Rightarrow> (w, False)
   | Some (cap, ms) \<Rightarrow>
       if length ms < cap then (w\<lparr>gw_bus := Some (cap, ms @ [continuation_message g prompt])\<rparr>, True)
       else (w, False))"

definition try_fire_continuation :: "goal_agent \<Rightarrow> string \<Rightarrow> goal_world \<Rightarrow> goal_world" where
  "try_fire_continuation a session w = (case get_goal_by_session (gw_db w) (ga_name a) session of
     Inl _ \<Rightarrow> w
   | Inr g \<Rightarrow>
       if g_status g \<noteq> status_active then w
       else if g_channel g = [] \<and> g_chat g = [] then w
       else fst (publish g (render (ga_continuation a) g) w))"

text \<open>The hook run after every turn; \<open>session\<close> is the turn's session key.\<close>

definition goal_trigger_hook :: "goal_agent \<Rightarrow> string \<Rightarrow> bool \<Rightarrow> string \<Rightarrow> goal_world \<Rightarrow> goal_world" where
  "goal_trigger_hook a source plan_mode session w =
     (if source \<noteq> [] \<and> source \<noteq> ''goal_context'' then w
      else if plan_mode then w
      else if session = [] then w
      else if \<not> ga_store a then w
      else try_fire_continuation a session w)"

section \<open>Token accounting\<close>

record call_usage =
  u_input :: int
  u_output :: int
  u_cache_read :: int
  u_cache_creation :: int

text \<open>What the hook does with the record it has read.\<close>

definition account_write :: "instant \<Rightarrow> goal_agent \<Rightarrow> call_usage \<Rightarrow> goal \<Rightarrow> goal_world \<Rightarrow> goal_world" where
  "account_write now a u g w =
     (if g_status g \<noteq> status_active then w
      else (case fold_usage g (u_input u) (u_output u) of (g1, delta, exhausted) \<Rightarrow>
        if delta = 0 \<and> \<not> exhausted then w
        else (case update_goal now g1 (gw_db w) of
            (db, Some _) \<Rightarrow> w\<lparr>gw_db := db\<rparr>
          | (db, None) \<Rightarrow>
              if exhausted then fst (publish g1 (render (ga_wrapup a) g1) (w\<lparr>gw_db := db\<rparr>))
              else w\<lparr>gw_db := db\<rparr>)))"

text \<open>After a model call: \<open>failed\<close> when it returned an error, \<open>resp\<close> the usage of the
  response, if there is one.\<close>

definition token_accounting_hook :: "instant \<Rightarrow> goal_agent \<Rightarrow> bool \<Rightarrow> call_usage option \<Rightarrow> string
    \<Rightarrow> goal_world \<Rightarrow> goal_world" where
  "token_accounting_hook now a failed resp session w =
     (if failed then w
      else if session = [] then w
      else (case resp of
          None \<Rightarrow> w
        | Some u \<Rightarrow>
            if u_input u = 0 \<and> u_output u = 0 \<and> u_cache_read u = 0 \<and> u_cache_creation u = 0 then w
            else (case get_goal_by_session (gw_db w) (ga_name a) session of
                Inl _ \<Rightarrow> w | Inr g \<Rightarrow> account_write now a u g w)))"

section \<open>The model's tool\<close>

datatype tool_error =
    Bad_Args | Bad_Status | No_Session | No_Goal
  | Load_Failed goal_error | Wrong_Status string | Save_Failed goal_error

definition complete_write :: "instant \<Rightarrow> goal \<Rightarrow> goal_world \<Rightarrow> goal_world \<times> (tool_error + string)" where
  "complete_write now g w =
     (if g_status g \<noteq> status_active then (w, Inl (Wrong_Status (g_status g)))
      else (case update_goal now (g\<lparr>g_status := status_complete\<rparr>) (gw_db w) of
          (db, Some e) \<Rightarrow> (w\<lparr>gw_db := db\<rparr>, Inl (Save_Failed e))
        | (db, None) \<Rightarrow> (w\<lparr>gw_db := db\<rparr>,
            Inr (''{'' @ [CHR 0x22] @ ''final_token_usage'' @ [CHR 0x22] @ '':'' @ show_int (g_used g)
              @ '','' @ [CHR 0x22] @ ''ok'' @ [CHR 0x22] @ '':true}''))))"

text \<open>\<open>status\<close> is the decoded argument, \<open>None\<close> when the JSON does not decode.\<close>

definition update_goal_tool :: "instant \<Rightarrow> goal_agent \<Rightarrow> string option \<Rightarrow> string \<Rightarrow> goal_world
    \<Rightarrow> goal_world \<times> (tool_error + string)" where
  "update_goal_tool now a status session w = (case status of
     None \<Rightarrow> (w, Inl Bad_Args)
   | Some s \<Rightarrow>
       if s \<noteq> ''complete'' then (w, Inl Bad_Status)
       else if session = [] then (w, Inl No_Session)
       else (case get_goal_by_session (gw_db w) (ga_name a) session of
           Inl e \<Rightarrow> (w, Inl (if e = Goal_Not_Found then No_Goal else Load_Failed e))
         | Inr g \<Rightarrow> complete_write now g w))"

section \<open>Slash commands\<close>

record slash_result =
  handled :: bool
  reply :: string
  continuation_queued :: bool

definition say :: "string \<Rightarrow> slash_result" where
  "say m = \<lparr>handled = True, reply = m, continuation_queued = False\<rparr>"

text \<open>The Go pair a store read returns, and the tests the handlers make on it, in their
  order.\<close>

definition go_pair :: "goal_error + goal \<Rightarrow> goal option \<times> goal_error option" where
  "go_pair r = (case r of Inl e \<Rightarrow> (None, Some e) | Inr g \<Rightarrow> (Some g, None))"

definition with_goal :: "goal_error + goal \<Rightarrow> (goal \<Rightarrow> goal_world \<times> slash_result) \<Rightarrow> goal_world
    \<Rightarrow> goal_world \<times> slash_result" where
  "with_goal r k w = (case go_pair r of (g, err) \<Rightarrow>
     if err = Some Goal_Not_Found \<or> g = None then (w, say ''No goal set.'')
     else if err \<noteq> None then (w, say (''Error reading goal: '' @ goal_error_text (the err)))
     else k (the g))"

definition slash_goal_show :: "goal_agent \<Rightarrow> inbound_message \<Rightarrow> goal_world \<Rightarrow> goal_world \<times> slash_result" where
  "slash_goal_show a m w = with_goal (get_goal_by_session (gw_db w) (ga_name a) (ga_session a m))
     (\<lambda>g. (w, say (g_status g @ '': '' @ g_objective g))) w"

definition slash_goal_create :: "instant \<Rightarrow> string \<Rightarrow> goal_agent \<Rightarrow> inbound_message \<Rightarrow> string \<Rightarrow> goal_world
    \<Rightarrow> goal_world \<times> slash_result" where
  "slash_goal_create now i a m text w =
     (let objective = trim_space text; key = ga_session a m
      in if objective = [] then (w, say ''Usage: `/goal <objective>`'')
         else if key = [] then (w, say ''No session context.'')
         else (case create_goal now \<lparr>g_id = i, g_agent = ga_name a, g_session = key, g_owner = ga_owner a,
                   g_channel = m_channel m, g_account = m_account m, g_chat = m_chat m,
                   g_project = m_project m, g_objective = objective, g_status = status_active,
                   g_budget = None, g_used = 0, g_created = None, g_updated = None\<rparr> (gw_db w) of
             (db, Some e) \<Rightarrow> (w\<lparr>gw_db := db\<rparr>,
               say (if e = Goal_Exists then ''Goal already exists; `/goal clear` first.''
                    else ''Error creating goal: '' @ goal_error_text e))
           | (db, None) \<Rightarrow> (try_fire_continuation a key (w\<lparr>gw_db := db\<rparr>),
               \<lparr>handled = True, reply = [], continuation_queued = True\<rparr>)))"

definition transition_write :: "instant \<Rightarrow> string \<Rightarrow> string \<Rightarrow> string \<Rightarrow> goal \<Rightarrow> goal_world
    \<Rightarrow> goal_world \<times> slash_result" where
  "transition_write now old new wrong g w =
     (if g_status g \<noteq> old then (w, say wrong)
      else (case update_goal now (g\<lparr>g_status := new\<rparr>) (gw_db w) of
          (db, Some e) \<Rightarrow> (w\<lparr>gw_db := db\<rparr>, say (''Error updating goal: '' @ goal_error_text e))
        | (db, None) \<Rightarrow> (w\<lparr>gw_db := db\<rparr>, say [])))"

definition transition_goal :: "instant \<Rightarrow> goal_agent \<Rightarrow> inbound_message \<Rightarrow> string \<Rightarrow> string \<Rightarrow> string
    \<Rightarrow> goal_world \<Rightarrow> goal_world \<times> slash_result" where
  "transition_goal now a m old new wrong w =
     with_goal (get_goal_by_session (gw_db w) (ga_name a) (ga_session a m))
       (\<lambda>g. transition_write now old new wrong g w) w"

definition slash_goal_pause :: "instant \<Rightarrow> goal_agent \<Rightarrow> inbound_message \<Rightarrow> goal_world
    \<Rightarrow> goal_world \<times> slash_result" where
  "slash_goal_pause now a m w = transition_goal now a m status_active status_paused ''Not active.'' w"

definition slash_goal_resume :: "instant \<Rightarrow> goal_agent \<Rightarrow> inbound_message \<Rightarrow> goal_world
    \<Rightarrow> goal_world \<times> slash_result" where
  "slash_goal_resume now a m w =
     (case transition_goal now a m status_paused status_active ''Not paused.'' w of (w1, res) \<Rightarrow>
        if handled res \<and> reply res = []
        then (try_fire_continuation a (ga_session a m) w1, res\<lparr>continuation_queued := True\<rparr>)
        else (w1, res))"

definition clear_write :: "goal \<Rightarrow> goal_world \<Rightarrow> goal_world \<times> slash_result" where
  "clear_write g w = (case delete_goal (g_id g) (gw_db w) of
     (db, Some e) \<Rightarrow> (w\<lparr>gw_db := db\<rparr>, say (''Error clearing goal: '' @ goal_error_text e))
   | (db, None) \<Rightarrow> (w\<lparr>gw_db := db\<rparr>, say []))"

definition slash_goal_clear :: "goal_agent \<Rightarrow> inbound_message \<Rightarrow> goal_world \<Rightarrow> goal_world \<times> slash_result" where
  "slash_goal_clear a m w = with_goal (get_goal_by_session (gw_db w) (ga_name a) (ga_session a m))
     (\<lambda>g. clear_write g w) w"

text \<open>Run by \<^verbatim>\<open>/new\<close> and \<^verbatim>\<open>/reset\<close>.\<close>

definition clear_goal_for_session :: "goal_agent \<Rightarrow> string \<Rightarrow> goal_world \<Rightarrow> goal_world" where
  "clear_goal_for_session a session w =
     (if \<not> ga_store a \<or> session = [] then w
      else (case get_goal_by_session (gw_db w) (ga_name a) session of
          Inl _ \<Rightarrow> w
        | Inr g \<Rightarrow> w\<lparr>gw_db := fst (delete_goal (g_id g) (gw_db w))\<rparr>))"

definition slash_goal :: "instant \<Rightarrow> string \<Rightarrow> goal_agent \<Rightarrow> inbound_message \<Rightarrow> string list \<Rightarrow> goal_world
    \<Rightarrow> goal_world \<times> slash_result" where
  "slash_goal now i a m args w =
     (if \<not> ga_store a then
        (w, say (''The /goal feature isn'' @ [CHR 0x27]
          @ ''t enabled on this install (no data store configured).''))
      else
        (let sub = (case args of [] \<Rightarrow> [] | x # _ \<Rightarrow> to_lower x)
         in if sub = [] then slash_goal_show a m w
            else if sub = ''pause'' then slash_goal_pause now a m w
            else if sub = ''resume'' then slash_goal_resume now a m w
            else if sub = ''clear'' then slash_goal_clear a m w
            else slash_goal_create now i a m (join_with '' '' args) w))"

text \<open>\<^verbatim>\<open>sessionHasActiveGoal\<close>, which makes an active goal override plan mode.\<close>

definition session_has_active_goal :: "goal_agent \<Rightarrow> string \<Rightarrow> goal_world \<Rightarrow> bool" where
  "session_has_active_goal a session w =
     (if \<not> ga_store a then False
      else (case get_goal_by_session (gw_db w) (ga_name a) session of
          Inl _ \<Rightarrow> False | Inr g \<Rightarrow> g_status g = status_active))"

section \<open>The prompt wrapper\<close>

definition is_markup :: "char \<Rightarrow> bool" where
  "is_markup c = (c = CHR ''<'' \<or> c = CHR ''>'')"

fun unescape_xml :: "string \<Rightarrow> string" where
  "unescape_xml [] = []"
| "unescape_xml (c # s) =
     (if has_prefix (c # s) ''&amp;'' then CHR ''&'' # unescape_xml (drop 4 s)
      else if has_prefix (c # s) ''&lt;'' then CHR ''<'' # unescape_xml (drop 3 s)
      else if has_prefix (c # s) ''&gt;'' then CHR ''>'' # unescape_xml (drop 3 s)
      else c # unescape_xml s)"

lemma unescape_escape: "unescape_xml (escape_xml_text s) = s"
proof (induction s)
  case (Cons c s)
  have e: "escape_xml_text (c # s) = escape_byte c @ escape_xml_text s" by (simp add: escape_xml_text_def)
  show ?case unfolding e using Cons by (simp add: escape_byte_def)
qed (simp add: escape_xml_text_def)

lemma escape_no_markup: "filter is_markup (escape_xml_text s) = []"
  by (auto simp: escape_xml_text_def escape_byte_def is_markup_def filter_empty_conv split: if_splits)

lemma show_nat_no_markup: "filter is_markup (show_nat n) = []"
proof -
  have "list_all is_digit (show_nat n)" using show_nat_digits by blast
  then show ?thesis by (auto simp: filter_empty_conv list_all_iff is_digit_def is_markup_def in_range_def dest!: bspec)
qed

lemma show_int_no_markup: "filter is_markup (show_int i) = []"
  by (auto simp: show_int_def show_nat_no_markup is_markup_def)

lemma render_part_markup:
  "filter is_markup (render_part g p) = (case p of Lit s \<Rightarrow> filter is_markup s | _ \<Rightarrow> [])"
  by (cases p) (simp_all add: escape_no_markup show_int_no_markup split: option.splits,
    auto simp: is_markup_def)

section \<open>Invariants of the table\<close>

definition goal_keys :: "goal_db \<Rightarrow> bool" where
  "goal_keys db = (distinct (map g_id (goals db)) \<and>
     distinct (map (\<lambda>g. (g_agent g, g_session g)) (goals db)))"

definition stamp :: "goal \<Rightarrow> instant \<Rightarrow> goal \<Rightarrow> goal" where
  "stamp g now r = r\<lparr>g_status := g_status g, g_budget := g_budget g, g_used := g_used g,
     g_updated := Some now\<rparr>"

lemma stamp_fields [simp]:
  "g_id (stamp g now r) = g_id r" "g_agent (stamp g now r) = g_agent r"
  "g_session (stamp g now r) = g_session r" "g_status (stamp g now r) = g_status g"
  "g_budget (stamp g now r) = g_budget g" "g_used (stamp g now r) = g_used g"
  "g_channel (stamp g now r) = g_channel r" "g_chat (stamp g now r) = g_chat r"
  by (simp_all add: stamp_def)

lemma update_goal_rows:
  "goals (fst (update_goal now x db)) =
     (if g_id x = [] \<or> update_fault db \<noteq> None then goals db
      else tbl_update (\<lambda>r. g_id r = g_id x) (stamp x now) (goals db))"
  by (auto simp: update_goal_def stamp_def [abs_def] split: option.splits)

lemma get_goal_Inr:
  "get_goal_by_session db agent session = Inr g \<Longrightarrow>
    g \<in> set (goals db) \<and> g_agent g = agent \<and> g_session g = session \<and> select_fault db = None"
  by (auto simp: get_goal_by_session_def dest: tbl_first_SomeD split: option.splits)

lemma publish_db [simp]: "gw_db (fst (publish g p w)) = gw_db w"
  by (simp add: publish_def split: option.splits prod.splits)

lemma fire_db [simp]: "gw_db (try_fire_continuation a s w) = gw_db w"
  by (simp add: try_fire_continuation_def split: sum.splits)

lemma trigger_db [simp]: "gw_db (goal_trigger_hook a src pm s w) = gw_db w"
  by (simp add: goal_trigger_hook_def)

text \<open>The write parts change the table by one update, described here.\<close>

lemma account_write_rows:
  "goals (gw_db (account_write now a u g w)) = goals (gw_db w) \<or>
   (g_status g = status_active \<and> goals (gw_db (account_write now a u g w)) =
      goals (fst (update_goal now (fst (fold_usage g (u_input u) (u_output u))) (gw_db w))))"
  by (auto simp: account_write_def split: prod.splits option.splits)

lemma complete_write_rows:
  "goals (gw_db (fst (complete_write now g w))) = goals (gw_db w) \<or>
   (g_status g = status_active \<and> goals (gw_db (fst (complete_write now g w))) =
      goals (fst (update_goal now (g\<lparr>g_status := status_complete\<rparr>) (gw_db w))))"
  by (auto simp: complete_write_def split: prod.splits option.splits)

lemma transition_write_rows:
  "goals (gw_db (fst (transition_write now old new wrong g w))) = goals (gw_db w) \<or>
   (g_status g = old \<and> goals (gw_db (fst (transition_write now old new wrong g w))) =
      goals (fst (update_goal now (g\<lparr>g_status := new\<rparr>) (gw_db w))))"
  by (auto simp: transition_write_def split: prod.splits option.splits)

lemma clear_write_rows: "set (goals (gw_db (fst (clear_write g w)))) \<subseteq> set (goals (gw_db w))"
  by (auto simp: clear_write_def delete_goal_def tbl_delete_def split: prod.splits option.splits)

lemma create_rows:
  "goals (gw_db (fst (slash_goal_create now i a m text w))) = goals (gw_db w) \<or>
   (\<exists>g. goals (gw_db (fst (slash_goal_create now i a m text w))) = goals (gw_db w) @ [g] \<and>
      \<not> (\<exists>r \<in> set (goals (gw_db w)). same_slot g r) \<and>
      g_id g = i \<and> g_status g = status_active \<and> g_budget g = None \<and> g_used g = 0)"
  by (auto simp: slash_goal_create_def create_goal_def Let_def same_slot_def status_defs
      split: prod.splits option.splits if_splits)

lemma fold_usage_fields:
  "g_id (fst (fold_usage g x y)) = g_id g" "g_budget (fst (fold_usage g x y)) = g_budget g"
  by (simp_all add: fold_usage_def Let_def)

lemma fold_usage_status:
  "g_status (fst (fold_usage g x y)) = g_status g \<or>
   (g_status g = status_active \<and> g_budget g \<noteq> None \<and>
    g_status (fst (fold_usage g x y)) = status_budget_limited)"
  by (simp add: fold_usage_def Let_def)

section \<open>Concurrent handlers\<close>

text \<open>Every run of handlers in which each read and each write of the table is a step of its own:
  \<open>loads\<close> are the records some handler has read and may still write from.\<close>

inductive goal_reach :: "goal_agent \<Rightarrow> goal_world \<Rightarrow> goal_world \<Rightarrow> goal set \<Rightarrow> bool"
  for a :: goal_agent and w0 :: goal_world where
  start: "goal_reach a w0 w0 {}"
| load: "goal_reach a w0 w loads \<Longrightarrow> get_goal_by_session (gw_db w) (ga_name a) s = Inr g \<Longrightarrow>
    goal_reach a w0 w (insert g loads)"
| create: "goal_reach a w0 w loads \<Longrightarrow> goal_reach a w0 (fst (slash_goal_create now i a m text w)) loads"
| account: "goal_reach a w0 w loads \<Longrightarrow> g \<in> loads \<Longrightarrow> goal_reach a w0 (account_write now a u g w) loads"
| complete: "goal_reach a w0 w loads \<Longrightarrow> g \<in> loads \<Longrightarrow>
    goal_reach a w0 (fst (complete_write now g w)) loads"
| pause: "goal_reach a w0 w loads \<Longrightarrow> g \<in> loads \<Longrightarrow>
    goal_reach a w0 (fst (transition_write now status_active status_paused wrong g w)) loads"
| resume: "goal_reach a w0 w loads \<Longrightarrow> g \<in> loads \<Longrightarrow>
    goal_reach a w0 (fst (transition_write now status_paused status_active wrong g w)) loads"
| clear: "goal_reach a w0 w loads \<Longrightarrow> g \<in> loads \<Longrightarrow> goal_reach a w0 (fst (clear_write g w)) loads"
| continue: "goal_reach a w0 w loads \<Longrightarrow> goal_reach a w0 (goal_trigger_hook a src pm s w) loads"
| fault: "goal_reach a w0 w loads \<Longrightarrow> goals db = goals (gw_db w) \<Longrightarrow>
    goal_reach a w0 (w\<lparr>gw_db := db\<rparr>) loads"

definition unbudgeted :: "goal \<Rightarrow> bool" where
  "unbudgeted g = (g_budget g = None \<and> g_status g \<in> {status_active, status_paused, status_complete})"

lemma update_unbudgeted:
  assumes "\<forall>r \<in> set (goals db). unbudgeted r" "unbudgeted x"
  shows "\<forall>r \<in> set (goals (fst (update_goal now x db))). unbudgeted r"
  using assms by (auto simp: update_goal_rows tbl_update_def unbudgeted_def)

lemma reach_unbudgeted:
  assumes "goal_reach a w0 w loads" "goals (gw_db w0) = []"
  shows "(\<forall>r \<in> set (goals (gw_db w)). unbudgeted r) \<and> (\<forall>r \<in> loads. unbudgeted r)"
  using assms
proof (induction rule: goal_reach.induct)
  case (load w loads s g)
  with get_goal_Inr [OF load.hyps(2)] show ?case by auto
next
  case (create w loads now i m obj)
  then show ?case using create_rows [of now i a m obj w] by (auto simp: unbudgeted_def)
next
  case (account w loads g now u)
  then have "unbudgeted g" by auto
  then have "unbudgeted (fst (fold_usage g (u_input u) (u_output u)))"
    using fold_usage_status [of g "u_input u" "u_output u"] by (auto simp: unbudgeted_def fold_usage_fields)
  with account update_unbudgeted account_write_rows [of now a u g w] show ?case by metis
next
  case (complete w loads g now)
  then have "unbudgeted (g\<lparr>g_status := status_complete\<rparr>)" by (auto simp: unbudgeted_def)
  with complete update_unbudgeted complete_write_rows [of now g w] show ?case by metis
next
  case (pause w loads g now wrong)
  then have "unbudgeted (g\<lparr>g_status := status_paused\<rparr>)" by (auto simp: unbudgeted_def)
  with pause update_unbudgeted transition_write_rows [of now status_active status_paused wrong g w]
  show ?case by metis
next
  case (resume w loads g now wrong)
  then have "unbudgeted (g\<lparr>g_status := status_active\<rparr>)" by (auto simp: unbudgeted_def)
  with resume update_unbudgeted transition_write_rows [of now status_paused status_active wrong g w]
  show ?case by metis
next
  case (clear w loads g)
  then show ?case using clear_write_rows [of g w] by blast
qed simp_all

text \<open>No goal ever gets a token budget: whatever the handlers do, and in whatever order their
  reads and writes interleave, every goal of a table that starts empty has no budget, so none is
  ever limited by one.\<close>

theorem goal_budget_never_set:
  assumes "goal_reach a w0 w loads" and "goals (gw_db w0) = []" and "g \<in> set (goals (gw_db w))"
  shows "g_budget g = None \<and> g_status g \<in> {status_active, status_paused, status_complete}"
  using reach_unbudgeted [OF assms(1,2)] assms(3) by (auto simp: unbudgeted_def)

text \<open>The wrapper of the prompt holds: the angle brackets of a rendered prompt are those of the
  template itself, whatever the objective of the goal contains, and the objective can be read back
  from its escaped form.\<close>

theorem prompt_keeps_markup:
  "filter is_markup (render t g) = concat (map (\<lambda>p. case p of Lit s \<Rightarrow> filter is_markup s | _ \<Rightarrow> []) t)
   \<and> unescape_xml (render_part g Objective) = g_objective g"
proof -
  have "filter is_markup (render t g) = concat (map (filter is_markup \<circ> render_part g) t)"
    by (simp add: render_def filter_concat)
  then show ?thesis by (simp add: comp_def render_part_markup unescape_escape)
qed

text \<open>A failure to read the goal is reported as if there were none: with the store wired, every
  form of the command except creation answers \<open>No goal set.\<close> when the query fails.\<close>

theorem goal_read_error_hidden:
  assumes "ga_store a" and "select_fault (gw_db w) = Some err"
    and "args = [] \<or> args = [''pause''] \<or> args = [''resume''] \<or> args = [''clear'']"
  shows "slash_goal now i a m args w = (w, say ''No goal set.'')"
proof -
  have "to_lower ''pause'' = ''pause''" "to_lower ''resume'' = ''resume''" "to_lower ''clear'' = ''clear''"
    by (simp_all add: to_lower_def lower_byte_def in_range_def)
  with assms show ?thesis
    by (auto simp: slash_goal_def Let_def slash_goal_show_def slash_goal_pause_def slash_goal_resume_def
        slash_goal_clear_def transition_goal_def with_goal_def go_pair_def get_goal_by_session_def say_def)
qed

lemma get_goal_cong:
  "goals d = goals d' \<Longrightarrow> select_fault d = select_fault d' \<Longrightarrow>
    get_goal_by_session d agent s = get_goal_by_session d' agent s"
  by (simp add: get_goal_by_session_def split: option.split)

lemma get_after_update:
  assumes "get_goal_by_session db agent s = Inr g" "update_fault db = None" "g_id g \<noteq> []" "g_id x = g_id g"
  shows "get_goal_by_session (fst (update_goal now x db)) agent s = Inr (stamp x now g)"
    and "snd (update_goal now x db) = None" and "update_fault (fst (update_goal now x db)) = None"
proof -
  from get_goal_Inr [OF assms(1)] have g: "g \<in> set (goals db)" "select_fault db = None" by auto
  have "select_fault (fst (update_goal now x db)) = None"
    using g(2) by (simp add: update_goal_def split: option.splits)
  moreover have "tbl_first (\<lambda>r. g_agent r = agent \<and> g_session r = s) (goals db) = Some g"
    using assms(1) g(2) by (simp add: get_goal_by_session_def split: option.splits)
  ultimately show "get_goal_by_session (fst (update_goal now x db)) agent s = Inr (stamp x now g)"
    using assms(2-4) by (simp add: get_goal_by_session_def update_goal_rows tbl_first_update)
  show "snd (update_goal now x db) = None"
    using g(1) assms(2-4) by (auto simp: update_goal_def tbl_affected_zero split: option.splits)
  show "update_fault (fst (update_goal now x db)) = None"
    using assms(2) by (simp add: update_goal_def split: option.splits)
qed

lemma transition_done:
  assumes "get_goal_by_session (gw_db w) agent s = Inr g" "update_fault (gw_db w) = None" "g_id g \<noteq> []"
    and "g_status g = old"
  shows "transition_write now old new wrong g w =
    (w\<lparr>gw_db := fst (update_goal now (g\<lparr>g_status := new\<rparr>) (gw_db w))\<rparr>, say [])"
  using get_after_update(2) [OF assms(1-3), of "g\<lparr>g_status := new\<rparr>" now] assms(4)
  by (auto simp: transition_write_def split: prod.splits)

text \<open>A pause can be lost. When the pause command runs between the accounting hook's read and
  its write, the command reports success and the goal is paused, and the hook's write makes it active
  again, so the end of the turn queues the next continuation.\<close>

theorem goal_pause_undone:
  assumes "get_goal_by_session (gw_db w) (ga_name a) (ga_session a m) = Inr g"
    and "g_status g = status_active" and "g_id g \<noteq> []" and "update_fault (gw_db w) = None"
    and "g_budget g = None" and "0 \<le> u_input u" and "0 \<le> u_output u"
    and "0 < u_input u + u_output u" and "u_input u + u_output u < 2 ^ 63"
  shows "\<exists>w1 g1 g2. slash_goal_pause now a m w = (w1, say []) \<and>
    get_goal_by_session (gw_db w1) (ga_name a) (ga_session a m) = Inr g1 \<and> g_status g1 = status_paused \<and>
    get_goal_by_session (gw_db (account_write later a u g w1)) (ga_name a) (ga_session a m) = Inr g2 \<and>
    g_status g2 = status_active"
proof -
  let ?p = "g\<lparr>g_status := status_paused\<rparr>"
  let ?w1 = "w\<lparr>gw_db := fst (update_goal now ?p (gw_db w))\<rparr>"
  let ?x = "fst (fold_usage g (u_input u) (u_output u))"
  note up = get_after_update [OF assms(1,4,3), of ?p now, simplified]
  have "slash_goal_pause now a m w = (?w1, say [])"
    using assms(1) transition_done [OF assms(1,4,3,2)]
    by (simp add: slash_goal_pause_def transition_goal_def with_goal_def go_pair_def)
  moreover have x: "g_id ?x = g_id (stamp ?p now g)" "g_status ?x = status_active"
    using fold_usage_status [of g "u_input u" "u_output u"] assms(2,5) by (auto simp: fold_usage_fields)
  from assms(2,5-9) have "\<exists>d. fold_usage g (u_input u) (u_output u) = (?x, d, False) \<and> d \<noteq> 0"
    by (simp add: fold_usage_def Let_def)
  with assms(2) have "goals (gw_db (account_write later a u g ?w1)) =
      goals (fst (update_goal later ?x (gw_db ?w1)))" and
    "select_fault (gw_db (account_write later a u g ?w1)) = select_fault (fst (update_goal later ?x (gw_db ?w1)))"
    by (auto simp: account_write_def split: prod.splits option.splits)
  then have "get_goal_by_session (gw_db (account_write later a u g ?w1)) (ga_name a) (ga_session a m)
      = get_goal_by_session (fst (update_goal later ?x (gw_db ?w1))) (ga_name a) (ga_session a m)"
    by (rule get_goal_cong)
  moreover have "get_goal_by_session (fst (update_goal later ?x (gw_db ?w1))) (ga_name a) (ga_session a m)
      = Inr (stamp ?x later (stamp ?p now g))"
    using get_after_update(1) [OF up(1) up(3) _ x(1), of later] assms(3) by simp
  ultimately show ?thesis using up(1) x(2)
    by (intro exI [of _ ?w1] exI [of _ "stamp ?p now g"] exI [of _ "stamp ?x later (stamp ?p now g)"])
      simp
qed

section \<open>Handlers one at a time\<close>

datatype goal_call =
    Call_Slash instant string inbound_message "string list"
  | Call_Account instant bool "call_usage option" string
  | Call_Complete instant "string option" string
  | Call_Turn_End string bool string
  | Call_New_Session string

fun run_goal_call :: "goal_agent \<Rightarrow> goal_call \<Rightarrow> goal_world \<Rightarrow> goal_world" where
  "run_goal_call a (Call_Slash now i m args) w = fst (slash_goal now i a m args w)"
| "run_goal_call a (Call_Account now failed resp s) w = token_accounting_hook now a failed resp s w"
| "run_goal_call a (Call_Complete now status s) w = fst (update_goal_tool now a status s w)"
| "run_goal_call a (Call_Turn_End src pm s) w = goal_trigger_hook a src pm s w"
| "run_goal_call a (Call_New_Session s) w = clear_goal_for_session a s w"

fun makes_id :: "string \<Rightarrow> goal_call \<Rightarrow> bool" where
  "makes_id i (Call_Slash now j m args) = (j = i)"
| "makes_id i _ = False"

text \<open>A finished goal is the only row with its id.\<close>

definition sealed :: "goal \<Rightarrow> goal list \<Rightarrow> bool" where
  "sealed g rows = (distinct (map g_id rows) \<and> (\<forall>r \<in> set rows. g_id r = g_id g \<longrightarrow> r = g))"

lemma sealed_update:
  assumes "sealed g (goals db)" "r \<in> set (goals db)" "g_status r \<noteq> g_status g" "g_id x = g_id r"
  shows "sealed g (goals (fst (update_goal now x db)))"
proof -
  from assms have "g_id x \<noteq> g_id g" by (auto simp: sealed_def)
  moreover have "map g_id (goals (fst (update_goal now x db))) = map g_id (goals db)"
    by (simp add: update_goal_rows tbl_update_key)
  moreover have "set (goals (fst (update_goal now x db))) \<subseteq>
      set (goals db) \<union> stamp x now ` {y. g_id y = g_id x}"
    by (auto simp: update_goal_rows tbl_update_def)
  ultimately show ?thesis using assms(1) unfolding sealed_def by fastforce
qed

lemma sealed_subset: "sealed g rows \<Longrightarrow> sealed g (tbl_delete p rows)"
  by (auto simp: sealed_def tbl_delete_def distinct_map inj_on_def)

definition finished_goal :: "goal \<Rightarrow> bool" where
  "finished_goal g = (g_status g = status_complete \<or> g_status g = status_budget_limited)"

lemma finished_goalD: "finished_goal g \<Longrightarrow> g_status g \<noteq> status_active \<and> g_status g \<noteq> status_paused"
  by (auto simp: finished_goal_def status_defs)

lemma sealed_account:
  "sealed g (goals (gw_db w)) \<Longrightarrow> r \<in> set (goals (gw_db w)) \<Longrightarrow> finished_goal g \<Longrightarrow>
    sealed g (goals (gw_db (account_write now a u r w)))"
  using account_write_rows [of now a u r w] finished_goalD [of g]
    sealed_update [of g "gw_db w" r "fst (fold_usage r (u_input u) (u_output u))" now]
  by (auto simp: fold_usage_fields)

lemma sealed_complete:
  "sealed g (goals (gw_db w)) \<Longrightarrow> r \<in> set (goals (gw_db w)) \<Longrightarrow> finished_goal g \<Longrightarrow>
    sealed g (goals (gw_db (fst (complete_write now r w))))"
  using complete_write_rows [of now r w] finished_goalD [of g]
    sealed_update [of g "gw_db w" r "r\<lparr>g_status := status_complete\<rparr>" now] by auto

lemma sealed_transition:
  "sealed g (goals (gw_db w)) \<Longrightarrow> r \<in> set (goals (gw_db w)) \<Longrightarrow> finished_goal g \<Longrightarrow>
    old = status_active \<or> old = status_paused \<Longrightarrow>
    sealed g (goals (gw_db (fst (transition_write now old new wrong r w))))"
  using transition_write_rows [of now old new wrong r w] finished_goalD [of g]
    sealed_update [of g "gw_db w" r "r\<lparr>g_status := new\<rparr>" now] by auto

lemma sealed_create:
  assumes "sealed g (goals (gw_db w))" "i \<noteq> g_id g"
  shows "sealed g (goals (gw_db (fst (slash_goal_create now i a m obj w))))"
  using create_rows [of now i a m obj w] assms by (auto simp: sealed_def same_slot_def) metis

lemma sealed_with_goal:
  assumes "sealed g (goals (gw_db w))"
    and "\<And>r. r \<in> set (goals (gw_db w)) \<Longrightarrow> sealed g (goals (gw_db (fst (k r))))"
  shows "sealed g (goals (gw_db (fst (with_goal (get_goal_by_session (gw_db w) agent s) k w))))"
  using assms get_goal_Inr [of "gw_db w" agent s]
  by (auto simp: with_goal_def go_pair_def split: sum.splits)

lemma sealed_clear: "sealed g (goals (gw_db w)) \<Longrightarrow> sealed g (goals (gw_db (fst (clear_write r w))))"
  by (auto simp: clear_write_def delete_goal_def sealed_subset split: prod.splits option.splits)

lemma sealed_call:
  assumes s: "sealed g (goals (gw_db w))" and f: "finished_goal g" and "\<not> makes_id (g_id g) c"
  shows "sealed g (goals (gw_db (run_goal_call a c w)))"
proof (cases c)
  case (Call_Slash now i m args)
  have "sealed g (goals (gw_db (fst (transition_goal now a m old new wrong w))))"
    if "old = status_active \<or> old = status_paused" for old new wrong
    unfolding transition_goal_def by (rule sealed_with_goal [OF s]) (rule sealed_transition [OF s _ f that])
  moreover have "sealed g (goals (gw_db (fst (slash_goal_show a m w))))"
    unfolding slash_goal_show_def by (rule sealed_with_goal [OF s]) (simp add: s)
  moreover have "sealed g (goals (gw_db (fst (slash_goal_clear a m w))))"
    unfolding slash_goal_clear_def by (rule sealed_with_goal [OF s]) (rule sealed_clear [OF s])
  moreover have "sealed g (goals (gw_db (fst (slash_goal_create now i a m obj w))))" for obj
    using Call_Slash assms(3) by (intro sealed_create [OF s]) auto
  ultimately show ?thesis
    using Call_Slash s by (simp add: slash_goal_def slash_goal_pause_def slash_goal_resume_def Let_def split: prod.split)
      (metis fst_conv)
next
  case (Call_Account now failed resp sess)
  then show ?thesis using s sealed_account [OF s _ f] get_goal_Inr
    by (auto simp: token_accounting_hook_def split: option.splits sum.splits)
next
  case (Call_Complete now status sess)
  then show ?thesis using s sealed_complete [OF s _ f] get_goal_Inr
    by (auto simp: update_goal_tool_def split: option.splits sum.splits)
next
  case (Call_New_Session sess)
  then show ?thesis using s
    by (auto simp: clear_goal_for_session_def delete_goal_def sealed_subset split: sum.splits option.splits)
qed (use s in simp)


section \<open>Instances\<close>

definition demo_goal :: goal where
  "demo_goal = \<lparr>g_id = ''g'', g_agent = ''a'', g_session = ''s'', g_owner = ''u'', g_channel = ''web'',
     g_account = [], g_chat = ''c'', g_project = [], g_objective = ''x'', g_status = status_active,
     g_budget = None, g_used = 0, g_created = Some 0, g_updated = Some 0\<rparr>"

definition demo_world :: "goal list \<Rightarrow> string option \<Rightarrow> goal_world" where
  "demo_world gs err = \<lparr>gw_db = \<lparr>goals = gs, insert_fault = None, select_fault = err, update_fault = None,
     delete_fault = None\<rparr>, gw_bus = Some (100, [])\<rparr>"

definition demo_agent :: goal_agent where
  "demo_agent = \<lparr>ga_name = ''a'', ga_owner = ''u'', ga_store = True, ga_session = (\<lambda>_. ''s''),
     ga_continuation = [Lit ''go: '', Objective], ga_wrapup = [Lit ''stop'']\<rparr>"

theorem goal_budget_never_set_witness:
  "\<exists>w g. g \<in> set (goals (gw_db w)) \<and> g_budget g = None \<and>
    w = fst (slash_goal_create 0 ''g'' demo_agent empty_message ''x'' (demo_world [] None))"
proof -
  let ?empty = "demo_world [] None"
  let ?w = "fst (slash_goal_create 0 ''g'' demo_agent empty_message ''x'' ?empty)"
  have r: "goal_reach demo_agent ?empty ?w {}" by (rule goal_reach.create [OF goal_reach.start])
  have "trim_space ''x'' = ''x''"
    by (simp add: trim_space_def trim_left_runes_def trim_right_runes_def is_space_def in_range_def)
  then have "\<exists>g. goals (gw_db ?w) = [g]"
    by (simp add: slash_goal_create_def create_goal_def demo_agent_def demo_world_def Let_def)
  then obtain g where "g \<in> set (goals (gw_db ?w))" by auto
  with goal_budget_never_set [OF r] show ?thesis by (auto simp: demo_world_def)
qed

theorem goal_read_error_hidden_witness:
  "slash_goal 0 ''g'' demo_agent empty_message [] (demo_world [demo_goal] (Some ''disk I/O error''))
    = (demo_world [demo_goal] (Some ''disk I/O error''), say ''No goal set.'')"
  by (rule goal_read_error_hidden) (simp_all add: demo_agent_def demo_world_def)

theorem goal_pause_undone_witness:
  "\<exists>w1 g1 g2. slash_goal_pause 0 demo_agent empty_message (demo_world [demo_goal] None) = (w1, say []) \<and>
    get_goal_by_session (gw_db w1) (ga_name demo_agent) (ga_session demo_agent empty_message) = Inr g1 \<and>
    g_status g1 = status_paused \<and>
    get_goal_by_session (gw_db (account_write 1 demo_agent \<lparr>u_input = 5, u_output = 7, u_cache_read = 0,
        u_cache_creation = 0\<rparr> demo_goal w1)) (ga_name demo_agent) (ga_session demo_agent empty_message) = Inr g2 \<and>
    g_status g2 = status_active"
  by (rule goal_pause_undone)
    (simp_all add: demo_agent_def demo_world_def demo_goal_def get_goal_by_session_def tbl_first_Cons)


end
