(* ===== verification/Usage.thy ===== *)
theory Usage
  imports Go_Time
begin

text \<open>
  Token metering and quotas, \<^verbatim>\<open>internal/usage\<close>: the in-memory and the SQL meter, the
  in-memory and the SQL quota store, the billing window and the quota check. The meter's interface
  is the locale \<open>token_meter\<close>, interpreted on both meters; the quota gate's bounds are proved in
  it. Counters are taken as unbounded integers, SQL days as the instants of their midnights (the
  text form compares the same way), and a query failure is a field of the database.
\<close>

section \<open>Records\<close>

record tokens =
  tk_input :: int
  tk_output :: int
  tk_cache_read :: int
  tk_cache_creation :: int

definition tokens_total :: "tokens \<Rightarrow> int" where
  "tokens_total t = tk_input t + tk_output t + tk_cache_read t + tk_cache_creation t"

text \<open>The zero time of a range end is \<open>None\<close>.\<close>

record day_range =
  since :: "instant option"
  until :: "instant option"

record totals =
  to_input :: int
  to_output :: int
  to_cache_read :: int
  to_cache_creation :: int
  to_requests :: int

record rank =
  rank_key :: string
  rank_tokens :: int
  rank_input :: int
  rank_output :: int
  rank_requests :: int

definition day_bucket :: "instant \<Rightarrow> instant" where
  "day_bucket t = (case date_of utc t of (y, m, d) \<Rightarrow> date_utc y m d)"

definition last_n :: "instant \<Rightarrow> int \<Rightarrow> day_range" where
  "last_n now n = (let today = day_bucket now
     in \<lparr>since = Some (today - (n - 1) * (24 * hour)), until = Some today\<rparr>)"

definition in_day_range :: "instant \<Rightarrow> day_range \<Rightarrow> bool" where
  "in_day_range day r =
     (if (case since r of None \<Rightarrow> False | Some s \<Rightarrow> day < s) then False
      else if (case until r of None \<Rightarrow> False | Some u \<Rightarrow> u < day) then False
      else True)"

section \<open>In-memory meter\<close>

record mem_key =
  k_day :: instant
  k_user :: string
  k_agent :: string
  k_session :: string
  k_provider :: string
  k_model :: string

text \<open>The map as the list of its entries, in the order in which it is iterated.\<close>

type_synonym mem_meter = "(mem_key \<times> totals) list"

definition empty_totals :: totals where
  "empty_totals = \<lparr>to_input = 0, to_output = 0, to_cache_read = 0, to_cache_creation = 0, to_requests = 0\<rparr>"

definition add_totals :: "totals \<Rightarrow> totals \<Rightarrow> totals" where
  "add_totals a b = \<lparr>to_input = to_input a + to_input b, to_output = to_output a + to_output b,
     to_cache_read = to_cache_read a + to_cache_read b,
     to_cache_creation = to_cache_creation a + to_cache_creation b,
     to_requests = to_requests a + to_requests b\<rparr>"

definition one_call :: "tokens \<Rightarrow> totals" where
  "one_call t = \<lparr>to_input = tk_input t, to_output = tk_output t, to_cache_read = tk_cache_read t,
     to_cache_creation = tk_cache_creation t, to_requests = 1\<rparr>"

text \<open>The bucket of a call; \<open>None\<close> for the day, which the clock gives.\<close>

record call_key =
  ck_user :: string
  ck_agent :: string
  ck_session :: string
  ck_provider :: string
  ck_model :: string

definition bucket_key :: "instant \<Rightarrow> call_key \<Rightarrow> mem_key" where
  "bucket_key now c = \<lparr>k_day = day_bucket now, k_user = ck_user c, k_agent = ck_agent c,
     k_session = ck_session c, k_provider = ck_provider c, k_model = ck_model c\<rparr>"

definition mem_record_tokens :: "mem_meter \<Rightarrow> instant \<Rightarrow> call_key \<Rightarrow> tokens \<Rightarrow> mem_meter" where
  "mem_record_tokens m now c t =
     (let k = bucket_key now c
      in if map_of m k = None then m @ [(k, add_totals empty_totals (one_call t))]
         else map (\<lambda>(k', x). (k', if k' = k then add_totals x (one_call t) else x)) m)"

definition sum_cells :: "totals list \<Rightarrow> totals" where
  "sum_cells xs = foldl add_totals empty_totals xs"

definition mem_totals :: "mem_meter \<Rightarrow> day_range \<Rightarrow> totals" where
  "mem_totals m r = sum_cells (map snd (filter (\<lambda>(k, _). in_day_range (k_day k) r) m))"

definition mem_totals_for_user :: "mem_meter \<Rightarrow> string \<Rightarrow> day_range \<Rightarrow> totals" where
  "mem_totals_for_user m uid r =
     sum_cells (map snd (filter (\<lambda>(k, _). k_user k = uid \<and> in_day_range (k_day k) r) m))"

definition cell_tokens :: "totals \<Rightarrow> int" where
  "cell_tokens x = to_input x + to_output x + to_cache_read x + to_cache_creation x"

definition add_rank :: "string \<Rightarrow> totals \<Rightarrow> rank list \<Rightarrow> rank list" where
  "add_rank key x rs =
     (let bump = (\<lambda>r. r\<lparr>rank_input := rank_input r + to_input x, rank_output := rank_output r + to_output x,
              rank_tokens := rank_tokens r + cell_tokens x, rank_requests := rank_requests r + to_requests x\<rparr>)
      in if (\<exists>r \<in> set rs. rank_key r = key) then map (\<lambda>r. if rank_key r = key then bump r else r) rs
         else rs @ [bump \<lparr>rank_key = key, rank_tokens = 0, rank_input = 0, rank_output = 0, rank_requests = 0\<rparr>])"

text \<open>The leaderboards: one row per key, by tokens, the first \<open>limit\<close> of them when it is
  positive.\<close>

definition limited :: "int \<Rightarrow> rank list \<Rightarrow> rank list" where
  "limited limit rs = (if 0 < limit \<and> limit < int (length rs) then take (nat limit) rs else rs)"

definition mem_rank_by :: "(mem_key \<Rightarrow> bool) \<Rightarrow> (mem_key \<Rightarrow> string) \<Rightarrow> mem_meter \<Rightarrow> day_range \<Rightarrow> int \<Rightarrow> rank list" where
  "mem_rank_by keep key m r limit =
     limited limit (sort_key (\<lambda>x. - rank_tokens x)
       (foldl (\<lambda>rs (k, x). add_rank (key k) x rs) []
         (filter (\<lambda>(k, _). keep k \<and> in_day_range (k_day k) r) m)))"

definition mem_rank :: "mem_meter \<Rightarrow> day_range \<Rightarrow> int \<Rightarrow> (mem_key \<Rightarrow> string) \<Rightarrow> rank list" where
  "mem_rank m r limit key = mem_rank_by (\<lambda>_. True) key m r limit"

definition mem_sessions_for_agent :: "mem_meter \<Rightarrow> string \<Rightarrow> string \<Rightarrow> day_range \<Rightarrow> int \<Rightarrow> rank list" where
  "mem_sessions_for_agent m agent uid r limit =
     mem_rank_by (\<lambda>k. k_agent k = agent \<and> (uid = [] \<or> k_user k = uid)) k_session m r limit"

section \<open>SQL meter\<close>

record usage_row =
  ur_key :: mem_key
  ur_cell :: totals
  ur_channel :: string
  ur_chatter :: string

record usage_db =
  usage_rows :: "usage_row list"
  usage_fault :: "string option"

text \<open>The UPSERT of one call; the channel and the chatter come from the context.\<close>

definition sql_record_tokens :: "usage_db \<Rightarrow> instant \<Rightarrow> string \<Rightarrow> string \<Rightarrow> call_key \<Rightarrow> tokens
    \<Rightarrow> usage_db \<times> string option" where
  "sql_record_tokens db now channel chatter c t = (case usage_fault db of
     Some m \<Rightarrow> (db, Some m)
   | None \<Rightarrow>
       (let k = bucket_key now c
        in (db\<lparr>usage_rows :=
              (if tbl_first (\<lambda>x. ur_key x = k) (usage_rows db) \<noteq> None
               then tbl_update (\<lambda>x. ur_key x = k) (\<lambda>x. x\<lparr>ur_cell := add_totals (ur_cell x) (one_call t),
                      ur_channel := channel, ur_chatter := chatter\<rparr>) (usage_rows db)
               else usage_rows db @ [\<lparr>ur_key = k, ur_cell = one_call t, ur_channel = channel,
                      ur_chatter = chatter\<rparr>])\<rparr>, None)))"

text \<open>\<^verbatim>\<open>day BETWEEN since AND until\<close>: a zero time is bound as 1 January of year 1.\<close>

definition zero_day :: instant where "zero_day = date_utc 1 1 1"

definition day_param :: "instant option \<Rightarrow> instant" where
  "day_param t = (case t of None \<Rightarrow> zero_day | Some x \<Rightarrow> x)"

definition day_between :: "day_range \<Rightarrow> usage_row \<Rightarrow> bool" where
  "day_between r x = (day_param (since r) \<le> k_day (ur_key x) \<and> k_day (ur_key x) \<le> day_param (until r))"

definition sql_totals :: "usage_db \<Rightarrow> day_range \<Rightarrow> string + totals" where
  "sql_totals db r = (case usage_fault db of
     Some m \<Rightarrow> Inl m | None \<Rightarrow> Inr (sum_cells (map ur_cell (tbl_select (day_between r) (usage_rows db)))))"

definition sql_totals_for_user :: "usage_db \<Rightarrow> string \<Rightarrow> day_range \<Rightarrow> string + totals" where
  "sql_totals_for_user db uid r = (case usage_fault db of
     Some m \<Rightarrow> Inl m
   | None \<Rightarrow> Inr (sum_cells (map ur_cell
       (tbl_select (\<lambda>x. k_user (ur_key x) = uid \<and> day_between r x) (usage_rows db)))))"

text \<open>GROUP BY key, ORDER BY tokens DESC, LIMIT.\<close>

definition group_ranks :: "(usage_row \<Rightarrow> string) \<Rightarrow> usage_row list \<Rightarrow> rank list" where
  "group_ranks key rows = map (\<lambda>g. let xs = map ur_cell (filter (\<lambda>x. key x = g) rows); s = sum_cells xs
     in \<lparr>rank_key = g, rank_tokens = cell_tokens s, rank_input = to_input s, rank_output = to_output s,
         rank_requests = to_requests s\<rparr>) (remdups (map key rows))"

definition sql_top_by :: "usage_db \<Rightarrow> day_range \<Rightarrow> int \<Rightarrow> (mem_key \<Rightarrow> string) \<Rightarrow> string + rank list" where
  "sql_top_by db r limit key = (let n = (if limit \<le> 0 then 20 else limit)
     in case usage_fault db of
          Some m \<Rightarrow> Inl m
        | None \<Rightarrow> Inr (take (nat n) (sort_key (\<lambda>x. - rank_tokens x)
            (group_ranks (key \<circ> ur_key) (tbl_select (day_between r) (usage_rows db))))))"

definition sql_sessions_for_agent :: "usage_db \<Rightarrow> string \<Rightarrow> string \<Rightarrow> day_range \<Rightarrow> int \<Rightarrow> string + rank list" where
  "sql_sessions_for_agent db agent uid r limit = (let n = (if limit \<le> 0 then 50 else limit)
     in case usage_fault db of
          Some m \<Rightarrow> Inl m
        | None \<Rightarrow> Inr (take (nat n) (sort_key (\<lambda>x. - rank_tokens x)
            (group_ranks (k_session \<circ> ur_key) (tbl_select (\<lambda>x. k_agent (ur_key x) = agent \<and>
               (uid = [] \<or> k_user (ur_key x) = uid) \<and> day_between r x) (usage_rows db))))))"

section \<open>Quotas\<close>

record quota =
  q_user :: string
  q_tokens :: int
  q_requests :: int
  q_reset_day :: int

record quota_status =
  qs_allowed :: bool
  qs_token_limit :: int
  qs_request_limit :: int
  qs_tokens_used :: int
  qs_requests_used :: int
  qs_resets_at :: "instant option"

text \<open>The reset date is kept as an instant; its RFC 3339 text is not rendered.\<close>

definition unlimited_status :: quota_status where
  "unlimited_status = \<lparr>qs_allowed = True, qs_token_limit = 0, qs_request_limit = 0, qs_tokens_used = 0,
     qs_requests_used = 0, qs_resets_at = None\<rparr>"

definition current_billing_window :: "instant \<Rightarrow> int \<Rightarrow> instant \<times> instant" where
  "current_billing_window now reset_day =
     (let rd = (if reset_day < 1 \<or> 28 < reset_day then 1 else reset_day)
      in case date_of utc now of (y, m, d) \<Rightarrow>
        if d \<ge> rd then (date_utc y m rd, date_utc y (m + 1) (rd - 1))
        else (date_utc y (m - 1) rd, date_utc y m (rd - 1)))"

definition check_quota :: "(string \<Rightarrow> string + quota) \<Rightarrow> (string \<Rightarrow> day_range \<Rightarrow> string + totals)
    \<Rightarrow> instant \<Rightarrow> string \<Rightarrow> quota_status" where
  "check_quota get tot now uid = (case get uid of
     Inl _ \<Rightarrow> unlimited_status
   | Inr q \<Rightarrow>
       if q_tokens q \<le> 0 \<and> q_requests q \<le> 0 then unlimited_status
       else (case current_billing_window now (q_reset_day q) of (s, u) \<Rightarrow>
         case tot uid \<lparr>since = Some s, until = Some u\<rparr> of
           Inl _ \<Rightarrow> unlimited_status
         | Inr x \<Rightarrow>
             (let used = to_input x + to_output x + to_cache_read x + to_cache_creation x
              in \<lparr>qs_allowed = (if 0 < q_requests q \<and> to_requests x \<ge> q_requests q then False
                     else if 0 < q_tokens q \<and> used \<ge> q_tokens q then False else True),
                  qs_token_limit = q_tokens q, qs_request_limit = q_requests q,
                  qs_tokens_used = used, qs_requests_used = to_requests x,
                  qs_resets_at = Some (u + 24 * hour)\<rparr>)))"

text \<open>The stores. \<^verbatim>\<open>MemQuotaStore\<close> is a map; the SQL table has one row per user.\<close>

type_synonym mem_quotas = "string \<Rightarrow> quota option"

definition mem_get_quota :: "mem_quotas \<Rightarrow> string \<Rightarrow> string + quota" where
  "mem_get_quota m uid = (case m uid of None \<Rightarrow> Inl (''no quota for user '' @ uid) | Some q \<Rightarrow> Inr q)"

definition mem_set_quota :: "mem_quotas \<Rightarrow> quota \<Rightarrow> mem_quotas" where
  "mem_set_quota m q = m(q_user q \<mapsto> q)"

definition mem_delete_quota :: "mem_quotas \<Rightarrow> string \<Rightarrow> mem_quotas" where
  "mem_delete_quota m uid = m(uid := None)"

record quota_db =
  quota_rows :: "quota list"
  quota_fault :: "string option"

definition sql_get_quota :: "quota_db \<Rightarrow> string \<Rightarrow> string + quota" where
  "sql_get_quota db uid = (case quota_fault db of
     Some m \<Rightarrow> Inl m
   | None \<Rightarrow> (case tbl_first (\<lambda>q. q_user q = uid) (quota_rows db) of
       None \<Rightarrow> Inl (''no quota for user '' @ uid) | Some q \<Rightarrow> Inr q))"

definition sql_set_quota :: "quota_db \<Rightarrow> quota \<Rightarrow> quota_db \<times> string option" where
  "sql_set_quota db q = (case quota_fault db of
     Some m \<Rightarrow> (db, Some m)
   | None \<Rightarrow> (db\<lparr>quota_rows :=
        (if tbl_first (\<lambda>r. q_user r = q_user q) (quota_rows db) \<noteq> None
         then tbl_update (\<lambda>r. q_user r = q_user q) (\<lambda>r. r\<lparr>q_tokens := q_tokens q,
                q_requests := q_requests q, q_reset_day := q_reset_day q\<rparr>) (quota_rows db)
         else quota_rows db @ [q])\<rparr>, None))"

definition sql_delete_quota :: "quota_db \<Rightarrow> string \<Rightarrow> quota_db \<times> string option" where
  "sql_delete_quota db uid = (case quota_fault db of
     Some m \<Rightarrow> (db, Some m)
   | None \<Rightarrow> (db\<lparr>quota_rows := tbl_delete (\<lambda>r. q_user r = uid) (quota_rows db)\<rparr>, None))"

section \<open>The billing window\<close>

text \<open>With reset day \<open>rd\<close>, billing month \<open>j\<close> starts on day \<open>bill_start rd j\<close>.\<close>

definition bill_start :: "int \<Rightarrow> int \<Rightarrow> int" where
  "bill_start rd j = month_start j + rd - 1"

definition reset_of :: "int \<Rightarrow> int" where
  "reset_of rd = (if rd < 1 \<or> 28 < rd then 1 else rd)"

lemma bill_start_mono: "i < j \<Longrightarrow> bill_start rd (i + 1) \<le> bill_start rd j"
  using month_start_mono [of i j] by (simp add: bill_start_def)

lemma bill_unique:
  assumes "bill_start rd i \<le> z" "z < bill_start rd (i + 1)" "bill_start rd j \<le> z" "z < bill_start rd (j + 1)"
  shows "i = j"
  using assms bill_start_mono [of i j rd] bill_start_mono [of j i rd] by (cases i j rule: linorder_cases) auto

lemma day_bucket_days: "day_bucket t = days_of utc t * (24 * hour)"
proof -
  obtain y m d where c: "date_of utc t = (y, m, d)" by (cases "date_of utc t")
  then have "days_of utc t = month_start (12 * y + m - 1) + (d - 1)"
    using civil_month(1) by (simp add: date_of_def)
  with c show ?thesis by (simp add: day_bucket_def date_utc_month)
qed

lemma billing_window_month:
  fixes rd now
  defines "r \<equiv> reset_of rd"
  obtains j where "current_billing_window now rd = (bill_start r j * (24 * hour), (bill_start r (j + 1) - 1) * (24 * hour))"
    and "bill_start r j \<le> days_of utc now" "days_of utc now < bill_start r (j + 1)"
proof -
  obtain y m d where c: "date_of utc now = (y, m, d)" by (cases "date_of utc now")
  then have c': "civil_from_days (days_of utc now) = (y, m, d)" by (simp add: date_of_def)
  define k where "k = 12 * y + m - 1"
  have z: "days_of utc now = month_start k + (d - 1)" "1 \<le> d" "days_of utc now < month_start (k + 1)"
    using civil_month [OF c'] by (simp_all add: k_def)
  have r: "1 \<le> r" "r \<le> 28" by (auto simp: r_def reset_of_def)
  have dates: "date_utc y (m + i) e = (month_start (k + i) + (e - 1)) * (24 * hour)" for i e
    by (simp add: date_utc_month k_def algebra_simps)
  note dates0 = dates [of 0, simplified] and dates1 = dates [of "-1", simplified]
  have w: "current_billing_window now rd =
      (if d \<ge> r then (date_utc y m r, date_utc y (m + 1) (r - 1)) else (date_utc y (m - 1) r, date_utc y m (r - 1)))"
    by (simp add: current_billing_window_def c r_def reset_of_def Let_def)
  show ?thesis
  proof (cases "d \<ge> r")
    case True
    show ?thesis
    proof (rule that [of k])
      show "current_billing_window now rd = (bill_start r k * (24 * hour), (bill_start r (k + 1) - 1) * (24 * hour))"
        unfolding w if_P [OF True] dates0 dates bill_start_def by (simp add: algebra_simps)
    qed (use True z r month_start_gap [of k] in \<open>simp_all add: bill_start_def\<close>)
  next
    case False
    show ?thesis
    proof (rule that [of "k - 1"])
      show "current_billing_window now rd =
          (bill_start r (k - 1) * (24 * hour), (bill_start r (k - 1 + 1) - 1) * (24 * hour))"
        unfolding w if_not_P [OF False] dates0 dates1 bill_start_def by (simp add: algebra_simps)
    qed (use False z r month_start_gap [of "k - 1"] in \<open>simp_all add: bill_start_def\<close>)
  qed
qed

text \<open>The billing windows of a reset day partition the days: the window of an instant holds its
  day, every instant whose day lies in it has the same window, and the day after it, which is
  reported as the reset date, starts the next window.\<close>

theorem billing_windows_partition:
  assumes "current_billing_window now rd = (s, u)"
  shows "s \<le> day_bucket now \<and> day_bucket now \<le> u \<and>
    (\<forall>t. s \<le> day_bucket t \<and> day_bucket t \<le> u \<longrightarrow> current_billing_window t rd = (s, u)) \<and>
    (\<forall>t. day_bucket t = u + 24 * hour \<longrightarrow> fst (current_billing_window t rd) = u + 24 * hour)"
proof -
  let ?r = "reset_of rd"
  from billing_window_month [of now rd] obtain j where
    j: "current_billing_window now rd = (bill_start ?r j * (24 * hour), (bill_start ?r (j + 1) - 1) * (24 * hour))"
    "bill_start ?r j \<le> days_of utc now" "days_of utc now < bill_start ?r (j + 1)" .
  with assms have su: "s = bill_start ?r j * (24 * hour)" "u = (bill_start ?r (j + 1) - 1) * (24 * hour)" by simp_all
  have "current_billing_window t rd = (s, u)" if "s \<le> day_bucket t" "day_bucket t \<le> u" for t
  proof -
    from billing_window_month [of t rd] obtain i where
      i: "current_billing_window t rd = (bill_start ?r i * (24 * hour), (bill_start ?r (i + 1) - 1) * (24 * hour))"
      "bill_start ?r i \<le> days_of utc t" "days_of utc t < bill_start ?r (i + 1)" .
    have "i = j" by (rule bill_unique [OF i(2,3)]) (use that su in \<open>simp_all add: day_bucket_days\<close>)
    with i(1) su show ?thesis by simp
  qed
  moreover have "fst (current_billing_window t rd) = u + 24 * hour" if "day_bucket t = u + 24 * hour" for t
  proof -
    from billing_window_month [of t rd] obtain i where
      i: "current_billing_window t rd = (bill_start ?r i * (24 * hour), (bill_start ?r (i + 1) - 1) * (24 * hour))"
      "bill_start ?r i \<le> days_of utc t" "days_of utc t < bill_start ?r (i + 1)" .
    from that su have d: "days_of utc t = bill_start ?r (j + 1)" by (simp add: day_bucket_days)
    have "bill_start ?r (j + 1) < bill_start ?r (j + 1 + 1)"
      using month_start_gap [of "j + 1"] by (simp add: bill_start_def)
    then have "i = j + 1" by (intro bill_unique [OF i(2,3)]) (simp_all add: d)
    with i(1) su show ?thesis by simp
  qed
  ultimately show ?thesis using j(2,3) su by (simp add: day_bucket_days)
qed

lemma window_15: "current_billing_window (15 * (24 * hour)) 15 = (14 * (24 * hour), 44 * (24 * hour))"
  by (simp add: current_billing_window_def date_of_def days_of_def local_seconds_def utc_def
      civil_from_days_def year_day_def date_utc_def days_from_civil_def Let_def)

theorem billing_windows_partition_witness:
  "current_billing_window (20 * (24 * hour)) 15 = (14 * (24 * hour), 44 * (24 * hour)) \<and>
   fst (current_billing_window (45 * (24 * hour)) 15) = 45 * (24 * hour)"
proof -
  from billing_windows_partition [OF window_15] show ?thesis
    by (simp add: day_bucket_days days_of_def local_seconds_def utc_def)
qed

section \<open>The meter as an interface\<close>

definition bounded :: "day_range \<Rightarrow> bool" where
  "bounded r = (since r \<noteq> None \<and> until r \<noteq> None)"

definition counts_for :: "string \<Rightarrow> day_range \<Rightarrow> instant \<Rightarrow> call_key \<Rightarrow> bool" where
  "counts_for u r t c = (ck_user c = u \<and> in_day_range (day_bucket t) r)"

text \<open>One user turn: the instant of its quota check and the model calls made in it. The agent
  checks once, when the turn starts, and records every call.\<close>

type_synonym metered_call = "instant \<times> call_key \<times> tokens"

definition run_calls :: "('m \<Rightarrow> instant \<Rightarrow> call_key \<Rightarrow> tokens \<Rightarrow> 'm) \<Rightarrow> metered_call list \<Rightarrow> 'm \<Rightarrow> 'm" where
  "run_calls recd calls m = foldl (\<lambda>m (t, c, k). recd m t c k) m calls"

definition run_turn :: "(string \<Rightarrow> string + quota) \<Rightarrow> ('m \<Rightarrow> instant \<Rightarrow> call_key \<Rightarrow> tokens \<Rightarrow> 'm)
    \<Rightarrow> ('m \<Rightarrow> string \<Rightarrow> day_range \<Rightarrow> string + totals) \<Rightarrow> string \<Rightarrow> instant \<times> metered_call list \<Rightarrow> 'm \<Rightarrow> 'm" where
  "run_turn get recd tot u turn m = (case turn of (t, calls) \<Rightarrow>
     if qs_allowed (check_quota get (tot m) t u) then run_calls recd calls m else m)"

locale token_meter =
  fixes recd :: "'m \<Rightarrow> instant \<Rightarrow> call_key \<Rightarrow> tokens \<Rightarrow> 'm"
    and tot :: "'m \<Rightarrow> string \<Rightarrow> day_range \<Rightarrow> string + totals"
    and ok :: "'m \<Rightarrow> bool"
  assumes ok_recd: "ok m \<Longrightarrow> ok (recd m t c k)"
    and tot_ok: "ok m \<Longrightarrow> \<exists>x. tot m u r = Inr x"
    and tot_recd: "ok m \<Longrightarrow> bounded r \<Longrightarrow> tot m u r = Inr x \<Longrightarrow>
      tot (recd m t c k) u r = Inr (if counts_for u r t c then add_totals x (one_call k) else x)"
begin

lemma ok_calls: "ok m \<Longrightarrow> ok (run_calls recd calls m)"
  unfolding run_calls_def by (induction calls arbitrary: m) (auto simp: ok_recd split: prod.split)

lemma tot_calls:
  assumes "ok m" "bounded r" "tot m u r = Inr x"
  shows "tot (run_calls recd calls m) u r =
    Inr (foldl add_totals x (map (\<lambda>(t, c, k). one_call k) (filter (\<lambda>(t, c, k). counts_for u r t c) calls)))"
  using assms
proof (induction calls arbitrary: m x)
  case (Cons a calls)
  obtain t c k where a: "a = (t, c, k)" by (cases a)
  have "run_calls recd (a # calls) m = run_calls recd calls (recd m t c k)"
    by (simp add: run_calls_def a)
  with Cons.IH [OF ok_recd [OF Cons.prems(1)] Cons.prems(2) tot_recd [OF Cons.prems]] show ?case
    by (simp add: a)
qed (simp add: run_calls_def)

lemma requests_calls:
  assumes "ok m" "bounded r" "tot m u r = Inr x"
  shows "\<exists>y. tot (run_calls recd calls m) u r = Inr y \<and>
    to_requests y \<le> to_requests x + int (length calls)"
proof -
  have "to_requests (foldl add_totals x (map (\<lambda>(t, c, k). one_call k) cs)) = to_requests x + int (length cs)" for cs
    by (induction cs arbitrary: x) (auto simp: add_totals_def one_call_def)
  from this [of "filter (\<lambda>(t, c, k). counts_for u r t c) calls"] show ?thesis
    using tot_calls [OF assms, of calls] length_filter_le [of "\<lambda>(t, c, k). counts_for u r t c" calls] by simp
qed

lemma quota_turn:
  assumes ok: "ok m" and q: "get u = Inr q" "0 < q_requests q"
    and w: "current_billing_window t (q_reset_day q) = (s, e)" and n: "length calls \<le> n"
    and x: "tot m u \<lparr>since = Some s, until = Some e\<rparr> = Inr x" "to_requests x \<le> q_requests q - 1 + int n"
  shows "\<exists>y. tot (run_turn get recd tot u (t, calls) m) u \<lparr>since = Some s, until = Some e\<rparr> = Inr y \<and>
    to_requests y \<le> q_requests q - 1 + int n"
proof (cases "qs_allowed (check_quota get (tot m) t u)")
  case True
  then have "to_requests x \<le> q_requests q - 1"
    using q w x(1) by (simp add: check_quota_def Let_def split: if_splits)
  with requests_calls [OF ok _ x(1), of calls] n True show ?thesis
    by (auto simp: run_turn_def bounded_def)
qed (use x in \<open>simp add: run_turn_def\<close>)

lemma ok_turn: "ok m \<Longrightarrow> ok (run_turn get recd tot u turn m)"
  by (cases turn) (simp add: run_turn_def ok_calls)

lemma quota_turns:
  assumes "ok m" "get u = Inr q" "0 < q_requests q"
    and "\<forall>(t, calls) \<in> set turns. current_billing_window t (q_reset_day q) = (s, e) \<and> length calls \<le> n"
    and "tot m u \<lparr>since = Some s, until = Some e\<rparr> = Inr x" "to_requests x \<le> q_requests q - 1 + int n"
  shows "\<exists>y. tot (fold (run_turn get recd tot u) turns m) u \<lparr>since = Some s, until = Some e\<rparr> = Inr y \<and>
    to_requests y \<le> q_requests q - 1 + int n"
  using assms
proof (induction turns arbitrary: m x)
  case (Cons a turns)
  obtain t calls where a: "a = (t, calls)" by (cases a)
  with Cons.prems(4) have w: "current_billing_window t (q_reset_day q) = (s, e)" "length calls \<le> n" by auto
  from quota_turn [where get = get and u = u, OF Cons.prems(1-3) w Cons.prems(5,6)] obtain y where
    y: "tot (run_turn get recd tot u (t, calls) m) u \<lparr>since = Some s, until = Some e\<rparr> = Inr y"
      "to_requests y \<le> q_requests q - 1 + int n" by blast
  from Cons.IH [OF ok_turn [OF Cons.prems(1)] Cons.prems(2,3) _ y] Cons.prems(4) show ?case
    by (simp add: a)
qed simp

end

subsection \<open>Both meters provide it\<close>

lemma add_totals_assoc: "add_totals (add_totals a b) c = add_totals a (add_totals b c)"
  by (simp add: add_totals_def)

lemma add_totals_comm: "add_totals a b = add_totals b a"
  by (simp add: add_totals_def)

lemma add_totals_empty [simp]: "add_totals empty_totals a = a" "add_totals a empty_totals = a"
  by (simp_all add: add_totals_def empty_totals_def)

lemma foldl_add_totals: "foldl add_totals a xs = add_totals a (foldl add_totals empty_totals xs)"
proof (induction xs arbitrary: a)
  case (Cons x xs)
  have "foldl add_totals a (x # xs) = add_totals (add_totals a x) (foldl add_totals empty_totals xs)"
    using Cons [of "add_totals a x"] by simp
  also have "\<dots> = add_totals a (add_totals x (foldl add_totals empty_totals xs))" by (rule add_totals_assoc)
  also have "add_totals x (foldl add_totals empty_totals xs) = foldl add_totals empty_totals (x # xs)"
    using Cons [of x] by simp
  finally show ?case .
qed simp

lemma sum_cells_simps [simp]:
  "sum_cells [] = empty_totals" "sum_cells (x # xs) = add_totals x (sum_cells xs)"
  "sum_cells (xs @ ys) = add_totals (sum_cells xs) (sum_cells ys)"
  using foldl_add_totals [of x xs] foldl_add_totals [of "foldl add_totals empty_totals xs" ys]
  by (simp_all add: sum_cells_def)

text \<open>Adding to the one entry of a key adds to the sum over the entries selected by key.\<close>

lemma sum_bump:
  assumes "distinct (map k xs)" "x \<in> set xs" "k x = key" and "\<And>y. k (f y) = k y" "\<And>y. p (f y) = p y"
    and "\<And>y. v (f y) = add_totals (v y) d"
  shows "sum_cells (map v (filter p (map (\<lambda>y. if k y = key then f y else y) xs))) =
    (if p x then add_totals (sum_cells (map v (filter p xs))) d else sum_cells (map v (filter p xs)))"
  using assms(1-3)
proof (induction xs)
  case (Cons a xs)
  have none: "map (\<lambda>y. if k y = key then f y else y) xs = xs" if "key \<notin> k ` set xs"
    using that by (intro map_idI) auto
  show ?case
  proof (cases "a = x")
    case True
    with Cons.prems have "key \<notin> k ` set xs" by auto
    with True Cons.prems(3) none show ?thesis
      by (simp add: assms(5,6) add_totals_assoc) (metis add_totals_comm add_totals_assoc)
  next
    case False
    with Cons.prems have "x \<in> set xs" "k a \<noteq> key" by auto
    with Cons show ?thesis by (simp add: add_totals_assoc)
  qed
qed simp

lemma mem_record_new:
  "map_of m (bucket_key now c) = None \<Longrightarrow>
    mem_record_tokens m now c t = m @ [(bucket_key now c, one_call t)]"
  by (simp add: mem_record_tokens_def Let_def)

lemma mem_record_old:
  "map_of m (bucket_key now c) = Some x \<Longrightarrow> mem_record_tokens m now c t =
    map (\<lambda>y. if fst y = bucket_key now c then (fst y, add_totals (snd y) (one_call t)) else y) m"
  by (auto simp: mem_record_tokens_def Let_def)

definition selects :: "string \<Rightarrow> day_range \<Rightarrow> mem_key \<Rightarrow> bool" where
  "selects u r k = (k_user k = u \<and> in_day_range (k_day k) r)"

lemma selects_bucket: "selects u r (bucket_key t c) = counts_for u r t c"
  by (simp add: selects_def counts_for_def bucket_key_def)

lemma mem_totals_selects: "mem_totals_for_user m u r = sum_cells (map snd (filter (selects u r \<circ> fst) m))"
  by (simp add: mem_totals_for_user_def selects_def comp_def case_prod_unfold)

lemma mem_record_keys:
  "distinct (map fst m) \<Longrightarrow> distinct (map fst (mem_record_tokens m t c k))"
proof (cases "map_of m (bucket_key t c)")
  case None
  moreover assume "distinct (map fst m)"
  ultimately show ?thesis by (simp add: mem_record_new map_of_eq_None_iff)
next
  case (Some x)
  have "map fst (mem_record_tokens m t c k) = map fst m"
    by (simp add: mem_record_old [OF Some] comp_def if_distrib)
  moreover assume "distinct (map fst m)"
  ultimately show ?thesis by simp
qed

lemma mem_record_totals:
  assumes "distinct (map fst m)"
  shows "mem_totals_for_user (mem_record_tokens m t c k) u r =
    (if counts_for u r t c then add_totals (mem_totals_for_user m u r) (one_call k)
     else mem_totals_for_user m u r)"
proof (cases "map_of m (bucket_key t c)")
  case None
  then show ?thesis
    by (simp add: mem_record_new mem_totals_selects selects_bucket)
next
  case (Some x)
  then have x: "(bucket_key t c, x) \<in> set m" by (rule map_of_SomeD)
  show ?thesis
    using sum_bump [of fst m "(bucket_key t c, x)" "bucket_key t c"
        "\<lambda>y. (fst y, add_totals (snd y) (one_call k))" "selects u r \<circ> fst" snd "one_call k", OF assms x]
    by (simp add: mem_record_old [OF Some] mem_totals_selects selects_bucket)
qed

interpretation mem_meter: token_meter mem_record_tokens "\<lambda>m u r. Inr (mem_totals_for_user m u r)"
  "\<lambda>m. distinct (map fst m)"
  by unfold_locales (simp_all add: mem_record_keys mem_record_totals)

definition usage_ok :: "usage_db \<Rightarrow> bool" where
  "usage_ok db = (usage_fault db = None \<and> distinct (map ur_key (usage_rows db)))"

lemma day_between_bounded: "bounded r \<Longrightarrow> day_between r x = in_day_range (k_day (ur_key x)) r"
  by (auto simp: day_between_def in_day_range_def bounded_def day_param_def)

lemma sql_totals_selects:
  "usage_fault db = None \<Longrightarrow> bounded r \<Longrightarrow>
    sql_totals_for_user db u r = Inr (sum_cells (map ur_cell (filter (selects u r \<circ> ur_key) (usage_rows db))))"
  by (simp add: sql_totals_for_user_def tbl_select_def selects_def comp_def day_between_bounded)

text \<open>The rows after a call, as the cases of the UPSERT.\<close>

lemma sql_record_cases:
  assumes "usage_ok db"
  obtains "tbl_first (\<lambda>x. ur_key x = bucket_key t c) (usage_rows db) = None"
      "fst (sql_record_tokens db t ch chatter c k) = db\<lparr>usage_rows := usage_rows db @
        [\<lparr>ur_key = bucket_key t c, ur_cell = one_call k, ur_channel = ch, ur_chatter = chatter\<rparr>]\<rparr>"
  | x where "x \<in> set (usage_rows db)" "ur_key x = bucket_key t c"
      "fst (sql_record_tokens db t ch chatter c k) = db\<lparr>usage_rows := map (\<lambda>y. if ur_key y = bucket_key t c
        then y\<lparr>ur_cell := add_totals (ur_cell y) (one_call k), ur_channel := ch, ur_chatter := chatter\<rparr> else y)
        (usage_rows db)\<rparr>"
proof (cases "tbl_first (\<lambda>x. ur_key x = bucket_key t c) (usage_rows db)")
  case None
  moreover have "fst (sql_record_tokens db t ch chatter c k) = db\<lparr>usage_rows := usage_rows db @
      [\<lparr>ur_key = bucket_key t c, ur_cell = one_call k, ur_channel = ch, ur_chatter = chatter\<rparr>]\<rparr>"
    using assms None unfolding sql_record_tokens_def usage_ok_def Let_def by simp
  ultimately show ?thesis by (rule that(1))
next
  case (Some x)
  from tbl_first_SomeD [OF Some] have "x \<in> set (usage_rows db)" "ur_key x = bucket_key t c" by blast+
  moreover have "fst (sql_record_tokens db t ch chatter c k) = db\<lparr>usage_rows := map (\<lambda>y. if ur_key y = bucket_key t c
      then y\<lparr>ur_cell := add_totals (ur_cell y) (one_call k), ur_channel := ch, ur_chatter := chatter\<rparr> else y)
      (usage_rows db)\<rparr>"
    using assms Some unfolding sql_record_tokens_def usage_ok_def Let_def tbl_update_def by simp
  ultimately show ?thesis by (rule that(2))
qed

lemma sql_record_ok: "usage_ok db \<Longrightarrow> usage_ok (fst (sql_record_tokens db t ch chatter c k))"
proof -
  assume ok: "usage_ok db"
  from ok show ?thesis
  proof (cases rule: sql_record_cases [of db t c ch chatter k])
    case 1
    then show ?thesis using ok by (auto simp: usage_ok_def tbl_first_None)
  next
    case (2 x)
    have "map ur_key (usage_rows (fst (sql_record_tokens db t ch chatter c k))) = map ur_key (usage_rows db)"
      unfolding 2(3) by (simp add: comp_def if_distrib)
    then have "distinct (map ur_key (usage_rows (fst (sql_record_tokens db t ch chatter c k))))"
      using ok by (simp only: usage_ok_def)
    moreover have "usage_fault (fst (sql_record_tokens db t ch chatter c k)) = None"
      using ok unfolding 2(3) by (simp add: usage_ok_def)
    ultimately show ?thesis unfolding usage_ok_def by blast
  qed
qed

lemma sql_record_totals:
  assumes ok: "usage_ok db" and r: "bounded r"
  shows "sql_totals_for_user (fst (sql_record_tokens db t ch chatter c k)) u r =
    (case sql_totals_for_user db u r of Inl e \<Rightarrow> Inl e
     | Inr x \<Rightarrow> Inr (if counts_for u r t c then add_totals x (one_call k) else x))"
  using ok
proof (cases rule: sql_record_cases [of db t c ch chatter k])
  case 1
  then show ?thesis
    using ok r by (simp add: usage_ok_def sql_totals_selects selects_bucket)
next
  case (2 x)
  then show ?thesis
    using ok r sum_bump [of ur_key "usage_rows db" x "bucket_key t c"
        "\<lambda>y. y\<lparr>ur_cell := add_totals (ur_cell y) (one_call k), ur_channel := ch, ur_chatter := chatter\<rparr>"
        "selects u r \<circ> ur_key" ur_cell "one_call k"]
    by (simp add: usage_ok_def sql_totals_selects selects_bucket)
qed

interpretation sql_meter: token_meter "\<lambda>db t c k. fst (sql_record_tokens db t ch chatter c k)"
  sql_totals_for_user usage_ok for ch chatter
proof
  fix m u r
  assume "usage_ok m"
  then show "\<exists>x. sql_totals_for_user m u r = Inr x" by (simp add: usage_ok_def sql_totals_for_user_def)
qed (simp_all add: sql_record_ok sql_record_totals)

section \<open>Properties\<close>



definition demo_call :: metered_call where
  "demo_call = (15 * (24 * hour),
     \<lparr>ck_user = ''u'', ck_agent = [], ck_session = [], ck_provider = [], ck_model = []\<rparr>,
     \<lparr>tk_input = 1, tk_output = 1, tk_cache_read = 0, tk_cache_creation = 0\<rparr>)"



end
