(* ===== verification/Users.thy ===== *)
theory Users
  imports Bus Claw_Prelude "HOL-Library.List_Lexorder" "HOL-Library.Char_ord"
begin

text \<open>
  Accounts and API keys, \<^verbatim>\<open>internal/users\<close>, over their tables in
  \<^verbatim>\<open>internal/store/database.go\<close>. A handler is a function from the database to a
  result and the database. The database carries the driver's errors for the statements to come
  (\<open>plan\<close>), so every statement of a handler may fail. The password hash, the token hash and
  the random ids are parameters of the operations that use them.
\<close>

section \<open>Roles, statuses and key types\<close>

definition role_super_admin :: string where "role_super_admin = ''super_admin''"
definition role_user :: string where "role_user = ''user''"
definition role_app_user :: string where "role_app_user = ''app_user''"
definition role_channel_user :: string where "role_channel_user = ''channel_user''"
definition user_active :: string where "user_active = ''active''"
definition user_disabled :: string where "user_disabled = ''disabled''"
definition key_admin :: string where "key_admin = ''admin''"
definition key_user :: string where "key_user = ''user''"
definition key_agent :: string where "key_agent = ''agent''"

lemmas user_consts = role_super_admin_def role_user_def role_app_user_def role_channel_user_def
  user_active_def user_disabled_def key_admin_def key_user_def key_agent_def

section \<open>Records\<close>

record user_rec =
  u_id :: string
  u_name :: string
  u_email :: string
  u_hash :: string
  u_display :: string
  u_role :: string
  u_status :: string
  u_key :: string
  u_external :: string
  u_owner :: string
  u_avatar :: string
  u_quota :: int
  u_created :: "instant option"
  u_updated :: instant

record account =
  ac_id :: string
  ac_name :: string
  ac_email :: string
  ac_display :: string
  ac_role :: string
  ac_status :: string
  ac_key :: string
  ac_external :: string
  ac_avatar :: string
  ac_quota :: int
  ac_created :: "instant option"
  ac_updated :: instant

definition to_account :: "user_rec \<Rightarrow> account" where
  "to_account r = \<lparr>ac_id = u_id r, ac_name = u_name r, ac_email = u_email r, ac_display = u_display r,
     ac_role = u_role r, ac_status = u_status r, ac_key = u_key r, ac_external = u_external r,
     ac_avatar = u_avatar r, ac_quota = u_quota r, ac_created = u_created r, ac_updated = u_updated r\<rparr>"

record web_session =
  ws_sid :: string
  ws_user :: string
  ws_created :: instant
  ws_expires :: instant

record apikey_rec =
  k_id :: string
  k_owner :: string
  k_name :: string
  k_hash :: string
  k_prefix :: string
  k_type :: string
  k_created :: instant

type_synonym json_fields = "(string \<times> param) list"

record agent_row =
  ag_id :: string
  ag_owner :: string
  ag_name :: string
  ag_config :: json_fields
  ag_public :: bool
  ag_created :: instant
  ag_updated :: instant

text \<open>A row of one of the tables that hang off an agent or a user, and a row of \<open>configs\<close>, its
  data decoded. \<open>cf_scope\<close> is the label, \<open>cf_scope_id\<close> the column rows are looked up by.\<close>

record owned_row =
  or_table :: string
  or_agent :: string
  or_user :: string

record config_row =
  cf_id :: string
  cf_kind :: string
  cf_scope :: string
  cf_scope_id :: string
  cf_name :: string
  cf_enabled :: bool
  cf_data :: json_fields
  cf_created :: instant
  cf_updated :: instant

record id_db =
  users_t :: "user_rec list"
  webs_t :: "web_session list"
  keys_t :: "apikey_rec list"
  acl_t :: "(string \<times> string) list"
  agents_t :: "agent_row list"
  owned_t :: "owned_row list"
  configs_t :: "config_row list"
  plan :: "string option list"

section \<open>Steps\<close>

datatype user_error =
  Not_Found
  | Sql_Error string
  | Invalid_Credentials
  | Unauthorized
  | Refused string

text \<open>A step on a state answers with an error or a value and the state after it.\<close>

type_synonym ('s, 'e, 'a) stateful = "'s \<Rightarrow> ('e + 'a) \<times> 's"
type_synonym 'a step = "(id_db, user_error, 'a) stateful"

definition ok :: "'a \<Rightarrow> ('s, 'e, 'a) stateful" where
  "ok a db = (Inr a, db)"

definition raise :: "'e \<Rightarrow> ('s, 'e, 'a) stateful" where
  "raise e db = (Inl e, db)"

definition and_then :: "('s, 'e, 'a) stateful \<Rightarrow> ('a \<Rightarrow> ('s, 'e, 'b) stateful) \<Rightarrow> ('s, 'e, 'b) stateful" where
  "and_then m f db = (case m db of (Inl e, db') \<Rightarrow> (Inl e, db') | (Inr a, db') \<Rightarrow> f a db')"

text \<open>A step whose error the caller looks at.\<close>

definition attempt :: "('s, 'e, 'a) stateful \<Rightarrow> ('e + 'a \<Rightarrow> ('s, 'e, 'b) stateful) \<Rightarrow> ('s, 'e, 'b) stateful" where
  "attempt m f db = (case m db of (r, db') \<Rightarrow> f r db')"

definition lift_result :: "user_error + 'a \<Rightarrow> 'a step" where
  "lift_result r db = (r, db)"

text \<open>One SQL statement: the driver's error, if the plan has one for it, or the statement.\<close>

definition stmt :: "'a step \<Rightarrow> 'a step" where
  "stmt f db = (case plan db of
     [] \<Rightarrow> f db
   | None # p \<Rightarrow> f (db\<lparr>plan := p\<rparr>)
   | Some e # p \<Rightarrow> (Inl (Sql_Error e), db\<lparr>plan := p\<rparr>))"

text \<open>A transaction: begin, the statements, commit; any error rolls back.\<close>

definition tx :: "unit step \<Rightarrow> unit step" where
  "tx body db = (case and_then (stmt (ok ())) (\<lambda>_. and_then body (\<lambda>_. stmt (ok ()))) db of
     (Inl e, db') \<Rightarrow> (Inl e, db\<lparr>plan := plan db'\<rparr>)
   | (Inr _, db') \<Rightarrow> (Inr (), db'))"

fun for_each :: "('a \<Rightarrow> unit step) \<Rightarrow> 'a list \<Rightarrow> unit step" where
  "for_each f [] = ok ()"
| "for_each f (x # xs) = and_then (f x) (\<lambda>_. for_each f xs)"

definition query :: "(id_db \<Rightarrow> user_error + 'a) \<Rightarrow> 'a step" where
  "query q = stmt (\<lambda>db. (q db, db))"

definition found :: "'a option \<Rightarrow> user_error + 'a" where
  "found x = (case x of None \<Rightarrow> Inl Not_Found | Some a \<Rightarrow> Inr a)"

named_theorems step_simps "rewrite rules for steps"

lemma step_basic [step_simps]:
  "ok a db = (Inr a, db)" "raise e db = (Inl e, db)" "lift_result r db = (r, db)"
  by (simp_all add: ok_def raise_def lift_result_def)

lemma and_then_pair [step_simps]:
  "m db = (Inl e, db') \<Longrightarrow> and_then m f db = (Inl e, db')"
  "m db = (Inr a, db') \<Longrightarrow> and_then m f db = f a db'"
  by (simp_all add: and_then_def)

lemma attempt_pair [step_simps]: "m db = (r, db') \<Longrightarrow> attempt m f db = f r db'"
  by (simp add: attempt_def)

lemma stmt_healthy [step_simps]: "plan db = [] \<Longrightarrow> stmt f db = f db"
  by (simp add: stmt_def)

lemma query_healthy [step_simps]: "plan db = [] \<Longrightarrow> query q db = (q db, db)"
  by (simp add: query_def stmt_def)

lemma and_then_Inr: "and_then m f db = (Inr b, db'') \<longleftrightarrow> (\<exists>a db'. m db = (Inr a, db') \<and> f a db' = (Inr b, db''))"
  by (auto simp: and_then_def split: prod.splits sum.splits)

lemma found_simps [simp]: "found None = Inl Not_Found" "found (Some a) = Inr a"
  by (simp_all add: found_def)

lemma found_Inr: "found x = Inr a \<longleftrightarrow> x = Some a"
  by (cases x) simp_all

text \<open>A query answers from the tables and changes only the plan.\<close>

lemma query_result:
  assumes "query q db = (r, db')"
  obtains (answer) p where "db' = db\<lparr>plan := p\<rparr>" "r = q db'"
  | (fault) p e where "db' = db\<lparr>plan := p\<rparr>" "r = Inl (Sql_Error e)"
proof (cases "plan db")
  case Nil
  then have "db' = db" "r = q db" using assms by (auto simp: query_def stmt_def)
  then show ?thesis using answer [of "plan db"] by simp
next
  case (Cons x p)
  show ?thesis
  proof (cases x)
    case None
    then show ?thesis by (intro answer [of p]) (use Cons assms in \<open>auto simp: query_def stmt_def\<close>)
  next
    case (Some e)
    then show ?thesis by (intro fault [of p e]) (use Cons assms in \<open>auto simp: query_def stmt_def\<close>)
  qed
qed

section \<open>The users table\<close>

definition sql_dup :: user_error where
  "sql_dup = Sql_Error ''UNIQUE constraint failed''"

text \<open>The columns that must be unique: the id, the name, the email and, where both are set, the
  pair of API key and external id.\<close>

definition user_clash :: "user_rec \<Rightarrow> user_rec \<Rightarrow> bool" where
  "user_clash u r = (u_id r = u_id u \<or> u_name r = u_name u \<or> u_email r = u_email u \<or>
     (u_key u \<noteq> [] \<and> u_external u \<noteq> [] \<and> u_key r = u_key u \<and> u_external r = u_external u))"

definition stamp :: "instant \<Rightarrow> user_rec \<Rightarrow> user_rec" where
  "stamp now u = u\<lparr>u_created := (if u_created u = None then Some now else u_created u), u_updated := now\<rparr>"

definition create_user :: "instant \<Rightarrow> user_rec \<Rightarrow> user_rec step" where
  "create_user now u =
     (let u' = stamp now u
      in stmt (\<lambda>db. if tbl_first (user_clash u') (users_t db) \<noteq> None then (Inl sql_dup, db)
           else (Inr u', db\<lparr>users_t := users_t db @ [u']\<rparr>)))"

definition get_user :: "string \<Rightarrow> user_rec step" where
  "get_user uid = query (\<lambda>db. found (tbl_first (\<lambda>u. u_id u = uid) (users_t db)))"

definition get_user_by_login :: "string \<Rightarrow> user_rec step" where
  "get_user_by_login login = query (\<lambda>db.
     found (tbl_first (\<lambda>u. u_name u = login \<or> u_email u = login) (users_t db)))"

definition created_at :: "user_rec \<Rightarrow> instant" where
  "created_at u = (case u_created u of None \<Rightarrow> 0 | Some t \<Rightarrow> t)"

definition get_user_by_external :: "string \<Rightarrow> string \<Rightarrow> user_rec step" where
  "get_user_by_external owner ext =
     (if owner = [] \<or> ext = [] then raise Not_Found
      else query (\<lambda>db. found (tbl_first (\<lambda>u. u_owner u = owner \<and> u_external u = ext)
             (sort_key created_at (users_t db)))))"

text \<open>SQL's LIKE: \<^verbatim>\<open>%\<close> stands for any bytes and \<^verbatim>\<open>_\<close> for one; SQLite
  ignores the case of ASCII letters, Postgres does not and takes a backslash as an escape.\<close>

datatype dialect = Sqlite | Postgres

definition like_char :: "dialect \<Rightarrow> char \<Rightarrow> char \<Rightarrow> bool" where
  "like_char d p c = (p = c \<or> (d = Sqlite \<and> lower_byte p = lower_byte c))"

fun like :: "dialect \<Rightarrow> string \<Rightarrow> string \<Rightarrow> bool" where
  "like d [] s = (s = [])"
| "like d (p # ps) [] = (p = CHR ''%'' \<and> like d ps [])"
| "like d (p # ps) (c # cs) =
     (if p = CHR ''%'' then like d ps (c # cs) \<or> like d (p # ps) cs
      else if p = CHR ''_'' then like d ps cs
      else if d = Postgres \<and> p = CHR 0x5C then
        (case ps of [] \<Rightarrow> False | q # qs \<Rightarrow> q = c \<and> like d qs cs)
      else like_char d p c \<and> like d ps cs)"

definition get_user_by_external_suffix :: "dialect \<Rightarrow> string \<Rightarrow> string \<Rightarrow> string \<Rightarrow> user_rec step" where
  "get_user_by_external_suffix d owner prefix suffix =
     (if owner = [] \<or> prefix = [] \<or> suffix = [] then raise Not_Found
      else query (\<lambda>db. found (tbl_first (\<lambda>u. u_owner u = owner \<and>
               like d (prefix @ ''%'') (u_external u) \<and> like d (''%'' @ suffix) (u_external u))
             (sort_key (\<lambda>u. - created_at u) (users_t db)))))"

definition list_users :: "user_rec list step" where
  "list_users = query (\<lambda>db. Inr (sort_key created_at (users_t db)))"

text \<open>UPDATE leaves the id, the API key, the external id, the owner and the creation time as they
  are in the table.\<close>

definition update_user :: "instant \<Rightarrow> user_rec \<Rightarrow> unit step" where
  "update_user now u = stmt (\<lambda>db.
     if tbl_first (\<lambda>r. u_id r \<noteq> u_id u \<and> (u_name r = u_name u \<or> u_email r = u_email u)) (users_t db) \<noteq> None \<and>
        tbl_first (\<lambda>r. u_id r = u_id u) (users_t db) \<noteq> None
     then (Inl sql_dup, db)
     else (Inr (), db\<lparr>users_t := tbl_update (\<lambda>r. u_id r = u_id u)
        (\<lambda>r. r\<lparr>u_name := u_name u, u_email := u_email u, u_hash := u_hash u, u_display := u_display u,
             u_role := u_role u, u_status := u_status u, u_avatar := u_avatar u, u_quota := u_quota u,
             u_updated := now\<rparr>) (users_t db)\<rparr>))"

text \<open>The cascade of DELETE.\<close>

definition delete_from :: "string \<Rightarrow> (owned_row \<Rightarrow> bool) \<Rightarrow> unit step" where
  "delete_from t w = stmt (\<lambda>db. (Inr (), db\<lparr>owned_t := tbl_delete (\<lambda>r. or_table r = t \<and> w r) (owned_t db)\<rparr>))"

definition delete_agent_state :: "dialect \<Rightarrow> string \<Rightarrow> unit step" where
  "delete_agent_state d aid =
     and_then (for_each (\<lambda>t. delete_from t (\<lambda>r. or_agent r = aid))
       [''agent_files'', ''agent_knowledge_chunks'', ''sessions'', ''session_messages'', ''session_events'', ''cron_jobs''])
     (\<lambda>_. and_then (stmt (\<lambda>db. (Inr (), db\<lparr>acl_t := tbl_delete (\<lambda>(_, a). a = aid) (acl_t db)\<rparr>)))
     (\<lambda>_. stmt (\<lambda>db. (Inr (), db\<lparr>configs_t :=
        tbl_delete (\<lambda>c. cf_scope_id c = aid \<or> like d (''%/'' @ aid) (cf_scope_id c)) (configs_t db)\<rparr>))))"

definition delete_user_rows :: "string \<Rightarrow> unit step" where
  "delete_user_rows uid =
     and_then (stmt (\<lambda>db. (Inr (), db\<lparr>webs_t := tbl_delete (\<lambda>s. ws_user s = uid) (webs_t db)\<rparr>)))
     (\<lambda>_. and_then (stmt (\<lambda>db. (Inr (), db\<lparr>keys_t := tbl_delete (\<lambda>k. k_owner k = uid) (keys_t db)\<rparr>)))
     (\<lambda>_. for_each (\<lambda>t. delete_from t (\<lambda>r. or_user r = uid)) [''sessions'', ''session_messages'', ''session_events'']))"

text \<open>The statement on \<open>configs\<close> names the column \<^verbatim>\<open>user_id\<close>, which neither the
  schema nor a migrated database has.\<close>

definition no_user_column :: user_error where
  "no_user_column = Sql_Error ''no such column: user_id''"

definition delete_user :: "dialect \<Rightarrow> string \<Rightarrow> unit step" where
  "delete_user d uid = tx
     (and_then (query (\<lambda>db. Inr (map ag_id (tbl_select (\<lambda>a. ag_owner a = uid) (agents_t db)))))
     (\<lambda>owned. and_then (for_each (delete_agent_state d) owned)
     (\<lambda>_. and_then (stmt (\<lambda>db. (Inr (), db\<lparr>agents_t := tbl_delete (\<lambda>a. ag_owner a = uid) (agents_t db)\<rparr>)))
     (\<lambda>_. and_then (delete_user_rows uid)
     (\<lambda>_. and_then (stmt (raise no_user_column :: unit step))
     (\<lambda>_. and_then (stmt (\<lambda>db. (Inr (), db\<lparr>acl_t :=
            tbl_delete (\<lambda>(k, _). k \<notin> k_id ` set (keys_t db)) (acl_t db)\<rparr>)))
     (\<lambda>_. stmt (\<lambda>db. (Inr (), db\<lparr>users_t := tbl_delete (\<lambda>u. u_id u = uid) (users_t db)\<rparr>)))))))))"

definition count_users :: "nat step" where
  "count_users = query (\<lambda>db. Inr (length (users_t db)))"

section \<open>Web sessions and API keys in the store\<close>

definition create_web_session :: "web_session \<Rightarrow> unit step" where
  "create_web_session s = stmt (\<lambda>db.
     if tbl_first (\<lambda>r. ws_sid r = ws_sid s) (webs_t db) \<noteq> None then (Inl sql_dup, db)
     else (Inr (), db\<lparr>webs_t := webs_t db @ [s]\<rparr>))"

definition get_web_session :: "string \<Rightarrow> web_session step" where
  "get_web_session sid = query (\<lambda>db. found (tbl_first (\<lambda>s. ws_sid s = sid) (webs_t db)))"

definition delete_web_session :: "string \<Rightarrow> unit step" where
  "delete_web_session sid = stmt (\<lambda>db. (Inr (), db\<lparr>webs_t := tbl_delete (\<lambda>s. ws_sid s = sid) (webs_t db)\<rparr>))"

definition list_apikeys :: "string \<Rightarrow> apikey_rec list step" where
  "list_apikeys uid = query (\<lambda>db. Inr (sort_key k_created (tbl_select (\<lambda>k. k_owner k = uid) (keys_t db))))"

definition get_apikey :: "string \<Rightarrow> apikey_rec step" where
  "get_apikey kid = query (\<lambda>db. found (tbl_first (\<lambda>k. k_id k = kid) (keys_t db)))"

definition create_apikey_row :: "apikey_rec \<Rightarrow> unit step" where
  "create_apikey_row k = stmt (\<lambda>db.
     if tbl_first (\<lambda>r. k_id r = k_id k) (keys_t db) \<noteq> None then (Inl sql_dup, db)
     else (Inr (), db\<lparr>keys_t := keys_t db @ [k\<lparr>k_type := (if k_type k = [] then ''agent'' else k_type k)\<rparr>]\<rparr>))"

definition delete_apikey :: "string \<Rightarrow> unit step" where
  "delete_apikey kid = tx
     (and_then (stmt (\<lambda>db. (Inr (), db\<lparr>acl_t := tbl_delete (\<lambda>(k, _). k = kid) (acl_t db)\<rparr>)))
     (\<lambda>_. stmt (\<lambda>db. (Inr (), db\<lparr>keys_t := tbl_delete (\<lambda>k. k_id k = kid) (keys_t db)\<rparr>))))"

definition rotate_apikey :: "string \<Rightarrow> string \<Rightarrow> string \<Rightarrow> unit step" where
  "rotate_apikey kid hash prefix = stmt (\<lambda>db. (Inr (), db\<lparr>keys_t :=
     tbl_update (\<lambda>k. k_id k = kid) (\<lambda>k. k\<lparr>k_hash := hash, k_prefix := prefix\<rparr>) (keys_t db)\<rparr>))"

definition lookup_apikey_by_hash :: "string \<Rightarrow> apikey_rec step" where
  "lookup_apikey_by_hash h = query (\<lambda>db. found (tbl_first (\<lambda>k. k_hash k = h) (keys_t db)))"

definition insert_acl :: "string \<Rightarrow> string \<Rightarrow> unit step" where
  "insert_acl kid aid = stmt (\<lambda>db.
     if (kid, aid) \<in> set (acl_t db) then (Inl sql_dup, db) else (Inr (), db\<lparr>acl_t := acl_t db @ [(kid, aid)]\<rparr>))"

definition set_apikey_agents :: "string \<Rightarrow> string list \<Rightarrow> unit step" where
  "set_apikey_agents kid aids = tx
     (and_then (stmt (\<lambda>db. (Inr (), db\<lparr>acl_t := tbl_delete (\<lambda>(k, _). k = kid) (acl_t db)\<rparr>)))
     (\<lambda>_. for_each (insert_acl kid) aids))"

definition list_apikey_agents :: "string \<Rightarrow> string list step" where
  "list_apikey_agents kid = query (\<lambda>db.
     Inr (sort (map snd (tbl_select (\<lambda>(k, _). k = kid) (acl_t db)))))"

definition apikey_can_access_agent :: "string \<Rightarrow> string \<Rightarrow> bool step" where
  "apikey_can_access_agent kid aid = query (\<lambda>db. Inr (0 < tbl_affected (\<lambda>(k, a). k = kid \<and> a = aid) (acl_t db)))"

definition list_agents :: "string \<Rightarrow> agent_row list step" where
  "list_agents uid = query (\<lambda>db. Inr (sort_key (\<lambda>a. - ag_created a) (tbl_select (\<lambda>a. ag_owner a = uid) (agents_t db))))"

definition get_agent :: "string \<Rightarrow> agent_row step" where
  "get_agent aid = query (\<lambda>db. found (tbl_first (\<lambda>a. ag_id a = aid) (agents_t db)))"

section \<open>Accounts\<close>

text \<open>The functions taken from libraries: the password hash and its comparison, the hex digest of
  SHA-256 and the Unicode lower case. The random part of an id or token is given by
  \<^verbatim>\<open>crypto/rand\<close>, or refused.\<close>

record golib =
  bcrypt_hash :: "string \<Rightarrow> user_error + string"
  bcrypt_ok :: "string \<Rightarrow> string \<Rightarrow> bool"
  sha256_hex :: "string \<Rightarrow> string"
  str_lower :: "string \<Rightarrow> string"

type_synonym random = "user_error + string"

definition new_id :: "string \<Rightarrow> random \<Rightarrow> string step" where
  "new_id prefix r = (case r of Inl e \<Rightarrow> raise e | Inr h \<Rightarrow> ok (prefix @ h))"

record create_input =
  ci_name :: string
  ci_email :: string
  ci_password :: string
  ci_display :: string
  ci_role :: string
  ci_quota :: "int option"
  ci_avatar :: string
  ci_key :: string
  ci_external :: string

text \<open>A failed insert looks once more for the row of the same pair.\<close>

definition insert_or_reread :: "instant \<Rightarrow> string \<Rightarrow> string \<Rightarrow> user_rec \<Rightarrow> account step" where
  "insert_or_reread now owner ext rec = attempt (create_user now rec) (\<lambda>r. case r of
     Inr rec' \<Rightarrow> ok (to_account rec')
   | Inl e \<Rightarrow> attempt (get_user_by_external owner ext) (\<lambda>again. case again of
       Inr a \<Rightarrow> ok (to_account a) | Inl _ \<Rightarrow> raise e))"

definition account_row :: "golib \<Rightarrow> string \<Rightarrow> string \<Rightarrow> string \<Rightarrow> string \<Rightarrow> create_input \<Rightarrow> user_rec" where
  "account_row c uid hash apikey ext inp = \<lparr>u_id = uid, u_name = trim_space (ci_name inp),
     u_email = str_lower c (trim_space (ci_email inp)), u_hash = hash, u_display = ci_display inp,
     u_role = (if ci_role inp = [] then role_user else ci_role inp), u_status = user_active, u_key = apikey,
     u_external = ext, u_owner = [], u_avatar = ci_avatar inp,
     u_quota = (case ci_quota inp of None \<Rightarrow> -1 | Some q \<Rightarrow> q), u_created = None, u_updated = 0\<rparr>"

definition create_fresh :: "golib \<Rightarrow> instant \<Rightarrow> random \<Rightarrow> string \<Rightarrow> string \<Rightarrow> create_input \<Rightarrow> account step" where
  "create_fresh c now rnd apikey ext inp =
     (let name = trim_space (ci_name inp); email = str_lower c (trim_space (ci_email inp));
          role = (if ci_role inp = [] then role_user else ci_role inp)
      in if name = [] \<or> email = [] \<or> ci_password inp = [] then
           raise (Refused ''users.Create: username, email, password are required'')
         else if role \<noteq> role_super_admin \<and> role \<noteq> role_user then raise (Refused ''users.Create: invalid role'')
         else and_then (lift_result (bcrypt_hash c (ci_password inp))) (\<lambda>hash.
              and_then (new_id ''u_'' rnd) (\<lambda>uid.
                if apikey \<noteq> [] \<and> ext \<noteq> []
                then insert_or_reread now apikey ext (account_row c uid hash apikey ext inp)
                else and_then (create_user now (account_row c uid hash apikey ext inp)) (\<lambda>rec. ok (to_account rec)))))"

definition create_account :: "golib \<Rightarrow> instant \<Rightarrow> random \<Rightarrow> create_input \<Rightarrow> account step" where
  "create_account c now rnd inp =
     (let apikey = trim_space (ci_key inp); ext = trim_space (ci_external inp)
      in if apikey \<noteq> [] \<and> ext \<noteq> [] then
           attempt (get_user_by_external apikey ext) (\<lambda>r. case r of
             Inr rec \<Rightarrow> ok (to_account rec)
           | Inl e \<Rightarrow> if e = Not_Found then create_fresh c now rnd apikey ext inp else raise e)
         else create_fresh c now rnd apikey ext inp)"

definition authenticate :: "golib \<Rightarrow> string \<Rightarrow> string \<Rightarrow> account step" where
  "authenticate c login0 password =
     (let trimmed = trim_space login0;
          login = (if contains trimmed ''@'' then str_lower c trimmed else trimmed)
      in if trimmed = [] \<or> password = [] then raise Invalid_Credentials
         else attempt (get_user_by_login login) (\<lambda>r. case r of
           Inl e \<Rightarrow> raise (if e = Not_Found then Invalid_Credentials else e)
         | Inr rec \<Rightarrow>
             if u_status rec \<noteq> user_active then raise Invalid_Credentials
             else if u_hash rec = [] \<or> u_role rec = role_app_user \<or> u_role rec = role_channel_user
               then raise Invalid_Credentials
             else if \<not> bcrypt_ok c (u_hash rec) password then raise Invalid_Credentials
             else ok (to_account rec)))"

definition get_account :: "string \<Rightarrow> account step" where
  "get_account uid = and_then (get_user uid) (\<lambda>rec. ok (to_account rec))"

definition list_accounts :: "account list step" where
  "list_accounts = and_then list_users (\<lambda>recs. ok (map to_account recs))"

definition save_user :: "instant \<Rightarrow> user_rec \<Rightarrow> account step" where
  "save_user now rec = and_then (update_user now rec) (\<lambda>_. ok (to_account (rec\<lparr>u_updated := now\<rparr>)))"

definition update_account :: "instant \<Rightarrow> string \<Rightarrow> string \<Rightarrow> string \<Rightarrow> string \<Rightarrow> int option \<Rightarrow> account step" where
  "update_account now uid display role status quota = and_then (get_user uid) (\<lambda>rec.
     let rec1 = (if display \<noteq> [] then rec\<lparr>u_display := display\<rparr> else rec)
     in if role \<noteq> [] \<and> role \<noteq> role_super_admin \<and> role \<noteq> role_user then raise (Refused ''users.Update: invalid role'')
        else let rec2 = (if role \<noteq> [] then rec1\<lparr>u_role := role\<rparr> else rec1)
        in if status \<noteq> [] \<and> status \<noteq> user_active \<and> status \<noteq> user_disabled
           then raise (Refused ''users.Update: invalid status'')
           else let rec3 = (if status \<noteq> [] then rec2\<lparr>u_status := status\<rparr> else rec2);
                    rec4 = (case quota of None \<Rightarrow> rec3 | Some q \<Rightarrow> rec3\<lparr>u_quota := q\<rparr>)
                in save_user now rec4)"

definition update_profile :: "instant \<Rightarrow> string \<Rightarrow> string \<Rightarrow> string \<Rightarrow> account step" where
  "update_profile now uid display avatar = and_then (get_user uid) (\<lambda>rec.
     save_user now (rec\<lparr>u_display := display, u_avatar := avatar\<rparr>))"

definition verify_password :: "golib \<Rightarrow> string \<Rightarrow> string \<Rightarrow> unit step" where
  "verify_password c uid password = attempt (get_user uid) (\<lambda>r. case r of
     Inl _ \<Rightarrow> raise Invalid_Credentials
   | Inr rec \<Rightarrow> if u_hash rec = [] then raise Invalid_Credentials
       else if \<not> bcrypt_ok c (u_hash rec) password then raise Invalid_Credentials else ok ())"

definition set_password :: "golib \<Rightarrow> instant \<Rightarrow> string \<Rightarrow> string \<Rightarrow> unit step" where
  "set_password c now uid password =
     (if password = [] then raise (Refused ''users.SetPassword: empty password'')
      else and_then (get_user uid) (\<lambda>rec.
           and_then (lift_result (bcrypt_hash c password)) (\<lambda>hash. update_user now (rec\<lparr>u_hash := hash\<rparr>))))"

text \<open>The rows of provisioned users: those of an application's end users and those of the people
  behind a messaging channel. Both are found by owner and external id, or inserted.\<close>

definition provisioned :: "string \<Rightarrow> string \<Rightarrow> string \<Rightarrow> string \<Rightarrow> string \<Rightarrow> string \<Rightarrow> string \<Rightarrow> user_rec" where
  "provisioned uid mail role display owner ext apikey = \<lparr>u_id = uid, u_name = uid, u_email = uid @ mail,
     u_hash = [], u_display = display, u_role = role, u_status = user_active, u_key = apikey,
     u_external = ext, u_owner = owner, u_avatar = [], u_quota = -1, u_created = None, u_updated = 0\<rparr>"

definition ensure_insert :: "instant \<Rightarrow> random \<Rightarrow> string \<Rightarrow> string \<Rightarrow> string \<Rightarrow> string \<Rightarrow> string \<Rightarrow> string \<Rightarrow> account step" where
  "ensure_insert now rnd mail role display owner ext apikey = and_then (new_id ''u_'' rnd)
     (\<lambda>uid. insert_or_reread now owner ext (provisioned uid mail role display owner ext apikey))"

definition ensure_provisioned :: "instant \<Rightarrow> random \<Rightarrow> string \<Rightarrow> string \<Rightarrow> string \<Rightarrow> string \<Rightarrow> string \<Rightarrow> string \<Rightarrow> account step" where
  "ensure_provisioned now rnd mail role display owner ext apikey =
     attempt (get_user_by_external owner ext) (\<lambda>r. case r of
       Inr rec \<Rightarrow> ok (to_account rec)
     | Inl e \<Rightarrow> if e = Not_Found then ensure_insert now rnd mail role display owner ext apikey else raise e)"

definition ensure_app_user :: "instant \<Rightarrow> random \<Rightarrow> string \<Rightarrow> string \<Rightarrow> string \<Rightarrow> string \<Rightarrow> account step" where
  "ensure_app_user now rnd owner0 ext0 display apikey =
     (let owner = trim_space owner0; ext = trim_space ext0
      in if owner = [] \<or> ext = [] then
           raise (Refused ''users.EnsureAppUser: ownerUserID and externalID are required'')
         else ensure_provisioned now rnd ''@app_user'' role_app_user display owner ext apikey)"

definition ensure_chatter :: "instant \<Rightarrow> random \<Rightarrow> string \<Rightarrow> string \<Rightarrow> string \<Rightarrow> account step" where
  "ensure_chatter now rnd owner0 ext0 display =
     (let owner = trim_space owner0; ext = trim_space ext0
      in if owner = [] \<or> ext = [] then
           raise (Refused ''users.EnsureChatter: ownerUserID and externalID are required'')
         else ensure_provisioned now rnd ''@channel_user'' role_channel_user display owner ext [])"

definition active_admin :: "user_rec \<Rightarrow> bool" where
  "active_admin u = (u_role u = role_super_admin \<and> u_status u = user_active)"

definition delete_account :: "dialect \<Rightarrow> string \<Rightarrow> unit step" where
  "delete_account d uid = and_then (get_user uid) (\<lambda>target.
     if u_role target = role_super_admin then
       and_then list_users (\<lambda>all.
         if length (filter active_admin all) \<le> 1
         then raise (Refused ''users.Delete: refusing to remove the last active super_admin'')
         else delete_user d uid)
     else delete_user d uid)"

section \<open>API keys\<close>

definition is_apikey_type :: "string \<Rightarrow> bool" where
  "is_apikey_type s = (s = key_admin \<or> s = key_user \<or> s = key_agent)"

record apikey =
  ak_id :: string
  ak_user :: string
  ak_name :: string
  ak_key :: string
  ak_type :: string
  ak_created :: instant

record resolved =
  rs_key :: apikey
  rs_account :: account
  rs_agents :: "string list"

definition key_prefix :: "string \<Rightarrow> string" where
  "key_prefix token = (if length token \<le> 10 then token else take 10 token)"

definition to_apikey :: "apikey_rec \<Rightarrow> apikey" where
  "to_apikey k = \<lparr>ak_id = k_id k, ak_user = k_owner k, ak_name = k_name k,
     ak_key = (if k_prefix k = [] then ''fc_********'' else k_prefix k @ ''****''),
     ak_type = k_type k, ak_created = k_created k\<rparr>"

definition issue_key :: "golib \<Rightarrow> instant \<Rightarrow> random \<Rightarrow> random \<Rightarrow> string \<Rightarrow> string \<Rightarrow> string \<Rightarrow> string list \<Rightarrow> (apikey \<times> string) step" where
  "issue_key c now rid rtok uid name ty aids =
     and_then (new_id ''k_'' rid) (\<lambda>kid. and_then (new_id ''fc_'' rtok) (\<lambda>token.
       let rec = \<lparr>k_id = kid, k_owner = uid, k_name = name, k_hash = sha256_hex c token,
         k_prefix = key_prefix token, k_type = ty, k_created = now\<rparr>
       in and_then (create_apikey_row rec) (\<lambda>_.
          and_then (if ty = key_agent then set_apikey_agents kid aids else ok ()) (\<lambda>_.
          ok ((to_apikey rec)\<lparr>ak_key := token\<rparr>, token)))))"

definition create_apikey :: "golib \<Rightarrow> instant \<Rightarrow> random \<Rightarrow> random \<Rightarrow> string \<Rightarrow> string \<Rightarrow> string \<Rightarrow> string list \<Rightarrow> (apikey \<times> string) step" where
  "create_apikey c now rid rtok uid name ty0 aids =
     (let ty = (if ty0 = [] then key_agent else ty0)
      in if uid = [] then raise (Refused ''users.APIKeys.Create: userID is required'')
         else if \<not> is_apikey_type ty then raise (Refused ''users.APIKeys.Create: invalid type (want admin|user|agent)'')
         else if ty = key_agent \<and> aids = [] then
           raise (Refused ''users.APIKeys.Create: type=agent requires at least one agent'')
         else issue_key c now rid rtok uid name ty aids)"

definition rotate_key :: "golib \<Rightarrow> random \<Rightarrow> string \<Rightarrow> string step" where
  "rotate_key c rtok kid = and_then (new_id ''fc_'' rtok) (\<lambda>token.
     and_then (rotate_apikey kid (sha256_hex c token) (key_prefix token)) (\<lambda>_. ok token))"

definition get_key :: "string \<Rightarrow> apikey step" where
  "get_key kid = and_then (get_apikey kid) (\<lambda>rec. ok (to_apikey rec))"

definition set_agents :: "string \<Rightarrow> string list \<Rightarrow> unit step" where
  "set_agents kid aids = and_then (get_apikey kid) (\<lambda>rec.
     if k_type rec \<noteq> [] \<and> k_type rec \<noteq> key_agent then
       raise (Refused ''users.APIKeys.SetAgents: agent list is only editable on type=agent keys'')
     else if aids = [] then raise (Refused ''users.APIKeys.SetAgents: at least one agent required'')
     else set_apikey_agents kid aids)"

definition key_agents :: "apikey_rec \<Rightarrow> string list step" where
  "key_agents rec =
     (if k_type rec = key_admin then ok []
      else if k_type rec = key_user then and_then (list_agents (k_owner rec)) (\<lambda>ags. ok (map ag_id ags))
      else list_apikey_agents (k_id rec))"

definition lookup_by_token :: "golib \<Rightarrow> string \<Rightarrow> resolved step" where
  "lookup_by_token c token =
     (if token = [] then raise Invalid_Credentials
      else attempt (lookup_apikey_by_hash (sha256_hex c token)) (\<lambda>r. case r of
        Inl e \<Rightarrow> raise (if e = Not_Found then Invalid_Credentials else e)
      | Inr rec \<Rightarrow> attempt (get_user (k_owner rec)) (\<lambda>r. case r of
          Inl _ \<Rightarrow> raise Invalid_Credentials
        | Inr user \<Rightarrow>
            if u_status user \<noteq> user_active then raise Invalid_Credentials
            else and_then (key_agents rec) (\<lambda>agents.
              ok \<lparr>rs_key = to_apikey rec, rs_account = to_account user, rs_agents = agents\<rparr>))))"

section \<open>Operations as a whole\<close>

datatype account_op =
  Op_Create instant random create_input
  | Op_Authenticate string string
  | Op_Update instant string string string string "int option"
  | Op_Profile instant string string string
  | Op_Set_Password instant string string
  | Op_App_User instant random string string string string
  | Op_Chatter instant random string string string
  | Op_Delete string
  | Op_Issue_Key instant random random string string string "string list"
  | Op_Rotate_Key random string
  | Op_Delete_Key string
  | Op_Set_Agents string "string list"
  | Op_Lookup string

definition forget :: "'a step \<Rightarrow> unit step" where
  "forget m = and_then m (\<lambda>_. ok ())"

fun run_op :: "golib \<Rightarrow> dialect \<Rightarrow> account_op \<Rightarrow> unit step" where
  "run_op c d (Op_Create now r inp) = forget (create_account c now r inp)"
| "run_op c d (Op_Authenticate login pw) = forget (authenticate c login pw)"
| "run_op c d (Op_Update now u disp role st q) = forget (update_account now u disp role st q)"
| "run_op c d (Op_Profile now u disp av) = forget (update_profile now u disp av)"
| "run_op c d (Op_Set_Password now u pw) = set_password c now u pw"
| "run_op c d (Op_App_User now r owner ext disp k) = forget (ensure_app_user now r owner ext disp k)"
| "run_op c d (Op_Chatter now r owner ext disp) = forget (ensure_chatter now r owner ext disp)"
| "run_op c d (Op_Delete u) = delete_account d u"
| "run_op c d (Op_Issue_Key now r1 r2 u name ty aids) = forget (create_apikey c now r1 r2 u name ty aids)"
| "run_op c d (Op_Rotate_Key r k) = forget (rotate_key c r k)"
| "run_op c d (Op_Delete_Key k) = delete_apikey k"
| "run_op c d (Op_Set_Agents k aids) = set_agents k aids"
| "run_op c d (Op_Lookup t) = forget (lookup_by_token c t)"

end
