(* ===== verification/Account_Laws.thy ===== *)
theory Account_Laws
  imports Users
begin

text \<open>
  What the account operations of \<open>Users\<close> promise. The locale \<open>step_invariant\<close> proves
  that an invariant kept by the writing statements is kept by every operation, whatever the driver
  answers; \<open>users_step\<close> is the contract of the operations on the users table and
  \<open>run_op_refines\<close> the proof that they keep it. The properties at the end rest on the contract.
\<close>

section \<open>Invariants of steps\<close>

definition keeps :: "(id_db \<Rightarrow> bool) \<Rightarrow> 'a step \<Rightarrow> bool" where
  "keeps J m = (\<forall>db. J db \<longrightarrow> J (snd (m db)))"

locale step_invariant =
  fixes J :: "id_db \<Rightarrow> bool"
  assumes plan_free: "J (db\<lparr>plan := p\<rparr>) = J db"
begin

lemma keeps_pure:
  "keeps J (ok a)" "keeps J (raise e)" "keeps J (lift_result r)"
  by (simp_all add: keeps_def step_simps)

lemma keeps_and_then: "keeps J m \<Longrightarrow> (\<And>a. keeps J (f a)) \<Longrightarrow> keeps J (and_then m f)"
  unfolding keeps_def and_then_def by (auto split: prod.splits sum.splits)

lemma keeps_attempt: "keeps J m \<Longrightarrow> (\<And>r. keeps J (f r)) \<Longrightarrow> keeps J (attempt m f)"
  unfolding keeps_def attempt_def by (auto split: prod.splits)

lemma keeps_stmt: "keeps J f \<Longrightarrow> keeps J (stmt f)"
  unfolding keeps_def stmt_def by (auto simp: plan_free split: list.splits option.splits)

lemma keeps_query: "keeps J (query q)"
  unfolding query_def by (rule keeps_stmt) (simp add: keeps_def)

lemma keeps_tx: "keeps J body \<Longrightarrow> keeps J (tx body)"
proof -
  assume "keeps J body"
  then have k: "keeps J (and_then (stmt (ok ())) (\<lambda>_. and_then body (\<lambda>_. stmt (ok ()))))"
    by (intro keeps_and_then keeps_stmt keeps_pure)
  show ?thesis
    unfolding keeps_def tx_def
    using k by (auto simp: plan_free keeps_def split: prod.splits sum.splits)
qed

lemma keeps_for_each: "(\<And>x. x \<in> set xs \<Longrightarrow> keeps J (f x)) \<Longrightarrow> keeps J (for_each f xs)"
  by (induction xs) (auto intro: keeps_pure keeps_and_then)

lemma keeps_if: "(b \<Longrightarrow> keeps J m) \<Longrightarrow> (\<not> b \<Longrightarrow> keeps J n) \<Longrightarrow> keeps J (if b then m else n)"
  by simp

lemma keeps_sum: "(\<And>e. keeps J (f e)) \<Longrightarrow> (\<And>a. keeps J (g a)) \<Longrightarrow> keeps J (case_sum f g r)"
  by (cases r) simp_all

lemma keeps_forget: "keeps J m \<Longrightarrow> keeps J (forget m)"
  unfolding forget_def by (intro keeps_and_then keeps_pure)

lemmas keeps_rules = keeps_pure keeps_and_then keeps_attempt keeps_query keeps_for_each keeps_if
  keeps_sum keeps_forget

text \<open>The invariant only has to hold for the statements that write.\<close>

lemma keeps_ops:
  assumes create: "\<And>now u. keeps J (create_user now u)"
    and update: "\<And>now u. keeps J (update_user now u)"
    and key: "\<And>k. keeps J (create_apikey_row k)"
    and rotate: "\<And>k h p. keeps J (rotate_apikey k h p)"
    and acl: "\<And>k aids. keeps J (set_apikey_agents k aids)"
    and del_key: "\<And>k. keeps J (delete_apikey k)"
    and del: "\<And>u. keeps J (delete_account d u)"
  shows "keeps J (run_op c d a)"
proof -
  note reads = get_user_def get_user_by_login_def list_users_def
    lookup_apikey_by_hash_def get_apikey_def list_agents_def list_apikey_agents_def
  have ext: "keeps J (get_user_by_external owner x)" for owner x
    unfolding get_user_by_external_def by (intro keeps_rules)
  have insert: "keeps J (insert_or_reread now owner x rec)" for now owner x rec
    unfolding insert_or_reread_def by (intro keeps_rules create ext)
  have nid: "keeps J (new_id p r)" for p r
    unfolding new_id_def by (intro keeps_rules)
  have fresh: "keeps J (create_fresh c now r k x inp)" for now r k x inp
    unfolding create_fresh_def Let_def by (intro keeps_rules create insert nid)
  have ens: "keeps J (ensure_provisioned now r m role disp owner x k)" for now r m role disp owner x k
    unfolding ensure_provisioned_def ensure_insert_def by (intro keeps_rules ext insert nid)
  show ?thesis
  proof (cases a)
    case (Op_Create now r inp)
    then show ?thesis
      by (simp only: run_op.simps create_account_def Let_def) (intro keeps_rules ext fresh)
  next
    case (Op_Authenticate login pw)
    then show ?thesis
      by (simp only: run_op.simps authenticate_def reads Let_def) (intro keeps_rules)
  next
    case (Op_Update now u disp role st q)
    then show ?thesis
      by (simp only: run_op.simps update_account_def save_user_def reads Let_def) (intro keeps_rules update)
  next
    case (Op_Profile now u disp av)
    then show ?thesis
      by (simp only: run_op.simps update_profile_def save_user_def reads) (intro keeps_rules update)
  next
    case (Op_Set_Password now u pw)
    then show ?thesis
      by (simp only: run_op.simps set_password_def reads) (intro keeps_rules update)
  next
    case (Op_App_User now r owner x disp k)
    then show ?thesis
      by (simp only: run_op.simps ensure_app_user_def Let_def) (intro keeps_rules ens)
  next
    case (Op_Chatter now r owner x disp)
    then show ?thesis
      by (simp only: run_op.simps ensure_chatter_def Let_def) (intro keeps_rules ens)
  next
    case (Op_Issue_Key now r1 r2 u name ty aids)
    then show ?thesis
      by (simp only: run_op.simps create_apikey_def issue_key_def Let_def) (intro keeps_rules key acl nid)
  next
    case (Op_Rotate_Key r k)
    then show ?thesis
      by (simp only: run_op.simps rotate_key_def) (intro keeps_rules rotate nid)
  next
    case (Op_Set_Agents k aids)
    then show ?thesis
      by (simp only: run_op.simps set_agents_def reads) (intro keeps_rules acl)
  next
    case (Op_Lookup t)
    then show ?thesis
      by (simp only: run_op.simps lookup_by_token_def key_agents_def reads) (intro keeps_rules)
  qed (simp_all only: run_op.simps del del_key)
qed

end

section \<open>What the operations do to the users\<close>

text \<open>The contract of the operations on the list of users, with the database and its failures
  left out: nothing happens, a row that clashes with none is added, the rows of one id are edited,
  or they are removed, the last active super administrator's never.\<close>

definition edit_update :: "instant \<Rightarrow> string \<Rightarrow> string \<Rightarrow> string \<Rightarrow> int option \<Rightarrow> user_rec \<Rightarrow> user_rec" where
  "edit_update now disp role st q r = r\<lparr>u_display := (if disp = [] then u_display r else disp),
     u_role := (if role = [] then u_role r else role), u_status := (if st = [] then u_status r else st),
     u_quota := (case q of None \<Rightarrow> u_quota r | Some x \<Rightarrow> x), u_updated := now\<rparr>"

fun new_row :: "golib \<Rightarrow> account_op \<Rightarrow> user_rec \<Rightarrow> bool" where
  "new_row c (Op_Create now r inp) u = (\<exists>x h. r = Inr x \<and> bcrypt_hash c (ci_password inp) = Inr h \<and>
     (ci_role inp = [] \<or> ci_role inp = role_super_admin \<or> ci_role inp = role_user) \<and>
     u = stamp now (account_row c (''u_'' @ x) h (trim_space (ci_key inp)) (trim_space (ci_external inp)) inp))"
| "new_row c (Op_App_User now r owner ext disp k) u = (\<exists>x. r = Inr x \<and>
     u = stamp now (provisioned (''u_'' @ x) ''@app_user'' role_app_user disp (trim_space owner) (trim_space ext) k))"
| "new_row c (Op_Chatter now r owner ext disp) u = (\<exists>x. r = Inr x \<and>
     u = stamp now (provisioned (''u_'' @ x) ''@channel_user'' role_channel_user disp (trim_space owner) (trim_space ext) []))"
| "new_row c _ u = False"

fun row_edit :: "golib \<Rightarrow> account_op \<Rightarrow> (string \<times> (user_rec \<Rightarrow> user_rec)) option" where
  "row_edit c (Op_Update now u disp role st q) =
     (if role \<in> {[], role_super_admin, role_user} \<and> st \<in> {[], user_active, user_disabled}
      then Some (u, edit_update now disp role st q) else None)"
| "row_edit c (Op_Profile now u disp av) = Some (u, \<lambda>r. r\<lparr>u_display := disp, u_avatar := av, u_updated := now\<rparr>)"
| "row_edit c (Op_Set_Password now u pw) = (case bcrypt_hash c pw of
     Inl _ \<Rightarrow> None | Inr h \<Rightarrow> Some (u, \<lambda>r. r\<lparr>u_hash := h, u_updated := now\<rparr>))"
| "row_edit c _ = None"

text \<open>The row of the same end user of the same owner.\<close>

definition same_end_user :: "user_rec \<Rightarrow> user_rec \<Rightarrow> bool" where
  "same_end_user u r = (u_owner u \<noteq> [] \<and> u_external u \<noteq> [] \<and> u_owner r = u_owner u \<and> u_external r = u_external u)"

inductive users_step :: "golib \<Rightarrow> account_op \<Rightarrow> user_rec list \<Rightarrow> user_rec list \<Rightarrow> bool" for c a where
  us_same: "users_step c a us us"
| us_add: "new_row c a u \<Longrightarrow> \<forall>r \<in> set us. \<not> user_clash u r \<and> \<not> same_end_user u r \<Longrightarrow> users_step c a us (us @ [u])"
| us_edit: "row_edit c a = Some (uid, f) \<Longrightarrow> users_step c a us (tbl_update (\<lambda>r. u_id r = uid) f us)"
| us_remove: "a = Op_Delete uid \<Longrightarrow>
    (\<forall>r \<in> set us. u_id r = uid \<and> u_role r = role_super_admin \<longrightarrow> 1 < length (filter active_admin us)) \<Longrightarrow>
    users_step c a us (tbl_delete (\<lambda>r. u_id r = uid) us)"

inductive_cases users_stepE: "users_step c a us us'"

interpretation on_users: step_invariant "\<lambda>db. P (users_t db)" for P
  by unfold_locales simp

abbreviation keeps_users :: "(user_rec list \<Rightarrow> bool) \<Rightarrow> 'a step \<Rightarrow> bool" where
  "keeps_users P m \<equiv> keeps (\<lambda>db. P (users_t db)) m"

lemma users_unchanged: "keeps_users ((=) (users_t db)) m \<Longrightarrow> users_t (snd (m db)) = users_t db"
  by (simp add: keeps_def)

lemma query_users [simp]: "users_t (snd (query q db)) = users_t db"
  by (rule users_unchanged) (rule on_users.keeps_query)

lemma get_user_Inr:
  assumes "get_user uid db = (Inr rec, db')"
  shows "tbl_first (\<lambda>u. u_id u = uid) (users_t db) = Some rec \<and> users_t db' = users_t db"
  using assms unfolding get_user_def by (rule query_result) (auto simp: found_def split: option.splits)

lemma create_user_users:
  "case create_user now u db of (r, db') \<Rightarrow>
     (users_t db' = users_t db \<and> (\<exists>e. r = Inl e)) \<or>
     (users_t db' = users_t db @ [stamp now u] \<and> r = Inr (stamp now u) \<and>
      (\<forall>x \<in> set (users_t db). \<not> user_clash (stamp now u) x))"
  by (auto simp: create_user_def Let_def stmt_def tbl_first_None split: list.splits option.splits)

lemma insert_or_reread_users:
  "users_t (snd (insert_or_reread now owner x u db)) = users_t db \<or>
   (users_t (snd (insert_or_reread now owner x u db)) = users_t db @ [stamp now u] \<and>
    (\<forall>r \<in> set (users_t db). \<not> user_clash (stamp now u) r))"
proof -
  obtain r db1 where c: "create_user now u db = (r, db1)" by (cases "create_user now u db")
  have q: "users_t (snd (attempt (get_user_by_external owner x) (\<lambda>again. case again of
       Inr a \<Rightarrow> ok (to_account a) | Inl _ \<Rightarrow> raise e) db1)) = users_t db1" for e
    unfolding get_user_by_external_def
    by (intro users_unchanged on_users.keeps_rules)
  show ?thesis
    using create_user_users [where now = now and u = u and db = db] c q
    by (cases r) (auto simp: insert_or_reread_def attempt_def step_simps)
qed

text \<open>A read by id followed by a write of the same id edits the rows of that id.\<close>

lemma update_user_users:
  "users_t (snd (update_user now u db)) = users_t db \<or>
   users_t (snd (update_user now u db)) = tbl_update (\<lambda>r. u_id r = u_id u)
      (\<lambda>r. r\<lparr>u_name := u_name u, u_email := u_email u, u_hash := u_hash u, u_display := u_display u,
           u_role := u_role u, u_status := u_status u, u_avatar := u_avatar u, u_quota := u_quota u,
           u_updated := now\<rparr>) (users_t db)"
  by (auto simp: update_user_def stmt_def split: list.splits option.splits)

lemma read_write_users:
  assumes "distinct (map u_id (users_t db))" and "get_user uid db = (Inr rec, db1)"
    and g: "u_id (g rec) = uid"
      "f rec = rec\<lparr>u_name := u_name (g rec), u_email := u_email (g rec), u_hash := u_hash (g rec),
        u_display := u_display (g rec), u_role := u_role (g rec), u_status := u_status (g rec),
        u_avatar := u_avatar (g rec), u_quota := u_quota (g rec), u_updated := now\<rparr>"
  shows "users_t (snd (update_user now (g rec) db1)) = users_t db \<or>
    users_t (snd (update_user now (g rec) db1)) = tbl_update (\<lambda>r. u_id r = uid) f (users_t db)"
proof -
  from get_user_Inr [OF assms(2)] have rec: "rec \<in> set (users_t db)" "u_id rec = uid"
    and same: "users_t db1 = users_t db" by (auto dest: tbl_first_SomeD)
  have "r = rec" if "r \<in> set (users_t db)" "u_id r = uid" for r
    using that rec assms(1) by (metis distinct_map inj_onD)
  then have "tbl_update (\<lambda>r. u_id r = u_id (g rec))
      (\<lambda>r. r\<lparr>u_name := u_name (g rec), u_email := u_email (g rec), u_hash := u_hash (g rec), u_display := u_display (g rec),
           u_role := u_role (g rec), u_status := u_status (g rec), u_avatar := u_avatar (g rec), u_quota := u_quota (g rec),
           u_updated := now\<rparr>) (users_t db) = tbl_update (\<lambda>r. u_id r = uid) f (users_t db)"
    unfolding tbl_update_def map_eq_conv g(1) using g(2) by auto
  then show ?thesis using update_user_users [where now = now and u = "g rec" and db = db1] same by simp
qed

lemma keeps_users_write: "(\<And>db. users_t (snd (f db)) = users_t db) \<Longrightarrow> keeps_users P (stmt f)"
  by (rule on_users.keeps_stmt) (simp add: keeps_def)

lemma other_writes:
  "keeps_users P (create_apikey_row k)" "keeps_users P (rotate_apikey i h p)"
  "keeps_users P (set_apikey_agents i aids)" "keeps_users P (delete_apikey i)"
  "keeps_users P (create_web_session w)" "keeps_users P (delete_web_session sid)"
  unfolding create_apikey_row_def rotate_apikey_def set_apikey_agents_def delete_apikey_def insert_acl_def
    create_web_session_def delete_web_session_def
  by (intro on_users.keeps_tx on_users.keeps_rules keeps_users_write; simp)+

text \<open>No deletion gets past the statement on \<open>configs\<close>.\<close>

lemma stmt_raise: "stmt (raise e) db \<noteq> (Inr a, db')"
  by (auto simp: stmt_def raise_def split: list.splits option.splits)

lemma tx_fails:
  assumes "\<And>db a db'. body db \<noteq> (Inr a, db')"
  shows "\<exists>e p. tx body db = (Inl e, db\<lparr>plan := p\<rparr>)"
proof (cases "and_then (stmt (ok ())) (\<lambda>_. and_then body (\<lambda>_. stmt (ok ()))) db")
  case (Pair r db')
  then show ?thesis using assms by (cases r) (auto simp: tx_def and_then_Inr)
qed

text \<open>A step that always ends in an error and leaves the tables as they are.\<close>

definition fails :: "'a step \<Rightarrow> bool" where
  "fails m = (\<forall>db. \<exists>e p. m db = (Inl e, db\<lparr>plan := p\<rparr>))"

lemma fails_raise: "fails (raise e)"
proof -
  have "raise e db = (Inl e, db\<lparr>plan := plan db\<rparr>)" for db by (simp add: raise_def)
  then show ?thesis unfolding fails_def by blast
qed

lemma fails_after_query:
  assumes "\<And>a. fails (f a)"
  shows "fails (and_then (query q) f)"
  unfolding fails_def
proof
  fix db
  obtain r db' where run: "query q db = (r, db')" by (cases "query q db")
  then obtain p where db': "db' = db\<lparr>plan := p\<rparr>" by (rule query_result)
  show "\<exists>e p. and_then (query q) f db = (Inl e, db\<lparr>plan := p\<rparr>)"
  proof (cases r)
    case (Inl e)
    then show ?thesis using run db' by (auto simp: and_then_def)
  next
    case (Inr a)
    from assms [of a] obtain e p' where "f a db' = (Inl e, db'\<lparr>plan := p'\<rparr>)" unfolding fails_def by blast
    then show ?thesis using Inr run db' by (auto simp: and_then_def)
  qed
qed

lemma fails_delete_user: "fails (delete_user d uid)"
  unfolding fails_def delete_user_def by (intro allI tx_fails) (auto simp: and_then_Inr stmt_raise)

lemma fails_delete_account: "fails (delete_account d uid)"
  unfolding delete_account_def get_user_def list_users_def
  by (rule fails_after_query) (simp add: fails_after_query fails_raise fails_delete_user)

lemma delete_account_fails: "\<exists>e p. delete_account d uid db = (Inl e, db\<lparr>plan := p\<rparr>)"
  using fails_delete_account by (simp add: fails_def)

lemma delete_account_step: "users_step c (Op_Delete uid) (users_t db) (users_t (snd (delete_account d uid db)))"
  using delete_account_fails [of d uid db] by (auto intro: us_same)

text \<open>Adding rows.\<close>

definition adds :: "(user_rec \<Rightarrow> bool) \<Rightarrow> user_rec list \<Rightarrow> user_rec list \<Rightarrow> bool" where
  "adds N us us' = (us' = us \<or> (\<exists>u. N u \<and> (\<forall>r \<in> set us. \<not> user_clash u r \<and> \<not> same_end_user u r) \<and> us' = us @ [u]))"

lemma adds_step: "adds (new_row c a) us us' \<Longrightarrow> users_step c a us us'"
  by (auto simp: adds_def intro: users_step.intros)

lemma insert_adds:
  assumes "N (stamp now u)" "\<forall>r \<in> set (users_t db). \<not> same_end_user (stamp now u) r"
  shows "adds N (users_t db) (users_t (snd (insert_or_reread now owner x u db)))"
  using insert_or_reread_users [of now owner x u db] assms by (auto simp: adds_def)

lemma create_adds:
  assumes "N (stamp now u)" "\<forall>r \<in> set (users_t db). \<not> same_end_user (stamp now u) r"
  shows "adds N (users_t db) (users_t (snd (and_then (create_user now u) (\<lambda>rec. ok (to_account rec)) db)))"
  using create_user_users [where now = now and u = u and db = db] assms
  by (auto simp: adds_def and_then_def step_simps split: prod.splits sum.splits)

lemma create_fresh_adds:
  "adds (\<lambda>u. \<exists>x h. rnd = Inr x \<and> bcrypt_hash c (ci_password inp) = Inr h \<and>
      (ci_role inp = [] \<or> ci_role inp = role_super_admin \<or> ci_role inp = role_user) \<and>
      u = stamp now (account_row c (''u_'' @ x) h k e inp)) (users_t db) (users_t (snd (create_fresh c now rnd k e inp db)))"
  (is "adds ?N _ _")
proof (cases "trim_space (ci_name inp) = [] \<or> str_lower c (trim_space (ci_email inp)) = [] \<or> ci_password inp = []")
  case False
  note nonempty = this
  show ?thesis
  proof (cases "ci_role inp = [] \<or> ci_role inp = role_super_admin \<or> ci_role inp = role_user")
    case True
    show ?thesis
    proof (cases "bcrypt_hash c (ci_password inp)")
      case (Inr h)
      show ?thesis
      proof (cases rnd)
        case (Inr x)
        have N: "?N (stamp now (account_row c (''u_'' @ x) h k e inp))"
          using True Inr \<open>bcrypt_hash c (ci_password inp) = Inr h\<close> by blast
        have P: "\<forall>r \<in> set us. \<not> same_end_user (stamp now (account_row c (''u_'' @ x) h k e inp)) r" for us
          by (simp add: same_end_user_def stamp_def account_row_def)
        show ?thesis
          using insert_adds [of ?N, OF N P] create_adds [of ?N, OF N P] nonempty True Inr \<open>bcrypt_hash c (ci_password inp) = Inr h\<close>
          by (auto simp: create_fresh_def Let_def step_simps and_then_def [of "lift_result _"] and_then_def [of "new_id _ _"] new_id_def)
      qed (use nonempty True Inr in \<open>auto simp: create_fresh_def Let_def step_simps and_then_def [of "lift_result _"] and_then_def [of "new_id _ _"] new_id_def adds_def\<close>)
    qed (use nonempty True in \<open>auto simp: create_fresh_def Let_def step_simps and_then_def [of "lift_result _"] adds_def\<close>)
  qed (use nonempty in \<open>auto simp: create_fresh_def Let_def step_simps adds_def\<close>)
qed (auto simp: create_fresh_def Let_def step_simps adds_def)

lemma forget_users [simp]: "users_t (snd (forget m db)) = users_t (snd (m db))"
  by (simp add: forget_def and_then_def step_simps split: prod.split sum.split)

lemma external_users [simp]: "users_t (snd (get_user_by_external owner x db)) = users_t db"
  by (simp add: get_user_by_external_def step_simps)

lemma external_not_found:
  assumes "get_user_by_external owner x db = (Inl Not_Found, db1)" "owner \<noteq> []" "x \<noteq> []"
  shows "\<forall>r \<in> set (users_t db). \<not> (u_owner r = owner \<and> u_external r = x)"
  using assms unfolding get_user_by_external_def
  by (simp, elim query_result) (auto simp: found_def tbl_first_None split: option.splits)

lemma attempt_external:
  assumes "\<And>db'. users_t db' = users_t db \<Longrightarrow>
      (owner \<noteq> [] \<longrightarrow> x \<noteq> [] \<longrightarrow> (\<forall>r \<in> set (users_t db). \<not> (u_owner r = owner \<and> u_external r = x))) \<Longrightarrow>
      adds N (users_t db) (users_t (snd (f db')))"
  shows "adds N (users_t db) (users_t (snd (attempt (get_user_by_external owner x) (\<lambda>r. case r of
      Inr rec \<Rightarrow> ok (to_account rec) | Inl e \<Rightarrow> if e = Not_Found then f else raise e) db)))"
proof (cases "get_user_by_external owner x db")
  case (Pair r db1)
  then have same: "users_t db1 = users_t db" by (metis external_users snd_conv)
  show ?thesis
  proof (cases "r = Inl Not_Found")
    case True
    then show ?thesis
      using Pair assms [OF same] external_not_found [of owner x db db1] by (simp add: attempt_def)
  next
    case False
    then show ?thesis using Pair same by (cases r) (auto simp: attempt_def step_simps adds_def)
  qed
qed

lemma create_account_step: "users_step c (Op_Create now rnd inp) (users_t db) (users_t (snd (create_account c now rnd inp db)))"
proof -
  let ?fresh = "create_fresh c now rnd (trim_space (ci_key inp)) (trim_space (ci_external inp)) inp"
  have fresh: "adds (new_row c (Op_Create now rnd inp)) (users_t db') (users_t (snd (?fresh db')))" for db'
    using create_fresh_adds [of rnd c inp now "trim_space (ci_key inp)" "trim_space (ci_external inp)" db']
    unfolding adds_def new_row.simps by blast
  have "adds (new_row c (Op_Create now rnd inp)) (users_t db) (users_t (snd (create_account c now rnd inp db)))"
  proof (cases "trim_space (ci_key inp) \<noteq> [] \<and> trim_space (ci_external inp) \<noteq> []")
    case True
    show ?thesis unfolding create_account_def Let_def if_P [OF True] by (rule attempt_external) (metis fresh)
  qed (simp only: create_account_def Let_def fresh if_False)
  then show ?thesis by (rule adds_step)
qed

lemma ensure_adds:
  assumes N: "\<And>x. rnd = Inr x \<Longrightarrow> N (stamp now (provisioned (''u_'' @ x) mail role disp owner ext k))"
  shows "adds N (users_t db) (users_t (snd (ensure_provisioned now rnd mail role disp owner ext k db)))"
  unfolding ensure_provisioned_def
proof (rule attempt_external)
  fix db' :: id_db
  assume same: "users_t db' = users_t db"
    and new: "owner \<noteq> [] \<longrightarrow> ext \<noteq> [] \<longrightarrow> (\<forall>r \<in> set (users_t db). \<not> (u_owner r = owner \<and> u_external r = ext))"
  have "\<forall>r \<in> set (users_t db'). \<not> same_end_user (stamp now (provisioned u mail role disp owner ext k)) r" for u
    using new same by (auto simp: same_end_user_def stamp_def provisioned_def)
  then have "adds N (users_t db') (users_t (snd (ensure_insert now rnd mail role disp owner ext k db')))"
    using insert_adds [of N, OF N]
    by (cases rnd) (auto simp: ensure_insert_def new_id_def and_then_def [of "case _ of Inl _ \<Rightarrow> _ | Inr _ \<Rightarrow> _"]
      and_then_def [of "ok _"] and_then_def [of "raise _"] step_simps adds_def)
  then show "adds N (users_t db) (users_t (snd (ensure_insert now rnd mail role disp owner ext k db')))"
    using same by simp
qed

lemma ensure_app_user_step:
  "users_step c (Op_App_User now rnd owner ext disp k) (users_t db) (users_t (snd (ensure_app_user now rnd owner ext disp k db)))"
  by (rule adds_step) (auto simp: ensure_app_user_def Let_def step_simps adds_def [of _ _ "users_t db"] intro!: ensure_adds)

lemma ensure_chatter_step:
  "users_step c (Op_Chatter now rnd owner ext disp) (users_t db) (users_t (snd (ensure_chatter now rnd owner ext disp db)))"
  by (rule adds_step) (auto simp: ensure_chatter_def Let_def step_simps adds_def [of _ _ "users_t db"] intro!: ensure_adds)

lemma save_user_users: "users_t (snd (save_user now u db)) = users_t (snd (update_user now u db))"
  by (simp add: save_user_def and_then_def step_simps split: prod.split sum.split)

text \<open>Handlers that read a row and then write it.\<close>

lemma read_then:
  assumes "distinct (map u_id (users_t db))"
    and "\<And>rec db1. get_user uid db = (Inr rec, db1) \<Longrightarrow> u_id rec = uid \<Longrightarrow> users_t db1 = users_t db \<Longrightarrow>
      users_step c a (users_t db) (users_t (snd (f rec db1)))"
  shows "users_step c a (users_t db) (users_t (snd (and_then (get_user uid) f db)))"
proof (cases "get_user uid db")
  case (Pair r db1)
  show ?thesis
  proof (cases r)
    case (Inl e)
    have "users_t db1 = users_t db" using Pair by (metis get_user_def query_users snd_conv)
    then show ?thesis using Pair Inl by (simp add: step_simps us_same)
  next
    case (Inr rec)
    have "tbl_first (\<lambda>u. u_id u = uid) (users_t db) = Some rec \<and> users_t db1 = users_t db"
      using get_user_Inr Pair Inr by simp
    then show ?thesis using assms(2) [of rec db1] Pair Inr by (auto simp: step_simps dest: tbl_first_SomeD)
  qed
qed

lemma write_step:
  assumes "distinct (map u_id (users_t db))" "get_user uid db = (Inr rec, db1)" "u_id (g rec) = uid"
    and "row_edit c a = Some (uid, f)"
    and "f rec = rec\<lparr>u_name := u_name (g rec), u_email := u_email (g rec), u_hash := u_hash (g rec),
        u_display := u_display (g rec), u_role := u_role (g rec), u_status := u_status (g rec),
        u_avatar := u_avatar (g rec), u_quota := u_quota (g rec), u_updated := now\<rparr>"
  shows "users_step c a (users_t db) (users_t (snd (update_user now (g rec) db1)))"
  using read_write_users [where g = g and f = f, OF assms(1-3,5)] us_edit [OF assms(4)] us_same by metis

lemma update_account_step:
  assumes d: "distinct (map u_id (users_t db))"
  shows "users_step c (Op_Update now uid disp role st q) (users_t db) (users_t (snd (update_account now uid disp role st q db)))"
  unfolding update_account_def
proof (rule read_then [OF d])
  fix rec and db1 :: id_db
  assume r: "get_user uid db = (Inr rec, db1)" "u_id rec = uid" "users_t db1 = users_t db"
  have w: "users_step c (Op_Update now uid disp role st q) (users_t db) (users_t (snd (update_user now (edit_update now disp role st q rec) db1)))"
    if "role \<in> {[], role_super_admin, role_user} \<and> st \<in> {[], user_active, user_disabled}"
    by (rule write_step [OF d r(1), where f = "edit_update now disp role st q"])
      (use that r in \<open>simp_all add: edit_update_def\<close>)
  have u: "update_user now (x\<lparr>u_updated := t\<rparr>) = update_user now x" for x t
    by (simp add: update_user_def cong: if_cong)
  show "users_step c (Op_Update now uid disp role st q) (users_t db) (users_t (snd ((let rec1 = (if disp \<noteq> [] then rec\<lparr>u_display := disp\<rparr> else rec)
     in if role \<noteq> [] \<and> role \<noteq> role_super_admin \<and> role \<noteq> role_user then raise (Refused ''users.Update: invalid role'')
        else let rec2 = (if role \<noteq> [] then rec1\<lparr>u_role := role\<rparr> else rec1)
        in if st \<noteq> [] \<and> st \<noteq> user_active \<and> st \<noteq> user_disabled
           then raise (Refused ''users.Update: invalid status'')
           else let rec3 = (if st \<noteq> [] then rec2\<lparr>u_status := st\<rparr> else rec2);
                    rec4 = (case q of None \<Rightarrow> rec3 | Some x \<Rightarrow> rec3\<lparr>u_quota := x\<rparr>)
                in save_user now rec4) db1)))"
    using w r(3) u unfolding Let_def edit_update_def
    by (cases q; auto simp: step_simps us_same save_user_users)
qed

lemma update_profile_step:
  assumes d: "distinct (map u_id (users_t db))"
  shows "users_step c (Op_Profile now uid disp av) (users_t db) (users_t (snd (update_profile now uid disp av db)))"
  unfolding update_profile_def
proof (rule read_then [OF d])
  fix rec and db1 :: id_db
  assume r: "get_user uid db = (Inr rec, db1)" "u_id rec = uid" "users_t db1 = users_t db"
  show "users_step c (Op_Profile now uid disp av) (users_t db) (users_t (snd (save_user now (rec\<lparr>u_display := disp, u_avatar := av\<rparr>) db1)))"
    unfolding save_user_users
    by (rule write_step [OF d r(1), where g = "\<lambda>r. r\<lparr>u_display := disp, u_avatar := av\<rparr>" and c = c]) (use r in simp_all)
qed

lemma set_password_step:
  assumes d: "distinct (map u_id (users_t db))"
  shows "users_step c (Op_Set_Password now uid pw) (users_t db) (users_t (snd (set_password c now uid pw db)))"
proof (cases "pw = []")
  case False
  have "users_step c (Op_Set_Password now uid pw) (users_t db) (users_t (snd (and_then (get_user uid) (\<lambda>rec.
           and_then (lift_result (bcrypt_hash c pw)) (\<lambda>hash. update_user now (rec\<lparr>u_hash := hash\<rparr>))) db)))"
  proof (rule read_then [OF d])
    fix rec and db1 :: id_db
    assume r: "get_user uid db = (Inr rec, db1)" "u_id rec = uid" "users_t db1 = users_t db"
    show "users_step c (Op_Set_Password now uid pw) (users_t db) (users_t (snd (and_then (lift_result (bcrypt_hash c pw))
        (\<lambda>hash. update_user now (rec\<lparr>u_hash := hash\<rparr>)) db1)))"
    proof (cases "bcrypt_hash c pw")
      case (Inr h)
      have "users_step c (Op_Set_Password now uid pw) (users_t db) (users_t (snd (update_user now (rec\<lparr>u_hash := h\<rparr>) db1)))"
        by (rule write_step [OF d r(1), where g = "\<lambda>r. r\<lparr>u_hash := h\<rparr>" and c = c]) (use r Inr in simp_all)
      then show ?thesis using Inr by (simp add: and_then_def step_simps)
    qed (use r in \<open>simp add: and_then_def step_simps us_same\<close>)
  qed
  then show ?thesis using False by (simp add: set_password_def)
qed (simp add: set_password_def step_simps us_same)

text \<open>Every operation, whatever the driver answers, is a step of the contract.\<close>

lemma run_op_refines:
  assumes "distinct (map u_id (users_t db))"
  shows "users_step c a (users_t db) (users_t (snd (run_op c d a db)))"
proof -
  have same: "users_step c a (users_t db) (users_t (snd (m db)))" if "keeps_users ((=) (users_t db)) m" for m :: "unit step"
    using users_unchanged [OF that] us_same by metis
  note reads = get_user_def get_user_by_login_def lookup_apikey_by_hash_def get_apikey_def list_agents_def
    list_apikey_agents_def new_id_def
  show ?thesis
  proof (cases a)
    case (Op_Authenticate login pw)
    show ?thesis unfolding Op_Authenticate run_op.simps
      by (rule same [unfolded Op_Authenticate], unfold authenticate_def reads Let_def, intro on_users.keeps_rules)
  next
    case (Op_Issue_Key now r1 r2 u name ty aids)
    show ?thesis unfolding Op_Issue_Key run_op.simps
      by (rule same [unfolded Op_Issue_Key], unfold create_apikey_def issue_key_def reads Let_def,
          intro on_users.keeps_rules other_writes)
  next
    case (Op_Rotate_Key r k)
    show ?thesis unfolding Op_Rotate_Key run_op.simps
      by (rule same [unfolded Op_Rotate_Key], unfold rotate_key_def reads, intro on_users.keeps_rules other_writes)
  next
    case (Op_Delete_Key k)
    show ?thesis unfolding Op_Delete_Key run_op.simps
      by (rule same [unfolded Op_Delete_Key], rule other_writes)
  next
    case (Op_Set_Agents k aids)
    show ?thesis unfolding Op_Set_Agents run_op.simps
      by (rule same [unfolded Op_Set_Agents], unfold set_agents_def reads, intro on_users.keeps_rules other_writes)
  next
    case (Op_Lookup t)
    show ?thesis unfolding Op_Lookup run_op.simps
      by (rule same [unfolded Op_Lookup], unfold lookup_by_token_def key_agents_def reads, intro on_users.keeps_rules)
  qed (simp_all add: create_account_step update_account_step update_profile_step set_password_step
      ensure_app_user_step ensure_chatter_step delete_account_step assms)
qed

section \<open>Well-formed user tables\<close>

definition keyed_pairs :: "user_rec list \<Rightarrow> (string \<times> string) list" where
  "keyed_pairs us = map (\<lambda>u. (u_key u, u_external u)) (filter (\<lambda>u. u_key u \<noteq> [] \<and> u_external u \<noteq> []) us)"

definition end_users :: "user_rec list \<Rightarrow> (string \<times> string) list" where
  "end_users us = map (\<lambda>u. (u_owner u, u_external u)) (filter (\<lambda>u. u_owner u \<noteq> [] \<and> u_external u \<noteq> []) us)"

definition user_typed :: "user_rec \<Rightarrow> bool" where
  "user_typed u = (u_role u \<in> {role_super_admin, role_user, role_app_user, role_channel_user} \<and>
     u_status u \<in> {user_active, user_disabled})"

definition identity_ok :: "user_rec list \<Rightarrow> bool" where
  "identity_ok us = (distinct (map u_id us) \<and> distinct (map u_name us) \<and> distinct (map u_email us) \<and>
     distinct (keyed_pairs us) \<and> distinct (end_users us) \<and> (\<forall>u \<in> set us. user_typed u))"

text \<open>What no edit of a row changes.\<close>

lemma row_edit_frozen:
  assumes "row_edit c a = Some (uid, f)"
  shows "u_id (f r) = u_id r" "u_name (f r) = u_name r" "u_email (f r) = u_email r" "u_key (f r) = u_key r"
    "u_external (f r) = u_external r" "u_owner (f r) = u_owner r" "u_created (f r) = u_created r"
    "user_typed r \<Longrightarrow> user_typed (f r)"
  using assms
  by (induction c a rule: row_edit.induct;
      auto simp: edit_update_def user_typed_def split: if_splits sum.splits option.splits)+

lemma keyed_update:
  assumes "\<And>r. p (f r) = p r" "\<And>r. k (f r) = k r"
  shows "map k (filter p (tbl_update w f t)) = map k (filter p t)"
  using assms by (induction t) (simp_all add: tbl_update_def)

lemma keyed_delete:
  "distinct (map k (filter p t)) \<Longrightarrow> distinct (map k (filter p (tbl_delete w t)))"
  by (induction t) (auto simp: tbl_delete_def)

lemma tbl_delete_subset: "set (tbl_delete w t) \<subseteq> set t"
  by (auto simp: tbl_delete_def)

lemma new_row_typed: "new_row c a u \<Longrightarrow> user_typed u"
  by (induction c a u rule: new_row.induct)
    (auto simp: user_typed_def stamp_def account_row_def provisioned_def)

lemma users_step_ok:
  assumes "users_step c a us us'" "identity_ok us"
  shows "identity_ok us'"
  using assms(1)
proof cases
  case us_same
  then show ?thesis using assms(2) by simp
next
  case (us_add u)
  then have "user_typed u" by (simp add: new_row_typed)
  then show ?thesis
    using assms(2) us_add(1,3)
    by (auto simp: identity_ok_def keyed_pairs_def end_users_def user_clash_def same_end_user_def)
next
  case (us_edit uid f)
  note frozen = row_edit_frozen [OF us_edit(2)]
  have "keyed_pairs us' = keyed_pairs us" "end_users us' = end_users us"
    unfolding us_edit(1) keyed_pairs_def end_users_def by (simp_all add: keyed_update frozen)
  moreover have "\<forall>u \<in> set us'. user_typed u"
    using assms(2) frozen(8) by (auto simp: us_edit(1) identity_ok_def tbl_update_def)
  ultimately show ?thesis
    using assms(2) by (simp add: identity_ok_def us_edit(1) tbl_update_key frozen)
next
  case (us_remove uid)
  then show ?thesis
    using assms(2) tbl_delete_subset [of _ us]
    by (simp add: identity_ok_def keyed_pairs_def end_users_def keyed_delete tbl_delete_distinct subset_iff)
qed

definition run_ops :: "golib \<Rightarrow> dialect \<Rightarrow> account_op list \<Rightarrow> id_db \<Rightarrow> id_db" where
  "run_ops c d as db = foldl (\<lambda>db a. snd (run_op c d a db)) db as"

lemma run_ops_simps [simp]:
  "run_ops c d [] db = db" "run_ops c d (a # as) db = run_ops c d as (snd (run_op c d a db))"
  by (simp_all add: run_ops_def)

lemma run_op_ok: "identity_ok (users_t db) \<Longrightarrow> identity_ok (users_t (snd (run_op c d a db)))"
  using run_op_refines users_step_ok by (metis identity_ok_def)

lemma run_ops_ok: "identity_ok (users_t db) \<Longrightarrow> identity_ok (users_t (run_ops c d as db))"
  by (induction as arbitrary: db) (simp_all add: run_op_ok)

text \<open>The tables of API keys: ids are unique and no agent is granted twice.\<close>

definition keys_ok :: "id_db \<Rightarrow> bool" where
  "keys_ok db = (distinct (map k_id (keys_t db)) \<and> distinct (acl_t db))"

interpretation on_keys: step_invariant keys_ok
  by unfold_locales (simp add: keys_ok_def)

lemma keys_write:
  "(\<And>db. keys_ok db \<Longrightarrow> keys_ok (snd (f db))) \<Longrightarrow> keeps keys_ok (stmt f)"
  by (rule on_keys.keeps_stmt) (simp add: keeps_def)

lemma acl_delete: "distinct a \<Longrightarrow> distinct (tbl_delete w a)"
  by (simp add: tbl_delete_def)

lemma keys_ok_plan: "keys_ok (db\<lparr>plan := p\<rparr>) = keys_ok db"
  by (simp add: keys_ok_def)

lemma run_op_keys: "keys_ok db \<Longrightarrow> keys_ok (snd (run_op c d a db))"
proof -
  have acl: "keeps keys_ok (insert_acl k aid)" for k aid
    unfolding insert_acl_def by (rule keys_write) (simp add: keys_ok_def)
  have "keeps keys_ok (run_op c d a)"
  proof (rule on_keys.keeps_ops)
    show "keeps keys_ok (set_apikey_agents k aids)" for k aids
      unfolding set_apikey_agents_def
      by (intro on_keys.keeps_tx on_keys.keeps_rules acl keys_write) (simp add: keys_ok_def acl_delete)
    show "keeps keys_ok (delete_account d u)" for u
      unfolding keeps_def using delete_account_fails [of d u] by (metis keys_ok_plan snd_conv)
    show "keeps keys_ok (delete_apikey k)" for k
      unfolding delete_apikey_def
      by (intro on_keys.keeps_tx on_keys.keeps_rules keys_write; simp add: keys_ok_def acl_delete tbl_delete_distinct)
    show "keeps keys_ok (rotate_apikey k h p)" for k h p
      unfolding rotate_apikey_def by (rule keys_write) (simp add: keys_ok_def tbl_update_key)
    show "keeps keys_ok (create_apikey_row k)" for k
      unfolding create_apikey_row_def by (rule keys_write) (auto simp: keys_ok_def tbl_first_None)
  qed (unfold create_user_def update_user_def Let_def, (rule keys_write, simp add: keys_ok_def)+)
  then show "keys_ok db \<Longrightarrow> ?thesis" by (simp add: keeps_def)
qed

lemma run_ops_keys: "keys_ok db \<Longrightarrow> keys_ok (run_ops c d as db)"
  by (induction as arbitrary: db) (simp_all add: run_op_keys)

section \<open>Provisioned users keep their id\<close>

lemma external_first:
  assumes "plan db = []" "distinct (end_users (users_t db))" "u \<in> set (users_t db)"
    "u_owner u \<noteq> []" "u_external u \<noteq> []"
  shows "get_user_by_external (u_owner u) (u_external u) db = (Inr u, db)"
proof -
  let ?us = "sort_key created_at (users_t db)"
  let ?w = "\<lambda>r. u_owner r = u_owner u \<and> u_external r = u_external u"
  have one: "r = u" if "r \<in> set ?us" "?w r" for r
  proof -
    have "inj_on (\<lambda>r. (u_owner r, u_external r)) (set (filter (\<lambda>u. u_owner u \<noteq> [] \<and> u_external u \<noteq> []) (users_t db)))"
      using assms(2) by (simp add: end_users_def distinct_map)
    then show ?thesis by (rule inj_onD) (use that assms in auto)
  qed
  obtain r where r: "tbl_first ?w ?us = Some r"
    using assms(3) by (cases "tbl_first ?w ?us") (auto simp: tbl_first_None)
  with one have "r = u" by (auto dest: tbl_first_SomeD)
  with r show ?thesis using assms by (simp add: get_user_by_external_def step_simps)
qed

text \<open>A row stays, with its frozen columns, under every operation that does not delete it.\<close>

definition same_row :: "user_rec \<Rightarrow> user_rec \<Rightarrow> bool" where
  "same_row u v = (u_id v = u_id u \<and> u_owner v = u_owner u \<and> u_external v = u_external u \<and> u_key v = u_key u)"

lemma users_step_row:
  assumes "users_step c a us us'" "u \<in> set us" "a \<noteq> Op_Delete (u_id u)"
  shows "\<exists>v \<in> set us'. same_row u v"
  using assms(1)
proof cases
  case (us_edit uid f)
  have "same_row u (if u_id u = uid then f u else u)"
    using row_edit_frozen [OF us_edit(2), of u] by (simp add: same_row_def)
  moreover have "(if u_id u = uid then f u else u) \<in> set us'"
    using assms(2) unfolding us_edit(1) tbl_update_def by simp
  ultimately show ?thesis by blast
qed (use assms in \<open>auto simp: same_row_def tbl_delete_def\<close>)

lemma run_ops_row:
  assumes "identity_ok (users_t db)" "u \<in> set (users_t db)" "Op_Delete (u_id u) \<notin> set as"
  shows "\<exists>v \<in> set (users_t (run_ops c d as db)). same_row u v"
  using assms
proof (induction as arbitrary: db u)
  case (Cons a as)
  have "users_step c a (users_t db) (users_t (snd (run_op c d a db)))"
    using Cons.prems(1) by (intro run_op_refines) (simp add: identity_ok_def)
  then obtain v where v: "v \<in> set (users_t (snd (run_op c d a db)))" "same_row u v"
    using users_step_row Cons.prems(2,3) by fastforce
  have "\<exists>w \<in> set (users_t (run_ops c d as (snd (run_op c d a db)))). same_row v w"
    by (rule Cons.IH) (use Cons.prems v run_op_ok in \<open>auto simp: same_row_def\<close>)
  then show ?case using v(2) by (auto simp: same_row_def)
qed (auto simp: same_row_def)

lemma external_Inr:
  assumes "get_user_by_external owner x db = (Inr u, db1)"
  shows "u \<in> set (users_t db)" "u_owner u = owner" "u_external u = x" "owner \<noteq> []" "x \<noteq> []" "users_t db1 = users_t db"
proof -
  have ne: "owner \<noteq> [] \<and> x \<noteq> []"
    using assms by (auto simp: get_user_by_external_def step_simps split: if_splits)
  then have q: "query (\<lambda>db. found (tbl_first (\<lambda>u. u_owner u = owner \<and> u_external u = x)
             (sort_key created_at (users_t db)))) db = (Inr u, db1)"
    using assms by (simp add: get_user_by_external_def)
  then have "tbl_first (\<lambda>u. u_owner u = owner \<and> u_external u = x) (sort_key created_at (users_t db)) = Some u \<and>
      users_t db1 = users_t db"
    by (elim query_result) (auto simp: found_def split: option.splits)
  then show "u \<in> set (users_t db)" "u_owner u = owner" "u_external u = x" "users_t db1 = users_t db"
    by (auto dest: tbl_first_SomeD)
qed (use assms in \<open>auto simp: get_user_by_external_def step_simps split: if_splits\<close>)

lemma insert_result:
  assumes "insert_or_reread now owner x rec db = (Inr a, db1)" "u_owner rec = owner" "u_external rec = x"
  shows "\<exists>u \<in> set (users_t db1). u_id u = ac_id a \<and> u_owner u = owner \<and> u_external u = x"
proof (cases "create_user now rec db")
  case (Pair r db2)
  note c = create_user_users [where now = now and u = rec and db = db, unfolded Pair prod.case]
  show ?thesis
  proof (cases r)
    case (Inr rec')
    then show ?thesis
      using assms Pair c by (auto simp: insert_or_reread_def attempt_def step_simps to_account_def stamp_def)
  next
    case (Inl e)
    obtain q db3 where g: "get_user_by_external owner x db2 = (q, db3)" by (cases "get_user_by_external owner x db2")
    then obtain u where q: "q = Inr u" "a = to_account u" "db1 = db3"
      using assms(1) Pair Inl by (cases q) (auto simp: insert_or_reread_def attempt_def step_simps)
    show ?thesis using external_Inr [OF g [unfolded q]] q by (auto simp: to_account_def)
  qed
qed

lemma ensure_app_user_result:
  assumes "ensure_app_user now r owner ext disp k db = (Inr a, db1)"
  shows "\<exists>u \<in> set (users_t db1). u_id u = ac_id a \<and> u_owner u = trim_space owner \<and> u_external u = trim_space ext"
    and "trim_space owner \<noteq> []" "trim_space ext \<noteq> []"
proof -
  show ne: "trim_space owner \<noteq> []" "trim_space ext \<noteq> []"
    using assms by (auto simp: ensure_app_user_def Let_def step_simps split: if_splits)
  let ?o = "trim_space owner" and ?x = "trim_space ext"
  have e: "ensure_provisioned now r ''@app_user'' role_app_user disp ?o ?x k db = (Inr a, db1)"
    using assms ne by (simp add: ensure_app_user_def Let_def)
  obtain q db2 where g: "get_user_by_external ?o ?x db = (q, db2)" by (cases "get_user_by_external ?o ?x db")
  show "\<exists>u \<in> set (users_t db1). u_id u = ac_id a \<and> u_owner u = ?o \<and> u_external u = ?x"
  proof (cases q)
    case (Inr u)
    then have "a = to_account u" "db1 = db2"
      using e g by (simp_all add: ensure_provisioned_def attempt_def step_simps)
    with external_Inr [OF g [unfolded Inr]] show ?thesis by (auto simp: to_account_def)
  next
    case (Inl err)
    then have "err = Not_Found" "ensure_insert now r ''@app_user'' role_app_user disp ?o ?x k db2 = (Inr a, db1)"
      using e g by (auto simp: ensure_provisioned_def attempt_def step_simps split: if_splits)
    then obtain u where "insert_or_reread now ?o ?x (provisioned u ''@app_user'' role_app_user disp ?o ?x k) db2 = (Inr a, db1)"
      by (cases r) (auto simp: ensure_insert_def new_id_def and_then_def step_simps)
    then show ?thesis by (rule insert_result) (simp_all add: provisioned_def)
  qed
qed

section \<open>Properties\<close>

text \<open>C26: No sequence of account and key operations, whatever the driver answers to each statement,
  breaks the users table: ids, names and addresses stay unique, so do the pairs of API key and
  external id and those of owner and external id, and every role and status stays legal. Nor do they
  break the key tables: key ids stay unique and no agent is granted to a key twice.\<close>

theorem accounts_well_formed:
  assumes "identity_ok (users_t db)" and "keys_ok db"
  shows "identity_ok (users_t (run_ops c d as db)) \<and> keys_ok (run_ops c d as db)"
  using run_ops_ok [OF assms(1)] run_ops_keys [OF assms(2)] by blast

text \<open>C20: An end user keeps its id. After a call for an owner and an external id has returned an
  account, every later call for the pair returns the same id, changing nothing, whatever operations ran
  in between, short of deleting that account, and whichever API key makes the call.\<close>

theorem app_user_stable:
  assumes "identity_ok (users_t db)"
    and "ensure_app_user now r owner ext disp k db = (Inr a, db1)"
    and "Op_Delete (ac_id a) \<notin> set as"
    and "plan (run_ops c d as db1) = []"
  shows "\<exists>b. ensure_app_user now' r' owner ext disp' k' (run_ops c d as db1) = (Inr b, run_ops c d as db1) \<and>
    ac_id b = ac_id a"
proof -
  let ?db = "run_ops c d as db1" and ?o = "trim_space owner" and ?x = "trim_space ext"
  note res = ensure_app_user_result [OF assms(2)]
  from res(1) obtain u where u: "u \<in> set (users_t db1)" "u_id u = ac_id a" "u_owner u = ?o" "u_external u = ?x" by blast
  have ok1: "identity_ok (users_t db1)"
    using ensure_app_user_step users_step_ok assms(1,2) by (metis snd_conv)
  obtain v where v: "v \<in> set (users_t ?db)" "same_row u v"
    using run_ops_row [OF ok1 u(1)] u(2) assms(3) by metis
  have "distinct (end_users (users_t ?db))" using run_ops_ok [OF ok1] by (simp add: identity_ok_def)
  from external_first [OF assms(4) this v(1)] have "get_user_by_external ?o ?x ?db = (Inr v, ?db)"
    using v(2) u(3,4) res(2,3) by (simp add: same_row_def)
  then have "ensure_app_user now' r' owner ext disp' k' ?db = (Inr (to_account v), ?db)"
    using res(2,3) by (simp add: ensure_app_user_def ensure_provisioned_def attempt_def step_simps Let_def)
  then show ?thesis using v(2) u(2) by (simp add: same_row_def to_account_def)
qed

lemma two_satisfy:
  assumes "distinct (map u_id us)" "1 < length (filter P us)"
  shows "\<exists>r \<in> set us. P r \<and> u_id r \<noteq> uid"
proof -
  obtain x y t where f: "filter P us = x # y # t"
    using assms(2) by (cases "filter P us"; cases "tl (filter P us)") auto
  then have "set (x # y # t) = {r \<in> set us. P r}" by (metis set_filter)
  then have "x \<in> set us \<and> P x" "y \<in> set us \<and> P y" by auto
  moreover have "u_id x \<noteq> u_id y" using distinct_map_filter [OF assms(1), of P] f by simp
  ultimately show ?thesis by metis
qed

text \<open>The installation keeps an active super administrator: the only operation that can take away
  the last one is an administrator's update that demotes or disables the account; deletion, which the
  code guards, cannot.\<close>

theorem last_admin_lost_by_update:
  assumes ok: "identity_ok (users_t db)" and admin: "\<exists>u \<in> set (users_t db). active_admin u"
    and none: "\<forall>u \<in> set (users_t (snd (run_op c d a db))). \<not> active_admin u"
  shows "\<exists>now uid disp role st q. a = Op_Update now uid disp role st q \<and> (role = role_user \<or> st = user_disabled)"
proof -
  have ids: "distinct (map u_id (users_t db))" using ok by (simp add: identity_ok_def)
  obtain u where u: "u \<in> set (users_t db)" "active_admin u" using admin by blast
  from run_op_refines [OF ids, of c a d] show ?thesis
  proof cases
    case (us_edit uid f)
    have "\<not> active_admin (f u)"
      using none u unfolding us_edit(1) tbl_update_def by (cases "u_id u = uid") auto
    with us_edit(2) u(2) show ?thesis
      by (cases a) (auto simp: active_admin_def edit_update_def split: if_splits sum.splits)
  next
    case (us_remove uid)
    have "\<exists>r \<in> set (users_t db). active_admin r \<and> u_id r \<noteq> uid"
      using us_remove(3) u two_satisfy [OF ids, of active_admin uid] by (cases "u_id u = uid") (auto simp: active_admin_def)
    then show ?thesis using none unfolding us_remove(1) tbl_delete_def by auto
  qed (use none u in auto)
qed

text \<open>The unique index of the users table does not cover owner and external id, so two workers that
  both look the same person up before either inserts create two accounts, and both calls succeed;
  from then on every lookup returns the first, and the second worker has been given an account that is
  never found again.\<close>

lemma tbl_first_filter: "tbl_first w t = (case filter w t of [] \<Rightarrow> None | r # _ \<Rightarrow> Some r)"
  by (induction t) (simp_all add: table_simps)

theorem chatter_race_duplicates:
  assumes "plan db = []" "owner \<noteq> []" "x \<noteq> []" "h1 \<noteq> h2" "t1 \<le> t2"
    and new: "\<forall>r \<in> set (users_t db). \<not> (u_owner r = owner \<and> u_external r = x)"
    and ids: "\<forall>h \<in> {''u_'' @ h1, ''u_'' @ h2}. \<forall>r \<in> set (users_t db). u_id r \<noteq> h \<and> u_name r \<noteq> h \<and> u_email r \<noteq> h @ ''@channel_user''"
  shows "\<exists>a b db1 db2 u. get_user_by_external owner x db = (Inl Not_Found, db) \<and>
    ensure_insert t1 (Inr h1) ''@channel_user'' role_channel_user disp owner x [] db = (Inr a, db1) \<and>
    ensure_insert t2 (Inr h2) ''@channel_user'' role_channel_user disp owner x [] db1 = (Inr b, db2) \<and>
    ac_id a \<noteq> ac_id b \<and> get_user_by_external owner x db2 = (Inr u, db2) \<and> u_id u = ac_id a"
proof -
  define row where "row t h = stamp t (provisioned (''u_'' @ h) ''@channel_user'' role_channel_user disp owner x [])" for t h
  have cols: "u_id (row t h) = ''u_'' @ h" "u_name (row t h) = ''u_'' @ h" "u_email (row t h) = ''u_'' @ h @ ''@channel_user''"
    "u_owner (row t h) = owner" "u_external (row t h) = x" "u_key (row t h) = []" "created_at (row t h) = t" for t h
    by (simp_all add: row_def stamp_def provisioned_def created_at_def)
  have ins: "ensure_insert t (Inr h) ''@channel_user'' role_channel_user disp owner x [] s =
      (Inr (to_account (row t h)), s\<lparr>users_t := users_t s @ [row t h]\<rparr>)"
    if "plan s = []" "\<forall>r \<in> set (users_t s). \<not> user_clash (row t h) r" for t h s
    using that by (simp add: ensure_insert_def new_id_def and_then_def step_simps insert_or_reread_def attempt_def
      create_user_def Let_def tbl_first_None row_def)
  define db1 where "db1 = db\<lparr>users_t := users_t db @ [row t1 h1]\<rparr>"
  define db2 where "db2 = db1\<lparr>users_t := users_t db1 @ [row t2 h2]\<rparr>"
  have "ensure_insert t1 (Inr h1) ''@channel_user'' role_channel_user disp owner x [] db = (Inr (to_account (row t1 h1)), db1)"
    unfolding db1_def by (rule ins) (use assms in \<open>auto simp: user_clash_def cols\<close>)
  moreover have "ensure_insert t2 (Inr h2) ''@channel_user'' role_channel_user disp owner x [] db1 = (Inr (to_account (row t2 h2)), db2)"
    unfolding db2_def by (rule ins) (use assms in \<open>auto simp: user_clash_def cols db1_def\<close>)
  moreover have "get_user_by_external owner x db = (Inl Not_Found, db)"
    using assms(1-3) new tbl_first_None [of "\<lambda>u. u_owner u = owner \<and> u_external u = x" "sort_key created_at (users_t db)"]
    by (simp add: get_user_by_external_def step_simps)
  moreover have "get_user_by_external owner x db2 = (Inr (row t1 h1), db2)"
  proof -
    have "filter (\<lambda>u. u_owner u = owner \<and> u_external u = x) (sort_key created_at (users_t db2)) =
        sort_key created_at (filter (\<lambda>u. u_owner u = owner \<and> u_external u = x) (users_t db2))"
      by (simp add: filter_sort)
    also have "filter (\<lambda>u. u_owner u = owner \<and> u_external u = x) (users_t db2) = [row t1 h1, row t2 h2]"
      using new by (simp add: db2_def db1_def cols filter_empty_conv)
    finally show ?thesis
      using assms(1-3,5) by (simp add: get_user_by_external_def step_simps tbl_first_filter cols db2_def db1_def)
  qed
  ultimately show ?thesis using assms(4) by (auto simp: to_account_def cols)
qed

text \<open>Creating an account is not idempotent on the pair of API key and external id: the lookup
  compares the key with the owner column, which no created account has, so when the same call is
  repeated the existing account is not found and the insert fails.\<close>

theorem create_retry_fails:
  assumes "plan db = []" and "trim_space (ci_key inp) \<noteq> []" and "trim_space (ci_external inp) \<noteq> []"
    and owners: "\<forall>r \<in> set (users_t db). u_owner r \<noteq> trim_space (ci_key inp)"
    and first: "create_account c now (Inr h) inp db = (Inr a, db1)"
  shows "plan db1 = [] \<and> create_account c now' (Inr h') inp db1 = (Inl sql_dup, db1)"
proof -
  let ?k = "trim_space (ci_key inp)" and ?x = "trim_space (ci_external inp)"
  have missing: "get_user_by_external ?k ?x s = (Inl Not_Found, s)"
    if "plan s = []" "\<forall>r \<in> set (users_t s). u_owner r \<noteq> ?k" for s
    using that assms(2,3) tbl_first_None [of "\<lambda>u. u_owner u = ?k \<and> u_external u = ?x" "sort_key created_at (users_t s)"]
    by (simp add: get_user_by_external_def step_simps)
  have both: "create_account c t (Inr y) inp s = create_fresh c t (Inr y) ?k ?x inp s"
    if "plan s = []" "\<forall>r \<in> set (users_t s). u_owner r \<noteq> ?k" for t y s
    using assms(2,3) missing [OF that] by (simp add: create_account_def Let_def attempt_def)
  have f: "create_fresh c now (Inr h) ?k ?x inp db = (Inr a, db1)" using both assms(1) owners first by simp
  have valid: "\<not> (trim_space (ci_name inp) = [] \<or> str_lower c (trim_space (ci_email inp)) = [] \<or> ci_password inp = [])"
    "ci_role inp = [] \<or> ci_role inp = role_super_admin \<or> ci_role inp = role_user"
    using f by (auto simp: create_fresh_def Let_def step_simps split: if_splits)
  obtain g where g: "bcrypt_hash c (ci_password inp) = Inr g"
    using f valid by (cases "bcrypt_hash c (ci_password inp)") (auto simp: create_fresh_def Let_def step_simps and_then_def split: if_splits)
  have fresh: "create_fresh c t (Inr y) ?k ?x inp s = insert_or_reread t ?k ?x (account_row c (''u_'' @ y) g ?k ?x inp) s" for t y s
    using valid g assms(2,3) by (auto simp: create_fresh_def Let_def step_simps and_then_def new_id_def)
  have ins: "insert_or_reread t ?k ?x u s = (if \<exists>r \<in> set (users_t s). user_clash (stamp t u) r then (Inl sql_dup, s)
      else (Inr (to_account (stamp t u)), s\<lparr>users_t := users_t s @ [stamp t u]\<rparr>))"
    if "plan s = []" "\<forall>r \<in> set (users_t s). u_owner r \<noteq> ?k" for t u s
    using that missing [OF that] tbl_first_None [of "user_clash (stamp t u)" "users_t s"]
    by (auto simp: insert_or_reread_def attempt_def create_user_def Let_def step_simps)
  define u where "u = stamp now (account_row c (''u_'' @ h) g ?k ?x inp)"
  have db1: "db1 = db\<lparr>users_t := users_t db @ [u]\<rparr>"
    using f fresh ins [OF assms(1) owners] by (auto simp: u_def split: if_splits)
  have cols: "u_key u = ?k" "u_external u = ?x" "u_owner u = []" by (simp_all add: u_def stamp_def account_row_def)
  have p1: "plan db1 = []" "\<forall>r \<in> set (users_t db1). u_owner r \<noteq> ?k" using db1 assms(1,2) owners cols by auto
  have "user_clash (stamp now' (account_row c (''u_'' @ h') g ?k ?x inp)) u"
    using cols assms(2,3) by (simp add: user_clash_def stamp_def account_row_def)
  then show ?thesis using both [OF p1] fresh ins [OF p1] p1 by (simp add: db1)
qed

section \<open>Concrete runs\<close>

definition no_users :: id_db where
  "no_users = \<lparr>users_t = [], webs_t = [], keys_t = [], acl_t = [], agents_t = [], owned_t = [], configs_t = [], plan = []\<rparr>"

text \<open>A library that hashes nothing.\<close>

definition plain_lib :: golib where
  "plain_lib = \<lparr>bcrypt_hash = Inr, bcrypt_ok = (=), sha256_hex = (\<lambda>s. s), str_lower = (\<lambda>s. s)\<rparr>"

definition root_user :: user_rec where
  "root_user = \<lparr>u_id = ''u_1'', u_name = ''r'', u_email = ''r@x'', u_hash = ''h'', u_display = [], u_role = ''super_admin'',
     u_status = ''active'', u_key = [], u_external = [], u_owner = [], u_avatar = [], u_quota = -1, u_created = Some 0,
     u_updated = 0\<rparr>"

definition retry_input :: create_input where
  "retry_input = \<lparr>ci_name = ''a'', ci_email = ''b'', ci_password = ''p'', ci_display = [], ci_role = [], ci_quota = None,
     ci_avatar = [], ci_key = ''k'', ci_external = ''e''\<rparr>"

lemma trim_space_letter: "byte a < 128 \<Longrightarrow> \<not> is_space (byte a) \<Longrightarrow> trim_space [a] = [a]"
  by (simp add: trim_space_def trim_left_runes_def trim_right_runes_def)

lemma trim_letters: "trim_space ''o'' = ''o''" "trim_space ''e'' = ''e''" "trim_space ''k'' = ''k''" "trim_space ''a'' = ''a''"
  "trim_space ''b'' = ''b''"
  by (rule trim_space_letter; simp add: is_space_def in_range_def)+

lemmas run_defs = and_then_def attempt_def step_simps tbl_first_None get_user_def get_user_by_external_def found_def
  stmt_def query_def

theorem accounts_well_formed_witness:
  "identity_ok (users_t (run_ops plain_lib Sqlite [Op_Update 5 ''u_1'' [] [] ''disabled'' None, Op_Delete ''u_1'']
     (no_users\<lparr>users_t := [root_user]\<rparr>))) \<and>
   keys_ok (run_ops plain_lib Sqlite [Op_Update 5 ''u_1'' [] [] ''disabled'' None, Op_Delete ''u_1'']
     (no_users\<lparr>users_t := [root_user]\<rparr>))"
  by (rule accounts_well_formed)
    (simp_all add: keys_ok_def no_users_def root_user_def identity_ok_def keyed_pairs_def end_users_def user_typed_def user_consts)

theorem app_user_stable_witness:
  "\<exists>b. ensure_app_user 9 (Inr ''2'') ''o'' ''e'' [] ''k2'' (run_ops plain_lib Sqlite [Op_Update 5 ''u_1'' [] [] ''disabled'' None]
      (snd (ensure_app_user 1 (Inr ''1'') ''o'' ''e'' [] ''k1'' no_users)))
    = (Inr b, run_ops plain_lib Sqlite [Op_Update 5 ''u_1'' [] [] ''disabled'' None]
      (snd (ensure_app_user 1 (Inr ''1'') ''o'' ''e'' [] ''k1'' no_users))) \<and> ac_id b = ''u_1''"
proof -
  let ?u = "stamp 1 (provisioned ''u_1'' ''@app_user'' role_app_user [] ''o'' ''e'' ''k1'')"
  have e: "ensure_app_user 1 (Inr ''1'') ''o'' ''e'' [] ''k1'' no_users = (Inr (to_account ?u), no_users\<lparr>users_t := [?u]\<rparr>)"
    by (simp add: ensure_app_user_def Let_def trim_letters ensure_provisioned_def run_defs no_users_def ensure_insert_def
        new_id_def insert_or_reread_def create_user_def tbl_first_def)
  have p: "plan (run_ops plain_lib Sqlite [Op_Update 5 ''u_1'' [] [] ''disabled'' None] (no_users\<lparr>users_t := [?u]\<rparr>)) = []"
    by (simp add: forget_def update_account_def save_user_def update_user_def run_defs no_users_def tbl_first_def
        Let_def stamp_def provisioned_def user_consts)
  have "identity_ok (users_t no_users)" by (simp add: no_users_def identity_ok_def keyed_pairs_def end_users_def)
  moreover have "Op_Delete (ac_id (to_account ?u)) \<notin> set [Op_Update 5 ''u_1'' [] [] ''disabled'' None]" by simp
  ultimately have "\<exists>b. ensure_app_user 9 (Inr ''2'') ''o'' ''e'' [] ''k2''
      (run_ops plain_lib Sqlite [Op_Update 5 ''u_1'' [] [] ''disabled'' None] (no_users\<lparr>users_t := [?u]\<rparr>))
    = (Inr b, run_ops plain_lib Sqlite [Op_Update 5 ''u_1'' [] [] ''disabled'' None] (no_users\<lparr>users_t := [?u]\<rparr>)) \<and>
      ac_id b = ac_id (to_account ?u)"
    using app_user_stable [OF _ e _ p] by blast
  then show ?thesis by (simp add: e to_account_def stamp_def provisioned_def)
qed

theorem last_admin_lost_by_update_witness:
  "\<exists>now uid disp role st q. Op_Update 5 ''u_1'' [] [] ''disabled'' None = Op_Update now uid disp role st q \<and>
     (role = role_user \<or> st = user_disabled)"
proof (rule last_admin_lost_by_update [where db = "no_users\<lparr>users_t := [root_user]\<rparr>" and c = plain_lib and d = Sqlite])
  show "identity_ok (users_t (no_users\<lparr>users_t := [root_user]\<rparr>))"
    by (simp add: root_user_def identity_ok_def keyed_pairs_def end_users_def user_typed_def user_consts)
  show "\<exists>u \<in> set (users_t (no_users\<lparr>users_t := [root_user]\<rparr>)). active_admin u"
    by (simp add: root_user_def active_admin_def user_consts)
  show "\<forall>u \<in> set (users_t (snd (run_op plain_lib Sqlite (Op_Update 5 ''u_1'' [] [] ''disabled'' None)
      (no_users\<lparr>users_t := [root_user]\<rparr>)))). \<not> active_admin u"
    by (simp add: forget_def update_account_def save_user_def update_user_def run_defs no_users_def tbl_first_def
        Let_def root_user_def tbl_update_def active_admin_def user_consts)
qed

theorem chatter_race_duplicates_witness:
  "\<exists>a b db1 db2 u. get_user_by_external ''u_1'' ''wechat:x'' no_users = (Inl Not_Found, no_users) \<and>
    ensure_insert 1 (Inr ''2'') ''@channel_user'' role_channel_user [] ''u_1'' ''wechat:x'' [] no_users = (Inr a, db1) \<and>
    ensure_insert 1 (Inr ''3'') ''@channel_user'' role_channel_user [] ''u_1'' ''wechat:x'' [] db1 = (Inr b, db2) \<and>
    ac_id a \<noteq> ac_id b \<and> get_user_by_external ''u_1'' ''wechat:x'' db2 = (Inr u, db2) \<and> u_id u = ac_id a"
  by (rule chatter_race_duplicates) (simp_all add: no_users_def)

theorem create_retry_fails_witness:
  "\<exists>a db1. create_account plain_lib 1 (Inr ''1'') retry_input no_users = (Inr a, db1) \<and>
     create_account plain_lib 2 (Inr ''2'') retry_input db1 = (Inl sql_dup, db1)"
proof -
  let ?u = "stamp 1 (account_row plain_lib ''u_1'' ''p'' ''k'' ''e'' retry_input)"
  have e: "create_account plain_lib 1 (Inr ''1'') retry_input no_users = (Inr (to_account ?u), no_users\<lparr>users_t := [?u]\<rparr>)"
    by (simp add: create_account_def create_fresh_def Let_def trim_letters run_defs no_users_def retry_input_def plain_lib_def
        new_id_def insert_or_reread_def create_user_def tbl_first_def)
  have "create_account plain_lib 2 (Inr ''2'') retry_input (no_users\<lparr>users_t := [?u]\<rparr>) = (Inl sql_dup, no_users\<lparr>users_t := [?u]\<rparr>)"
    by (rule conjunct2 [OF create_retry_fails [OF _ _ _ _ e]]) (simp_all add: no_users_def retry_input_def trim_letters)
  with e show ?thesis by blast
qed

end
