(* ===== verification/Auth.thy ===== *)
theory Auth
  imports Account_Laws
begin

text \<open>
  Who a request is made by, \<^verbatim>\<open>internal/auth/auth.go\<close>, and the account and
  API key endpoints of \<^verbatim>\<open>internal/setup\<close> behind it. A request is its method, path,
  session cookie, Authorization header and the three values read from its query and headers; an
  endpoint answers with a status code and changes the identity tables of \<open>Users\<close>. A body
  that does not decode is \<open>None\<close>.
\<close>

section \<open>Identity\<close>

datatype auth_method = By_Session | By_Apikey

record identity =
  id_user :: string
  id_role :: string
  id_method :: auth_method
  id_key :: string
  id_key_type :: string
  id_agents :: "string list"
  id_act_as :: string

definition effective_user_id :: "identity \<Rightarrow> string" where
  "effective_user_id i = (if id_act_as i \<noteq> [] then id_act_as i else id_user i)"

definition is_acting_as :: "identity \<Rightarrow> bool" where
  "is_acting_as i = (id_act_as i \<noteq> [] \<and> id_act_as i \<noteq> id_user i)"

definition read_only :: "identity \<Rightarrow> bool" where
  "read_only i = is_acting_as i"

definition can_access_agent :: "identity \<Rightarrow> string \<Rightarrow> bool" where
  "can_access_agent i aid =
     (if id_method i = By_Apikey then
        (if id_key_type i = key_admin then True else aid \<in> set (id_agents i))
      else True)"

definition can_admin_platform :: "identity \<Rightarrow> bool" where
  "can_admin_platform i =
     (if id_method i = By_Apikey then id_key_type i = key_admin else id_role i = role_super_admin)"

definition can_create_agent :: "identity \<Rightarrow> bool" where
  "can_create_agent i = (\<not> (id_method i = By_Apikey \<and> id_key_type i = key_agent))"

section \<open>Sessions and tokens\<close>

definition session_ttl :: duration where "session_ttl = 30 * 24 * hour"

definition issue_session :: "instant \<Rightarrow> random \<Rightarrow> string \<Rightarrow> string step" where
  "issue_session now rsid uid = and_then (new_id [] rsid) (\<lambda>sid.
     and_then (create_web_session \<lparr>ws_sid = sid, ws_user = uid, ws_created = now, ws_expires = now + session_ttl\<rparr>)
       (\<lambda>_. ok sid))"

definition revoke_session :: "string \<Rightarrow> unit step" where
  "revoke_session sid = delete_web_session sid"

definition resolve_session :: "instant \<Rightarrow> string \<Rightarrow> identity step" where
  "resolve_session now sid =
     (if sid = [] then raise Unauthorized
      else attempt (get_web_session sid) (\<lambda>r. case r of
        Inl e \<Rightarrow> raise (if e = Not_Found then Unauthorized else e)
      | Inr sess \<Rightarrow>
          if ws_expires sess < now then attempt (delete_web_session sid) (\<lambda>_. raise Unauthorized)
          else attempt (get_account (ws_user sess)) (\<lambda>r. case r of
            Inl _ \<Rightarrow> raise Unauthorized
          | Inr user \<Rightarrow>
              if ac_status user \<noteq> user_active then raise Unauthorized
              else ok \<lparr>id_user = ac_id user, id_role = ac_role user, id_method = By_Session, id_key = [],
                id_key_type = [], id_agents = [], id_act_as = []\<rparr>)))"

definition resolve_bearer :: "golib \<Rightarrow> string \<Rightarrow> identity step" where
  "resolve_bearer c token = attempt (lookup_by_token c token) (\<lambda>r. case r of
     Inl e \<Rightarrow> raise (if e = Invalid_Credentials then Unauthorized else e)
   | Inr res \<Rightarrow> ok \<lparr>id_user = ac_id (rs_account res), id_role = ac_role (rs_account res), id_method = By_Apikey,
       id_key = ak_id (rs_key res), id_key_type = ak_type (rs_key res), id_agents = rs_agents res, id_act_as = []\<rparr>)"

definition switch_to_app_user :: "instant \<Rightarrow> random \<Rightarrow> identity \<Rightarrow> string \<Rightarrow> identity step" where
  "switch_to_app_user now rnd i ext =
     (if ext = [] then ok i
      else if id_method i \<noteq> By_Apikey \<or> id_key i = [] then
        raise (Refused ''auth.SwitchToAppUser: api_key auth required'')
      else if id_role i = role_app_user then ok i
      else and_then (ensure_app_user now rnd (id_user i) ext [] (id_key i)) (\<lambda>acc.
        ok (i\<lparr>id_user := ac_id acc, id_role := ac_role acc\<rparr>)))"

section \<open>Requests\<close>

record request =
  rq_method :: string
  rq_path :: string
  rq_cookie :: "string option"
  rq_authorization :: string
  rq_token :: string
  rq_act_as :: string
  rq_end_user :: string

definition query_token_allowed :: "request \<Rightarrow> bool" where
  "query_token_allowed rq =
     (if rq_method rq \<noteq> ''GET'' then False
      else if has_prefix (rq_path rq) ''/api/agents/'' \<and> contains (rq_path rq) ''/files'' then True
      else if has_prefix (rq_path rq) ''/api/agents/'' \<and> contains (rq_path rq) ''/system-files/'' then True
      else rq_path rq = ''/api/chat/subscribe'')"

text \<open>The bearer token and the session id, empty where absent.\<close>

definition extract_credentials :: "request \<Rightarrow> string \<times> string" where
  "extract_credentials rq =
     (let sid = (case rq_cookie rq of None \<Rightarrow> [] | Some v \<Rightarrow> v);
          h = rq_authorization rq; t = trim_prefix h ''Bearer ''
      in (if h \<noteq> [] then (if t \<noteq> h then t else [])
          else if rq_token rq \<noteq> [] \<and> query_token_allowed rq then rq_token rq else [], sid))"

definition finish_resolve :: "instant \<Rightarrow> random \<Rightarrow> request \<Rightarrow> identity \<Rightarrow> identity step" where
  "finish_resolve now rnd rq i =
     (let i1 = (if rq_act_as rq \<noteq> [] \<and> id_method i = By_Session \<and> id_role i = role_super_admin
                then i\<lparr>id_act_as := rq_act_as rq\<rparr> else i);
          eu = trim_space (rq_end_user rq)
      in if eu = [] then ok i1
         else attempt (switch_to_app_user now rnd i1 eu) (\<lambda>r. case r of Inl _ \<Rightarrow> ok i1 | Inr j \<Rightarrow> ok j))"

definition resolve_credentials :: "golib \<Rightarrow> instant \<Rightarrow> request \<Rightarrow> identity step" where
  "resolve_credentials c now rq = (case extract_credentials rq of (bearer, sid) \<Rightarrow>
     attempt (if sid \<noteq> [] then resolve_session now sid else raise Unauthorized) (\<lambda>r. case r of
       Inr i \<Rightarrow> ok i
     | Inl _ \<Rightarrow> attempt (if bearer \<noteq> [] then resolve_bearer c bearer else raise Unauthorized) (\<lambda>r. case r of
         Inr i \<Rightarrow> ok i | Inl _ \<Rightarrow> raise Unauthorized)))"

definition resolve :: "golib \<Rightarrow> instant \<Rightarrow> random \<Rightarrow> request \<Rightarrow> identity step" where
  "resolve c now rnd rq = and_then (resolve_credentials c now rq) (finish_resolve now rnd rq)"

section \<open>Middleware\<close>

datatype 'a reply = Fail nat string | Done nat 'a

type_synonym 'a handler = "id_db \<Rightarrow> 'a reply \<times> id_db"

definition reply :: "'a reply \<Rightarrow> 'a handler" where
  "reply r db = (r, db)"

definition serve :: "'b step \<Rightarrow> (user_error + 'b \<Rightarrow> 'a handler) \<Rightarrow> 'a handler" where
  "serve m f db = (case m db of (r, db') \<Rightarrow> f r db')"

definition error_text :: "user_error \<Rightarrow> string" where
  "error_text e = (case e of
     Not_Found \<Rightarrow> ''store: not found'' | Sql_Error m \<Rightarrow> m | Invalid_Credentials \<Rightarrow> ''invalid credentials''
   | Unauthorized \<Rightarrow> ''unauthorized'' | Refused m \<Rightarrow> m)"

definition middleware :: "golib \<Rightarrow> instant \<Rightarrow> random \<Rightarrow> request \<Rightarrow> (identity \<Rightarrow> 'a handler) \<Rightarrow> 'a handler" where
  "middleware c now rnd rq h = serve (resolve c now rnd rq) (\<lambda>r. case r of
     Inl _ \<Rightarrow> reply (Fail 401 ''unauthorized'') | Inr i \<Rightarrow> h i)"

definition require_super_admin :: "(identity \<Rightarrow> 'a handler) \<Rightarrow> identity \<Rightarrow> 'a handler" where
  "require_super_admin h i =
     (if id_role i \<noteq> role_super_admin then reply (Fail 403 ''super_admin required'')
      else if id_method i = By_Apikey \<and> id_key_type i \<noteq> key_admin then reply (Fail 403 ''admin apikey required'')
      else h i)"

definition require_platform_admin :: "(identity \<Rightarrow> 'a handler) \<Rightarrow> identity \<Rightarrow> 'a handler" where
  "require_platform_admin h i =
     (if \<not> can_admin_platform i then reply (Fail 403 ''platform admin required'') else h i)"

definition require_writable :: "(identity \<Rightarrow> 'a handler) \<Rightarrow> identity \<Rightarrow> 'a handler" where
  "require_writable h i =
     (if read_only i then reply (Fail 403 ''read-only: cannot mutate while acting as another user'') else h i)"

section \<open>Account endpoints\<close>

record login_req =
  lr_login :: string
  lr_password :: string

text \<open>Login answers with the account and the new session id; a missing body is a 400.\<close>

definition handle_login :: "golib \<Rightarrow> instant \<Rightarrow> random \<Rightarrow> login_req option \<Rightarrow> (account \<times> string) handler" where
  "handle_login c now rsid body = (case body of
     None \<Rightarrow> reply (Fail 400 ''invalid request'')
   | Some q \<Rightarrow> serve (authenticate c (lr_login q) (lr_password q)) (\<lambda>r. case r of
       Inl _ \<Rightarrow> reply (Fail 401 ''invalid credentials'')
     | Inr acct \<Rightarrow> serve (issue_session now rsid (ac_id acct)) (\<lambda>r. case r of
         Inl e \<Rightarrow> reply (Fail 500 (error_text e))
       | Inr sid \<Rightarrow> reply (Done 200 (acct, sid)))))"

definition handle_logout :: "request \<Rightarrow> unit handler" where
  "handle_logout rq = (case rq_cookie rq of
     None \<Rightarrow> reply (Done 200 ())
   | Some sid \<Rightarrow> serve (revoke_session sid) (\<lambda>_. reply (Done 200 ())))"

definition max_avatar_bytes :: nat where "max_avatar_bytes = 256 * 1024"

definition avatar_error :: "string \<Rightarrow> (nat \<times> string) option" where
  "avatar_error a =
     (if a = [] then None
      else if \<not> has_prefix a ''data:image/'' then Some (400, ''avatar must be a data:image/* URL'')
      else if max_avatar_bytes < length a then Some (413, ''avatar too large (max 256KB)'')
      else None)"

definition or_400 :: "nat \<Rightarrow> user_error + 'a \<Rightarrow> 'a handler" where
  "or_400 code r = (case r of Inl e \<Rightarrow> reply (Fail 400 (error_text e)) | Inr a \<Rightarrow> reply (Done code a))"

definition handle_update_me :: "instant \<Rightarrow> (string \<times> string) option \<Rightarrow> identity \<Rightarrow> account handler" where
  "handle_update_me now body i =
     (if read_only i then reply (Fail 403 ''read-only'')
      else case body of None \<Rightarrow> reply (Fail 400 ''invalid request'')
      | Some (disp, avatar) \<Rightarrow> (case avatar_error avatar of
          Some (code, m) \<Rightarrow> reply (Fail code m)
        | None \<Rightarrow> serve (update_profile now (id_user i) disp avatar) (or_400 200)))"

definition handle_change_my_password :: "golib \<Rightarrow> instant \<Rightarrow> (string \<times> string) option \<Rightarrow> identity \<Rightarrow> unit handler" where
  "handle_change_my_password c now body i =
     (if read_only i then reply (Fail 403 ''read-only'')
      else if id_role i = role_app_user then reply (Fail 403 ''app_user has no password'')
      else case body of None \<Rightarrow> reply (Fail 400 ''invalid request'')
      | Some (old, new) \<Rightarrow>
          if new = [] then reply (Fail 400 ''new password required'')
          else serve (verify_password c (id_user i) old) (\<lambda>r. case r of
            Inl _ \<Rightarrow> reply (Fail 401 ''current password incorrect'')
          | Inr _ \<Rightarrow> serve (set_password c now (id_user i) new) (or_400 200)))"

record create_user_req =
  cu_name :: string
  cu_email :: string
  cu_password :: string
  cu_display :: string
  cu_role :: string
  cu_quota :: "int option"
  cu_avatar :: string
  cu_external :: string

definition handle_create_user :: "golib \<Rightarrow> instant \<Rightarrow> random \<Rightarrow> create_user_req option \<Rightarrow> identity \<Rightarrow> account handler" where
  "handle_create_user c now rnd body i = (case body of
     None \<Rightarrow> reply (Fail 400 ''invalid request'')
   | Some q \<Rightarrow> (case avatar_error (cu_avatar q) of
       Some (code, m) \<Rightarrow> reply (Fail code m)
     | None \<Rightarrow> serve (create_account c now rnd
         \<lparr>ci_name = cu_name q, ci_email = cu_email q, ci_password = cu_password q, ci_display = cu_display q,
          ci_role = (if cu_role q = [] then role_user else cu_role q), ci_quota = cu_quota q,
          ci_avatar = cu_avatar q, ci_key = id_key i, ci_external = cu_external q\<rparr>) (or_400 201)))"

record update_user_req =
  uu_display :: string
  uu_role :: string
  uu_status :: string
  uu_quota :: "int option"

definition handle_update_user :: "instant \<Rightarrow> string \<Rightarrow> update_user_req option \<Rightarrow> identity \<Rightarrow> account handler" where
  "handle_update_user now uid body i = (case body of
     None \<Rightarrow> reply (Fail 400 ''invalid request'')
   | Some q \<Rightarrow> serve (update_account now uid (uu_display q) (uu_role q) (uu_status q) (uu_quota q)) (or_400 200))"

definition handle_delete_user :: "dialect \<Rightarrow> string \<Rightarrow> identity \<Rightarrow> unit handler" where
  "handle_delete_user d uid i = serve (delete_account d uid) (or_400 200)"

definition handle_reset_user_password :: "golib \<Rightarrow> instant \<Rightarrow> string \<Rightarrow> string option \<Rightarrow> identity \<Rightarrow> unit handler" where
  "handle_reset_user_password c now uid body i = (case body of
     None \<Rightarrow> reply (Fail 400 ''invalid request'')
   | Some pw \<Rightarrow> serve (set_password c now uid pw) (or_400 200))"

text \<open>Public signup; whether it is open is read from the settings.\<close>

record register_req =
  rr_name :: string
  rr_email :: string
  rr_password :: string
  rr_display :: string

definition handle_register :: "golib \<Rightarrow> instant \<Rightarrow> random \<Rightarrow> random \<Rightarrow> bool \<Rightarrow> register_req option \<Rightarrow> (account \<times> string option) handler" where
  "handle_register c now rnd rsid is_open body =
     (if \<not> is_open then reply (Fail 403 ''registration is closed'')
      else case body of None \<Rightarrow> reply (Fail 400 ''invalid request'')
      | Some q \<Rightarrow>
        (let name = trim_space (rr_name q); email = trim_space (rr_email q)
         in if name = [] \<or> email = [] \<or> rr_password q = [] then
              reply (Fail 400 ''username, email, password required'')
            else if \<not> contains email ''@'' \<or> contains email '' '' then reply (Fail 400 ''invalid email'')
            else if length (rr_password q) < 8 then reply (Fail 400 ''password must be at least 8 characters'')
            else serve (create_account c now rnd
                \<lparr>ci_name = name, ci_email = email, ci_password = rr_password q, ci_display = rr_display q,
                 ci_role = role_user, ci_quota = None, ci_avatar = [], ci_key = [], ci_external = []\<rparr>) (\<lambda>r. case r of
              Inl e \<Rightarrow> reply (Fail 400 (error_text e))
            | Inr acct \<Rightarrow> serve (issue_session now rsid (ac_id acct)) (\<lambda>r. case r of
                Inl _ \<Rightarrow> reply (Done 200 (acct, None)) | Inr sid \<Rightarrow> reply (Done 200 (acct, Some sid))))))"

section \<open>API key endpoints\<close>

record create_key_req =
  ck_name :: string
  ck_type :: string
  ck_agents :: "string list"

text \<open>The first agent of the list that the user does not own, or cannot be read.\<close>

fun unowned :: "string \<Rightarrow> string list \<Rightarrow> string option step" where
  "unowned uid [] = ok None"
| "unowned uid (aid # aids) = attempt (get_agent aid) (\<lambda>r. case r of
     Inl _ \<Rightarrow> ok (Some aid)
   | Inr rec \<Rightarrow> if ag_owner rec \<noteq> uid then ok (Some aid) else unowned uid aids)"

definition when_owned :: "string \<Rightarrow> string list \<Rightarrow> 'a handler \<Rightarrow> 'a handler" where
  "when_owned uid aids h = serve (unowned uid aids) (\<lambda>r. case r of
     Inr None \<Rightarrow> h
   | Inr (Some aid) \<Rightarrow> reply (Fail 403 (''cannot bind agent '' @ aid))
   | Inl e \<Rightarrow> reply (Fail 403 (error_text e)))"

definition mint :: "golib \<Rightarrow> instant \<Rightarrow> random \<Rightarrow> random \<Rightarrow> string \<Rightarrow> string \<Rightarrow> create_key_req \<Rightarrow> (apikey \<times> string) handler" where
  "mint c now rid rtok uid ty q = serve (create_apikey c now rid rtok uid (ck_name q) ty (ck_agents q)) (or_400 201)"

definition handle_create_apikey :: "golib \<Rightarrow> instant \<Rightarrow> random \<Rightarrow> random \<Rightarrow> create_key_req option \<Rightarrow> identity \<Rightarrow> (apikey \<times> string) handler" where
  "handle_create_apikey c now rid rtok body i =
     (if read_only i then reply (Fail 403 ''read-only'')
      else if id_role i = role_app_user then reply (Fail 403 ''app_user cannot issue api keys'')
      else case body of None \<Rightarrow> reply (Fail 400 ''invalid request'')
      | Some q \<Rightarrow>
        (let ty = (if ck_type q = [] then key_agent else ck_type q)
         in if \<not> is_apikey_type ty then reply (Fail 400 ''invalid type'')
            else if ty = key_admin \<and> id_role i \<noteq> role_super_admin then
              reply (Fail 403 ''only super_admin may issue admin keys'')
            else if ty = key_agent \<and> ck_agents q = [] then
              reply (Fail 400 ''type=agent requires at least one agentId'')
            else if ty = key_agent \<and> id_role i \<noteq> role_super_admin then
              when_owned (id_user i) (ck_agents q) (mint c now rid rtok (id_user i) ty q)
            else mint c now rid rtok (id_user i) ty q))"

text \<open>Endpoints under a user of the path are for that user and platform administrators.\<close>

definition require_user_or_admin :: "string \<Rightarrow> identity \<Rightarrow> (nat \<times> string) option" where
  "require_user_or_admin uid i =
     (if uid = [] then Some (400, ''user id required'')
      else if uid = effective_user_id i then None
      else if can_admin_platform i then None
      else Some (403, ''forbidden''))"

text \<open>An em dash in UTF-8.\<close>

definition em_dash :: string where "em_dash = [CHR 0xE2, CHR 0x80, CHR 0x94]"

fun bindable :: "string \<Rightarrow> string list \<Rightarrow> string option step" where
  "bindable uid [] = ok None"
| "bindable uid (aid # aids) = attempt (get_agent aid) (\<lambda>r. case r of
     Inl _ \<Rightarrow> ok (Some (''agent not found: '' @ aid))
   | Inr rec \<Rightarrow> if ag_owner rec \<noteq> uid then ok (Some (''cannot bind agent '' @ aid @ '' '' @ em_dash @ '' not owned by target user''))
       else bindable uid aids)"

definition handle_create_user_apikey :: "golib \<Rightarrow> instant \<Rightarrow> random \<Rightarrow> random \<Rightarrow> string \<Rightarrow> create_key_req option \<Rightarrow> identity \<Rightarrow> (apikey \<times> string) handler" where
  "handle_create_user_apikey c now rid rtok uid body i = (case require_user_or_admin uid i of
     Some (code, m) \<Rightarrow> reply (Fail code m)
   | None \<Rightarrow>
     if read_only i then reply (Fail 403 ''read-only'')
     else serve (get_user uid) (\<lambda>r. case r of
       Inl _ \<Rightarrow> reply (Fail 404 ''user not found'')
     | Inr target \<Rightarrow>
       if u_role target = role_app_user then reply (Fail 400 ''app_user cannot hold api keys'')
       else case body of None \<Rightarrow> reply (Fail 400 ''invalid request'')
       | Some q \<Rightarrow>
         (let ty = (if ck_type q = [] then key_user else ck_type q)
          in if \<not> is_apikey_type ty then reply (Fail 400 ''invalid type'')
             else if ty = key_admin then reply (Fail 400 ''admin keys cannot be issued through this path'')
             else if ty = key_agent \<and> ck_agents q = [] then
               reply (Fail 400 ''type=agent requires at least one agentId'')
             else if ty = key_agent then
               serve (bindable uid (ck_agents q)) (\<lambda>r. case r of
                 Inr None \<Rightarrow> mint c now rid rtok uid ty q
               | Inr (Some m) \<Rightarrow> reply (Fail 400 m)
               | Inl e \<Rightarrow> reply (Fail 400 (error_text e)))
             else mint c now rid rtok uid ty q)))"

text \<open>Endpoints on one key are for its owner and super administrators.\<close>

definition with_key :: "string \<Rightarrow> (apikey \<Rightarrow> 'a handler) \<Rightarrow> identity \<Rightarrow> 'a handler" where
  "with_key kid h i =
     (if read_only i then reply (Fail 403 ''read-only'')
      else serve (get_key kid) (\<lambda>r. case r of
        Inl _ \<Rightarrow> reply (Fail 404 ''not found'')
      | Inr rec \<Rightarrow> if ak_user rec \<noteq> id_user i \<and> id_role i \<noteq> role_super_admin then reply (Fail 403 ''forbidden'')
                  else h rec))"

definition or_500 :: "user_error + 'a \<Rightarrow> 'a handler" where
  "or_500 r = (case r of Inl e \<Rightarrow> reply (Fail 500 (error_text e)) | Inr a \<Rightarrow> reply (Done 200 a))"

definition handle_delete_apikey :: "string \<Rightarrow> identity \<Rightarrow> unit handler" where
  "handle_delete_apikey kid = with_key kid (\<lambda>_. serve (delete_apikey kid) or_500)"

definition handle_rotate_apikey :: "golib \<Rightarrow> random \<Rightarrow> string \<Rightarrow> identity \<Rightarrow> string handler" where
  "handle_rotate_apikey c rtok kid = with_key kid (\<lambda>_. serve (rotate_key c rtok kid) or_500)"

definition handle_set_apikey_agents :: "string \<Rightarrow> string list option \<Rightarrow> identity \<Rightarrow> unit handler" where
  "handle_set_apikey_agents kid body i = with_key kid (\<lambda>_. case body of
     None \<Rightarrow> reply (Fail 400 ''invalid request'')
   | Some aids \<Rightarrow>
     if id_role i \<noteq> role_super_admin then
       when_owned (id_user i) aids (serve (set_agents kid aids) (or_400 200))
     else serve (set_agents kid aids) (or_400 200)) i"

section \<open>What a resolved identity rests on\<close>

text \<open>The account behind an identity: in the table, and active.\<close>

definition backed :: "id_db \<Rightarrow> string \<Rightarrow> string \<Rightarrow> bool" where
  "backed db uid role = (\<exists>u \<in> set (users_t db). u_id u = uid \<and> u_role u = role \<and> u_status u = user_active)"

lemma get_account_Inr:
  assumes "get_account uid db = (Inr a, db')"
  shows "\<exists>u \<in> set (users_t db). u_id u = uid \<and> a = to_account u"
  using assms get_user_Inr [of uid db]
  by (auto simp: get_account_def and_then_Inr step_simps dest!: tbl_first_SomeD)

lemma attempt_elim:
  assumes "attempt m f db = (r, db')"
  obtains x db1 where "m db = (x, db1)" "f x db1 = (r, db')"
  using assms by (cases "m db") (auto simp: attempt_def)

lemma authenticate_sound:
  assumes "authenticate c login pw db = (Inr a, db')"
  shows "backed db (ac_id a) (ac_role a)"
proof -
  let ?t = "trim_space login"
  have ne: "\<not> (?t = [] \<or> pw = [])" using assms by (auto simp: authenticate_def Let_def step_simps)
  then obtain x db1 where q: "get_user_by_login (if contains ?t ''@'' then str_lower c ?t else ?t) db = (x, db1)"
    and r: "(case x of Inl e \<Rightarrow> raise (if e = Not_Found then Invalid_Credentials else e)
         | Inr rec \<Rightarrow>
             if u_status rec \<noteq> user_active then raise Invalid_Credentials
             else if u_hash rec = [] \<or> u_role rec = role_app_user \<or> u_role rec = role_channel_user
               then raise Invalid_Credentials
             else if \<not> bcrypt_ok c (u_hash rec) pw then raise Invalid_Credentials
             else ok (to_account rec)) db1 = (Inr a, db')"
    using assms unfolding authenticate_def Let_def if_not_P [OF ne] by (elim attempt_elim)
  from r obtain u where u: "x = Inr u" "u_status u = user_active" "a = to_account u"
    by (cases x) (auto simp: step_simps split: if_splits)
  have "u \<in> set (users_t db)"
    using q unfolding u(1) get_user_by_login_def
    by (elim query_result) (auto simp: found_def split: option.splits dest: tbl_first_SomeD)
  with u show ?thesis by (auto simp: backed_def to_account_def)
qed

lemma resolve_session_sound:
  assumes "resolve_session now sid db = (Inr i, db')"
  shows "backed db (id_user i) (id_role i)" "id_method i = By_Session" "users_t db' = users_t db"
proof -
  have "sid \<noteq> []" using assms by (auto simp: resolve_session_def step_simps)
  with assms obtain x db1 where q: "get_web_session sid db = (x, db1)"
    and r: "(case x of Inl e \<Rightarrow> raise (if e = Not_Found then Unauthorized else e)
      | Inr sess \<Rightarrow>
          if ws_expires sess < now then attempt (delete_web_session sid) (\<lambda>_. raise Unauthorized)
          else attempt (get_account (ws_user sess)) (\<lambda>r. case r of
            Inl _ \<Rightarrow> raise Unauthorized
          | Inr user \<Rightarrow>
              if ac_status user \<noteq> user_active then raise Unauthorized
              else ok \<lparr>id_user = ac_id user, id_role = ac_role user, id_method = By_Session, id_key = [],
                id_key_type = [], id_agents = [], id_act_as = []\<rparr>)) db1 = (Inr i, db')"
    unfolding resolve_session_def by (auto elim: attempt_elim)
  have same: "users_t db1 = users_t db" using q by (metis get_web_session_def query_users snd_conv)
  from r obtain s y db2 where y: "x = Inr s" "get_account (ws_user s) db1 = (y, db2)"
    and z: "(case y of Inl _ \<Rightarrow> raise Unauthorized
          | Inr user \<Rightarrow>
              if ac_status user \<noteq> user_active then raise Unauthorized
              else ok \<lparr>id_user = ac_id user, id_role = ac_role user, id_method = By_Session, id_key = [],
                id_key_type = [], id_agents = [], id_act_as = []\<rparr>) db2 = (Inr i, db')"
    by (cases x) (auto simp: step_simps split: if_splits elim!: attempt_elim)
  from z obtain a where a: "y = Inr a" "ac_status a = user_active" "id_user i = ac_id a" "id_role i = ac_role a"
      "id_method i = By_Session" "db' = db2"
    by (cases y) (auto simp: step_simps split: if_splits)
  have "users_t db2 = users_t db1"
    using y(2) a(1) get_user_Inr [of "ws_user s" db1]
    by (auto simp: get_account_def and_then_Inr step_simps)
  with a same get_account_Inr [OF y(2) [unfolded a(1)]]
  show "backed db (id_user i) (id_role i)" "id_method i = By_Session" "users_t db' = users_t db"
    by (auto simp: backed_def to_account_def)
qed

lemma lookup_sound:
  assumes "lookup_by_token c token db = (Inr res, db')"
  shows "backed db (ac_id (rs_account res)) (ac_role (rs_account res))" "users_t db' = users_t db"
proof -
  have same: "users_t (snd (lookup_by_token c token db)) = users_t db"
    unfolding lookup_by_token_def key_agents_def lookup_apikey_by_hash_def get_user_def list_agents_def list_apikey_agents_def
    by (intro users_unchanged on_users.keeps_rules)
  then show "users_t db' = users_t db" using assms by simp
  have "token \<noteq> []" using assms by (auto simp: lookup_by_token_def step_simps)
  with assms obtain x db1 where q: "lookup_apikey_by_hash (sha256_hex c token) db = (x, db1)"
    and r: "(case x of Inl e \<Rightarrow> raise (if e = Not_Found then Invalid_Credentials else e)
      | Inr rec \<Rightarrow> attempt (get_user (k_owner rec)) (\<lambda>r. case r of
          Inl _ \<Rightarrow> raise Invalid_Credentials
        | Inr user \<Rightarrow>
            if u_status user \<noteq> user_active then raise Invalid_Credentials
            else and_then (key_agents rec) (\<lambda>agents.
              ok \<lparr>rs_key = to_apikey rec, rs_account = to_account user, rs_agents = agents\<rparr>))) db1 = (Inr res, db')"
    unfolding lookup_by_token_def by (auto elim: attempt_elim)
  have same1: "users_t db1 = users_t db" using q by (metis lookup_apikey_by_hash_def query_users snd_conv)
  from r obtain k where k: "x = Inr k" by (cases x) (auto simp: step_simps)
  then obtain y db2 where y: "get_user (k_owner k) db1 = (y, db2)"
    and z: "(case y of Inl _ \<Rightarrow> raise Invalid_Credentials
        | Inr user \<Rightarrow>
            if u_status user \<noteq> user_active then raise Invalid_Credentials
            else and_then (key_agents k) (\<lambda>agents.
              ok \<lparr>rs_key = to_apikey k, rs_account = to_account user, rs_agents = agents\<rparr>)) db2 = (Inr res, db')"
    using r by (auto elim: attempt_elim)
  from z obtain u where u: "y = Inr u" "u_status u = user_active" "rs_account res = to_account u"
    by (cases y) (auto simp: step_simps and_then_Inr split: if_splits)
  from get_user_Inr [OF y [unfolded u(1)]] u(2,3) same1
  show "backed db (ac_id (rs_account res)) (ac_role (rs_account res))"
    by (auto simp: backed_def to_account_def dest!: tbl_first_SomeD)
qed

lemma resolve_bearer_sound:
  assumes "resolve_bearer c token db = (Inr i, db')"
  shows "backed db (id_user i) (id_role i)" "id_method i = By_Apikey" "users_t db' = users_t db"
proof -
  from assms obtain x db1 where q: "lookup_by_token c token db = (x, db1)"
    and r: "(case x of Inl e \<Rightarrow> raise (if e = Invalid_Credentials then Unauthorized else e)
      | Inr res \<Rightarrow> ok \<lparr>id_user = ac_id (rs_account res), id_role = ac_role (rs_account res), id_method = By_Apikey,
       id_key = ak_id (rs_key res), id_key_type = ak_type (rs_key res), id_agents = rs_agents res, id_act_as = []\<rparr>) db1 = (Inr i, db')"
    unfolding resolve_bearer_def by (rule attempt_elim)
  then obtain res where "x = Inr res" "id_user i = ac_id (rs_account res)" "id_role i = ac_role (rs_account res)"
      "id_method i = By_Apikey" "db' = db1"
    by (cases x) (auto simp: step_simps)
  with lookup_sound [of c token db res db1] q
  show "backed db (id_user i) (id_role i)" "id_method i = By_Apikey" "users_t db' = users_t db" by simp_all
qed

lemma resolve_credentials_sound:
  assumes "resolve_credentials c now rq db = (Inr i, db')"
  shows "backed db (id_user i) (id_role i)" "users_t db' = users_t db"
proof -
  obtain bearer sid where e: "extract_credentials rq = (bearer, sid)" by (cases "extract_credentials rq")
  obtain x db1 where x: "(if sid \<noteq> [] then resolve_session now sid else raise Unauthorized) db = (x, db1)"
    and r: "(case x of Inr i \<Rightarrow> ok i
     | Inl _ \<Rightarrow> attempt (if bearer \<noteq> [] then resolve_bearer c bearer else raise Unauthorized) (\<lambda>r. case r of
         Inr i \<Rightarrow> ok i | Inl _ \<Rightarrow> raise Unauthorized)) db1 = (Inr i, db')"
    using assms unfolding resolve_credentials_def e prod.case by (rule attempt_elim)
  have keep: "users_t (snd ((if sid \<noteq> [] then resolve_session now sid else raise Unauthorized) db)) = users_t db"
    unfolding resolve_session_def get_web_session_def get_account_def get_user_def
    by (intro users_unchanged on_users.keeps_rules other_writes)
  then have same: "users_t db1 = users_t db" using x by simp
  show "backed db (id_user i) (id_role i) " "users_t db' = users_t db"
  proof (atomize (full), cases x)
    case (Inr j)
    then have "j = i" "db1 = db'" "resolve_session now sid db = (Inr i, db')"
      using r x by (auto simp: step_simps split: if_splits)
    then show "backed db (id_user i) (id_role i) \<and> users_t db' = users_t db"
      using resolve_session_sound same by metis
  next
    case (Inl err)
    then obtain y db2 where y: "(if bearer \<noteq> [] then resolve_bearer c bearer else raise Unauthorized) db1 = (y, db2)"
      and z: "(case y of Inr i \<Rightarrow> ok i | Inl _ \<Rightarrow> raise Unauthorized) db2 = (Inr i, db')"
      using r by (auto elim: attempt_elim)
    then have "resolve_bearer c bearer db1 = (Inr i, db')"
      by (cases y) (auto simp: step_simps split: if_splits)
    then show "backed db (id_user i) (id_role i) \<and> users_t db' = users_t db"
      using resolve_bearer_sound [of c bearer db1 i db'] same by (simp add: backed_def)
  qed
qed

section \<open>Locked accounts\<close>

definition locked :: "string \<Rightarrow> user_rec list \<Rightarrow> bool" where
  "locked uid us = (\<forall>u \<in> set us. u_id u = uid \<longrightarrow> u_status u = user_disabled)"

text \<open>The operations that can unlock it: an update to active, and an insert that draws its id.\<close>

fun unlocks :: "string \<Rightarrow> account_op \<Rightarrow> bool" where
  "unlocks uid (Op_Update now u disp role st q) = (u = uid \<and> st = user_active)"
| "unlocks uid (Op_Create now r inp) = (r = Inr (drop 2 uid))"
| "unlocks uid (Op_App_User now r owner ext disp k) = (r = Inr (drop 2 uid))"
| "unlocks uid (Op_Chatter now r owner ext disp) = (r = Inr (drop 2 uid))"
| "unlocks uid _ = False"

lemma new_row_id: "new_row c a u \<Longrightarrow> \<not> unlocks uid a \<Longrightarrow> u_id u \<noteq> uid"
  by (induction c a u rule: new_row.induct) (auto simp: stamp_def account_row_def provisioned_def)

lemma row_edit_locked:
  assumes "row_edit c a = Some (v, f)" "\<not> unlocks uid a" "u_id r = v" "v = uid \<Longrightarrow> u_status r = user_disabled" "v = uid"
  shows "u_status (f r) = user_disabled"
  using assms by (cases a) (auto simp: edit_update_def split: if_splits sum.splits)

lemma locked_step:
  assumes "users_step c a us us'" "locked uid us" "\<not> unlocks uid a"
  shows "locked uid us'"
  using assms(1)
proof cases
  case (us_add u)
  then show ?thesis using assms(2,3) new_row_id by (auto simp: locked_def)
next
  case (us_edit v f)
  have "u_status (if u_id r = v then f r else r) = user_disabled"
    if "r \<in> set us" "u_id (if u_id r = v then f r else r) = uid" for r
    using that assms(2) row_edit_frozen(1) [OF us_edit(2)] row_edit_locked [OF us_edit(2) assms(3), of r]
    by (auto simp: locked_def split: if_splits)
  then show ?thesis unfolding locked_def us_edit(1) tbl_update_def set_map by blast
qed (use assms(2) in \<open>auto simp: locked_def tbl_delete_def\<close>)

lemma locked_run:
  assumes "identity_ok (users_t db)" "locked uid (users_t db)" "\<forall>a \<in> set as. \<not> unlocks uid a"
  shows "locked uid (users_t (run_ops c d as db))"
  using assms
proof (induction as arbitrary: db)
  case (Cons a as)
  have "users_step c a (users_t db) (users_t (snd (run_op c d a db)))"
    using Cons.prems(1) by (intro run_op_refines) (simp add: identity_ok_def)
  then have "locked uid (users_t (snd (run_op c d a db)))" using locked_step Cons.prems by force
  then show ?case using Cons by (simp add: run_op_ok)
qed simp

lemma locked_not_backed: "locked uid (users_t db) \<Longrightarrow> backed db v role \<Longrightarrow> v \<noteq> uid"
  by (auto simp: locked_def backed_def user_consts)

section \<open>Keys confined to agents\<close>

text \<open>The row of an issued key.\<close>

definition minted :: "golib \<Rightarrow> instant \<Rightarrow> string \<Rightarrow> string \<Rightarrow> string \<Rightarrow> string \<Rightarrow> string \<Rightarrow> apikey_rec" where
  "minted c now kid token uid name ty = \<lparr>k_id = kid, k_owner = uid, k_name = name, k_hash = sha256_hex c token,
     k_prefix = key_prefix token, k_type = ty, k_created = now\<rparr>"

lemma stmt_Inr:
  assumes "stmt f db = (Inr a, db')"
  shows "\<exists>p. f (db\<lparr>plan := p\<rparr>) = (Inr a, db')"
proof (cases "plan db")
  case Nil
  then have "db\<lparr>plan := []\<rparr> = db" by (cases db) simp
  moreover have "f db = (Inr a, db')" using assms Nil by (simp add: stmt_def)
  ultimately show ?thesis by metis
qed (use assms in \<open>auto simp: stmt_def split: option.splits\<close>)

text \<open>The tables besides the ACL and the plan.\<close>

definition same_tables :: "id_db \<Rightarrow> id_db \<Rightarrow> bool" where
  "same_tables db db' = (users_t db' = users_t db \<and> keys_t db' = keys_t db \<and> agents_t db' = agents_t db)"

lemma tx_Inr:
  assumes "tx body db = (Inr (), db')"
  obtains p db2 where "body (db\<lparr>plan := p\<rparr>) = (Inr (), db2)" "same_tables db2 db'" "acl_t db' = acl_t db2"
proof -
  from assms obtain db'' where "and_then (stmt (ok ())) (\<lambda>_. and_then body (\<lambda>_. stmt (ok ()))) db = (Inr (), db'')" "db' = db''"
    by (auto simp: tx_def split: prod.splits sum.splits)
  then obtain p db2 p' where "body (db\<lparr>plan := p\<rparr>) = (Inr (), db2)" "db' = db2\<lparr>plan := p'\<rparr>"
    by (auto simp: and_then_Inr step_simps dest!: stmt_Inr)
  then show ?thesis by (intro that [of p db2]) (simp_all add: same_tables_def)
qed

lemma insert_acls:
  "for_each (insert_acl kid) aids db = (Inr (), db') \<Longrightarrow>
    same_tables db db' \<and> acl_t db' = acl_t db @ map (Pair kid) aids"
proof (induction aids arbitrary: db)
  case Nil
  then show ?case by (auto simp: step_simps same_tables_def)
next
  case (Cons aid aids)
  then obtain db1 where 1: "insert_acl kid aid db = (Inr (), db1)" and 2: "for_each (insert_acl kid) aids db1 = (Inr (), db')"
    by (auto simp: and_then_Inr)
  from 1 have "same_tables db db1 \<and> acl_t db1 = acl_t db @ [(kid, aid)]"
    unfolding insert_acl_def by (auto dest!: stmt_Inr simp: same_tables_def split: if_splits)
  with Cons.IH [OF 2] show ?case by (auto simp: same_tables_def)
qed

lemma set_acl:
  assumes "set_apikey_agents kid aids db = (Inr (), db')"
  shows "same_tables db db' \<and> acl_t db' = tbl_delete (\<lambda>(k, _). k = kid) (acl_t db) @ map (Pair kid) aids"
  using assms unfolding set_apikey_agents_def
  by (elim tx_Inr) (auto dest!: insert_acls stmt_Inr simp: and_then_Inr same_tables_def)

lemma query_Inr: "query q db = (Inr a, db') \<Longrightarrow> \<exists>p. db' = db\<lparr>plan := p\<rparr> \<and> q db' = Inr a"
  by (elim query_result) (metis, simp)

lemma unowned_None:
  assumes "unowned uid aids db = (Inr None, db')"
  shows "\<exists>p. db' = db\<lparr>plan := p\<rparr>" "\<forall>aid \<in> set aids. \<exists>r \<in> set (agents_t db). ag_id r = aid \<and> ag_owner r = uid"
proof -
  have "(\<exists>p. db' = db\<lparr>plan := p\<rparr>) \<and> (\<forall>aid \<in> set aids. \<exists>r \<in> set (agents_t db). ag_id r = aid \<and> ag_owner r = uid)"
    using assms
  proof (induction aids arbitrary: db)
    case Nil
    then show ?case by (auto simp: step_simps intro: exI [of _ "plan db'"])
  next
    case (Cons aid aids)
    from Cons.prems obtain x db1 where x: "get_agent aid db = (x, db1)"
      and r: "(case x of Inl _ \<Rightarrow> ok (Some aid)
         | Inr rec \<Rightarrow> if ag_owner rec \<noteq> uid then ok (Some aid) else unowned uid aids) db1 = (Inr None, db')"
      unfolding unowned.simps by (rule attempt_elim)
    from r obtain rec where rec: "x = Inr rec" "ag_owner rec = uid" "unowned uid aids db1 = (Inr None, db')"
      by (cases x) (auto simp: step_simps split: if_splits)
    from x [unfolded rec(1) get_agent_def] obtain p where p: "db1 = db\<lparr>plan := p\<rparr>"
      and "found (tbl_first (\<lambda>a. ag_id a = aid) (agents_t db1)) = Inr rec" by (auto dest!: query_Inr)
    then have "rec \<in> set (agents_t db) \<and> ag_id rec = aid"
      by (auto simp: found_Inr dest!: tbl_first_SomeD)
    then show ?case using Cons.IH [OF rec(3)] p rec(2) by auto
  qed
  then show "\<exists>p. db' = db\<lparr>plan := p\<rparr>" "\<forall>aid \<in> set aids. \<exists>r \<in> set (agents_t db). ag_id r = aid \<and> ag_owner r = uid"
    by blast+
qed

lemma issue_agent_key:
  assumes "issue_key c now rid rtok uid name key_agent aids db = (Inr (k, token), db')"
  obtains kid where "keys_t db' = keys_t db @ [minted c now kid token uid name key_agent]" "token \<noteq> []"
    "acl_t db' = tbl_delete (\<lambda>(k, _). k = kid) (acl_t db) @ map (Pair kid) aids" "users_t db' = users_t db"
proof -
  from assms obtain x y where ids: "rid = Inr x" "rtok = Inr y"
    by (cases rid; cases rtok) (auto simp: issue_key_def new_id_def and_then_def step_simps)
  let ?k = "minted c now (''k_'' @ x) (''fc_'' @ y) uid name key_agent"
  from assms ids obtain db1 where t: "token = ''fc_'' @ y" and 1: "create_apikey_row ?k db = (Inr (), db1)"
    and 2: "set_apikey_agents (''k_'' @ x) aids db1 = (Inr (), db')"
    by (auto simp: issue_key_def new_id_def and_then_Inr step_simps Let_def minted_def [symmetric])
  from 1 have "keys_t db1 = keys_t db @ [?k]" "users_t db1 = users_t db" "acl_t db1 = acl_t db"
    unfolding create_apikey_row_def by (auto dest!: stmt_Inr simp: minted_def user_consts split: if_splits)
  with set_acl [OF 2] t show ?thesis by (intro that [of "''k_'' @ x"]) (simp_all add: same_tables_def)
qed

section \<open>Properties\<close>

text \<open>C9: Once an account is disabled or deleted, and until an update makes it active again, no password
  login succeeds for it and no request is resolved to it from its sessions or its API keys, whatever
  account and key operations run and whatever the driver answers. The request must not name an end
  user.\<close>

theorem locked_account_refused:
  assumes "identity_ok (users_t db)" and "locked uid (users_t db)" and "\<forall>a \<in> set as. \<not> unlocks uid a"
    and "trim_space (rq_end_user rq) = []"
  shows "(\<forall>i db'. resolve c now rnd rq (run_ops c d as db) = (Inr i, db') \<longrightarrow> id_user i \<noteq> uid) \<and>
    (\<forall>a db'. authenticate c login pw (run_ops c d as db) = (Inr a, db') \<longrightarrow> ac_id a \<noteq> uid)"
proof -
  note lock = locked_run [OF assms(1-3), of c d]
  have "id_user i \<noteq> uid" if r: "resolve c now rnd rq (run_ops c d as db) = (Inr i, db')" for i db'
  proof -
    from r obtain j db1 where j: "resolve_credentials c now rq (run_ops c d as db) = (Inr j, db1)"
      "finish_resolve now rnd rq j db1 = (Inr i, db')" by (auto simp: resolve_def and_then_Inr)
    then have "id_user i = id_user j"
      using assms(4) by (auto simp: finish_resolve_def Let_def step_simps split: if_splits)
    then show ?thesis using locked_not_backed [OF lock resolve_credentials_sound(1) [OF j(1)]] by simp
  qed
  moreover have "ac_id a \<noteq> uid" if "authenticate c login pw (run_ops c d as db) = (Inr a, db')" for a db'
    using locked_not_backed [OF lock authenticate_sound [OF that]] .
  ultimately show ?thesis by blast
qed

lemma user_by_id:
  "distinct (map u_id us) \<Longrightarrow> u \<in> set us \<Longrightarrow> tbl_first (\<lambda>r. u_id r = u_id u) us = Some u"
  by (rule tbl_first_unique)

text \<open>A token of a key resolves to the key's owner.\<close>

lemma bearer_resolves:
  assumes "plan db = []" and "token \<noteq> []" and "tbl_first (\<lambda>k. k_hash k = sha256_hex c token) (keys_t db) = Some k"
    and "tbl_first (\<lambda>u. u_id u = k_owner k) (users_t db) = Some u" and "u_status u = user_active"
    and "key_agents k db = (Inr ags, db)"
  shows "resolve_bearer c token db = (Inr \<lparr>id_user = u_id u, id_role = u_role u, id_method = By_Apikey, id_key = k_id k,
      id_key_type = k_type k, id_agents = ags, id_act_as = []\<rparr>, db)"
  using assms
  by (simp add: resolve_bearer_def attempt_def lookup_by_token_def lookup_apikey_by_hash_def get_user_def step_simps
      and_then_def to_account_def to_apikey_def)

lemma key_type_nonempty [simp]: "key_agent \<noteq> []" "key_user \<noteq> []" "key_admin \<noteq> []"
  by (simp_all add: user_consts)


text \<open>Disabling an end user has no effect on requests that name it: a request with a valid API key
  of the owner and the end user's external id is resolved to the end user's account whatever its
  status is, disabled included.\<close>

theorem disabled_end_user_served:
  assumes "resolve_credentials c now rq db = (Inr i, db1)" and "plan db1 = []" and "identity_ok (users_t db1)"
    and "id_method i = By_Apikey" and "id_key i \<noteq> []" and "id_role i \<noteq> role_app_user"
    and "u \<in> set (users_t db1)" and "u_owner u = trim_space (id_user i)" and "u_owner u \<noteq> []"
    and "u_external u = trim_space (trim_space (rq_end_user rq))" and "u_external u \<noteq> []"
    and "u_status u = user_disabled"
  shows "resolve c now rnd rq db = (Inr (i\<lparr>id_user := u_id u, id_role := u_role u\<rparr>), db1)"
proof -
  have "get_user_by_external (u_owner u) (u_external u) db1 = (Inr u, db1)"
    by (rule external_first) (use assms in \<open>simp_all add: identity_ok_def\<close>)
  then have "ensure_app_user now rnd (id_user i) (trim_space (rq_end_user rq)) [] (id_key i) db1 = (Inr (to_account u), db1)"
    using assms(8-11) by (simp add: ensure_app_user_def ensure_provisioned_def Let_def attempt_def step_simps)
  moreover have "trim_space (rq_end_user rq) \<noteq> []" using assms(10,11) by auto
  ultimately show ?thesis
    using assms(1,4-6)
    by (simp add: resolve_def and_then_def finish_resolve_def Let_def attempt_def switch_to_app_user_def step_simps
        to_account_def)
qed

definition bearer_request :: "string \<Rightarrow> string \<Rightarrow> string \<Rightarrow> request" where
  "bearer_request m p token = \<lparr>rq_method = m, rq_path = p, rq_cookie = None, rq_authorization = ''Bearer '' @ token,
     rq_token = [], rq_act_as = [], rq_end_user = []\<rparr>"

definition session_request :: "string \<Rightarrow> string \<Rightarrow> string \<Rightarrow> string \<Rightarrow> request" where
  "session_request m p sid act = \<lparr>rq_method = m, rq_path = p, rq_cookie = Some sid, rq_authorization = [],
     rq_token = [], rq_act_as = act, rq_end_user = []\<rparr>"

lemma resolve_bearer_request:
  assumes "resolve_bearer c token db = (Inr i, db)" "token \<noteq> []" "id_method i = By_Apikey"
  shows "resolve c now rnd (bearer_request m p token) db = (Inr i, db)"
proof -
  have "extract_credentials (bearer_request m p token) = (token, [])"
    using assms(2) by (simp add: extract_credentials_def bearer_request_def trim_prefix_def Let_def)
  then show ?thesis
    using assms
    by (simp add: resolve_def resolve_credentials_def and_then_def attempt_def step_simps finish_resolve_def Let_def
        bearer_request_def)
qed

text \<open>Writing a row back under its own names breaks no constraint.\<close>

lemma update_user_own:
  assumes "plan db = []" "identity_ok (users_t db)" "u \<in> set (users_t db)" "u_id v = u_id u" "u_name v = u_name u" "u_email v = u_email u"
  shows "update_user now v db = (Inr (), db\<lparr>users_t := tbl_update (\<lambda>r. u_id r = u_id v)
      (\<lambda>r. r\<lparr>u_name := u_name v, u_email := u_email v, u_hash := u_hash v, u_display := u_display v,
           u_role := u_role v, u_status := u_status v, u_avatar := u_avatar v, u_quota := u_quota v,
           u_updated := now\<rparr>) (users_t db)\<rparr>)"
proof -
  have "distinct (map u_name (users_t db))" "distinct (map u_email (users_t db))" "distinct (map u_id (users_t db))"
    using assms(2) by (simp_all add: identity_ok_def)
  then have "\<forall>r \<in> set (users_t db). \<not> (u_id r \<noteq> u_id u \<and> (u_name r = u_name u \<or> u_email r = u_email u))"
    using assms(3) by (metis distinct_map inj_onD)
  then have "tbl_first (\<lambda>r. u_id r \<noteq> u_id v \<and> (u_name r = u_name v \<or> u_email r = u_email v)) (users_t db) = None"
    unfolding tbl_first_None assms(4-6) .
  then show ?thesis using assms(1) by (simp add: update_user_def step_simps)
qed

lemma exists_updated: "u \<in> set us \<Longrightarrow> w u \<Longrightarrow> P (f u) \<Longrightarrow> \<exists>v \<in> set (tbl_update w f us). P v"
  by (force simp: tbl_update_def)

text \<open>Demoting a super administrator does not take back its admin keys: with one, the demoted account,
  now a plain user, still passes the platform gate and makes itself super administrator again.\<close>

theorem demoted_admin_restores_itself:
  assumes "plan db = []" and "identity_ok (users_t db)" and "token \<noteq> []"
    and u: "u \<in> set (users_t db)" "u_role u = role_user" "u_status u = user_active"
    and k: "tbl_first (\<lambda>k. k_hash k = sha256_hex c token) (keys_t db) = Some k" "k_owner k = u_id u" "k_type k = key_admin"
  shows "\<exists>a db1. middleware c now rnd (bearer_request ''PUT'' p token) (require_platform_admin (handle_update_user now (u_id u)
      (Some \<lparr>uu_display = [], uu_role = role_super_admin, uu_status = [], uu_quota = None\<rparr>))) db = (Done 200 a, db1) \<and>
    (\<exists>v \<in> set (users_t db1). u_id v = u_id u \<and> active_admin v)"
proof -
  have first: "tbl_first (\<lambda>r. u_id r = u_id u) (users_t db) = Some u"
    by (rule user_by_id) (use assms(2) u(1) in \<open>simp_all add: identity_ok_def\<close>)
  have "resolve_bearer c token db = (Inr \<lparr>id_user = u_id u, id_role = u_role u, id_method = By_Apikey, id_key = k_id k,
      id_key_type = k_type k, id_agents = [], id_act_as = []\<rparr>, db)"
    using assms k by (intro bearer_resolves) (simp_all add: first key_agents_def step_simps)
  from resolve_bearer_request [OF this assms(3)]
  have "resolve c now rnd (bearer_request ''PUT'' p token) db = (Inr \<lparr>id_user = u_id u, id_role = u_role u, id_method = By_Apikey,
      id_key = k_id k, id_key_type = k_type k, id_agents = [], id_act_as = []\<rparr>, db)" by simp
  moreover have "update_user now (u\<lparr>u_role := role_super_admin\<rparr>) db = (Inr (), db\<lparr>users_t := tbl_update (\<lambda>r. u_id r = u_id u)
      (\<lambda>r. r\<lparr>u_name := u_name u, u_email := u_email u, u_hash := u_hash u, u_display := u_display u,
           u_role := role_super_admin, u_status := u_status u, u_avatar := u_avatar u, u_quota := u_quota u,
           u_updated := now\<rparr>) (users_t db)\<rparr>)" (is "_ = (Inr (), ?db1)")
    using update_user_own [OF assms(1,2) u(1), of "u\<lparr>u_role := role_super_admin\<rparr>" now] by simp
  ultimately have "middleware c now rnd (bearer_request ''PUT'' p token) (require_platform_admin (handle_update_user now (u_id u)
      (Some \<lparr>uu_display = [], uu_role = role_super_admin, uu_status = [], uu_quota = None\<rparr>))) db =
      (Done 200 (to_account (u\<lparr>u_role := role_super_admin, u_updated := now\<rparr>)), ?db1)"
    using k(3) first assms(1)
    by (simp add: middleware_def serve_def require_platform_admin_def can_admin_platform_def handle_update_user_def
        update_account_def get_user_def step_simps and_then_def save_user_def or_400_def reply_def Let_def user_consts)
  moreover have "\<exists>v \<in> set (users_t ?db1). u_id v = u_id u \<and> active_admin v"
    by (simp, rule exists_updated [OF u(1)]) (simp_all add: active_admin_def u)
  ultimately show ?thesis by blast
qed

lemma issue_wide_key:
  assumes "plan db = []" "\<forall>r \<in> set (keys_t db). k_id r \<noteq> ''k_'' @ x" "ty \<noteq> key_agent" "ty \<noteq> []"
  shows "issue_key c now (Inr x) (Inr y) uid name ty aids db =
    (Inr ((to_apikey (minted c now (''k_'' @ x) (''fc_'' @ y) uid name ty))\<lparr>ak_key := ''fc_'' @ y\<rparr>, ''fc_'' @ y),
     db\<lparr>keys_t := keys_t db @ [minted c now (''k_'' @ x) (''fc_'' @ y) uid name ty]\<rparr>)"
  using assms tbl_first_None [of "\<lambda>r. k_id r = ''k_'' @ x" "keys_t db"]
  by (simp add: issue_key_def new_id_def and_then_def step_simps create_apikey_row_def Let_def minted_def)

section \<open>Deleting accounts\<close>

text \<open>C10: Deleting an account never succeeds: whatever the account, the database and the driver's answers, the
  endpoint answers 400 and every table is as before.\<close>

theorem accounts_never_deleted: "\<exists>m p. handle_delete_user d uid i db = (Fail 400 m, db\<lparr>plan := p\<rparr>)"
  using delete_account_fails [of d uid db] by (auto simp: handle_delete_user_def serve_def or_400_def reply_def)

text \<open>C31: A key restricted to a list of agents does not stay restricted: whoever holds one can use it to
  issue a key of a wider type for the owner, a user key, or an admin key when the owner is a super
  administrator, and the new token is accepted with the wider rights.\<close>

theorem agent_key_escalates:
  assumes "plan db = []" and "identity_ok (users_t db)"
    and u: "u \<in> set (users_t db)" "u_status u = user_active" "u_id u \<noteq> []"
    and i: "id_user i = u_id u" "id_role i = u_role u" "id_method i = By_Apikey" "id_key_type i = key_agent" "id_act_as i = []"
    and ty: "u_role u = role_user \<and> ty = key_user \<or> u_role u = role_super_admin \<and> ty = key_admin"
    and new: "\<forall>r \<in> set (keys_t db). k_id r \<noteq> ''k_'' @ x \<and> k_hash r \<noteq> sha256_hex c (''fc_'' @ y)"
  shows "\<not> can_create_agent i \<and> \<not> can_admin_platform i \<and>
    (\<exists>k db1 j. handle_create_apikey c now (Inr x) (Inr y) (Some \<lparr>ck_name = name, ck_type = ty, ck_agents = []\<rparr>) i db
        = (Done 201 (k, ''fc_'' @ y), db1) \<and>
      resolve_bearer c (''fc_'' @ y) db1 = (Inr j, db1) \<and> can_create_agent j \<and>
      (u_role u = role_super_admin \<longrightarrow> can_admin_platform j))"
proof -
  have wide: "ty \<noteq> key_agent" "ty \<noteq> []" "is_apikey_type ty" "ty = key_admin \<longrightarrow> u_role u = role_super_admin"
      "u_role u \<noteq> role_app_user"
    using ty by (auto simp: user_consts is_apikey_type_def)
  let ?k = "minted c now (''k_'' @ x) (''fc_'' @ y) (u_id u) name ty"
  let ?db1 = "db\<lparr>keys_t := keys_t db @ [?k]\<rparr>"
  have "handle_create_apikey c now (Inr x) (Inr y) (Some \<lparr>ck_name = name, ck_type = ty, ck_agents = []\<rparr>) i db
      = (Done 201 ((to_apikey ?k)\<lparr>ak_key := ''fc_'' @ y\<rparr>, ''fc_'' @ y), ?db1)"
    using wide i u(3) issue_wide_key [OF assms(1) _ wide(1,2), of x c now y "u_id u" name "[]"] new
    by (simp add: handle_create_apikey_def read_only_def is_acting_as_def mint_def serve_def create_apikey_def
        or_400_def reply_def Let_def)
  moreover have "\<exists>ags. key_agents ?k ?db1 = (Inr ags, ?db1)"
    using assms(1) wide(1) ty by (auto simp: key_agents_def step_simps minted_def list_agents_def and_then_def)
  then obtain ags where ags: "key_agents ?k ?db1 = (Inr ags, ?db1)" by blast
  have "resolve_bearer c (''fc_'' @ y) ?db1 = (Inr \<lparr>id_user = u_id u, id_role = u_role u, id_method = By_Apikey,
      id_key = k_id ?k, id_key_type = k_type ?k, id_agents = ags, id_act_as = []\<rparr>, ?db1)"
  proof (rule bearer_resolves [OF _ _ _ _ u(2) ags])
    show "tbl_first (\<lambda>k. k_hash k = sha256_hex c (''fc_'' @ y)) (keys_t ?db1) = Some ?k"
      using new tbl_first_None [of "\<lambda>k. k_hash k = sha256_hex c (''fc_'' @ y)" "keys_t db"]
      by (simp add: tbl_first_append tbl_first_Cons minted_def)
    show "tbl_first (\<lambda>r. u_id r = k_owner ?k) (users_t ?db1) = Some u"
      using user_by_id [OF _ u(1)] assms(2) by (simp add: identity_ok_def minted_def)
  qed (use assms(1) in simp_all)
  ultimately show ?thesis
    using wide(1) i ty by (auto simp: can_create_agent_def can_admin_platform_def minted_def user_consts)
qed

text \<open>Acting as another user is not read-only for the administration endpoints: a super administrator
  with \<^verbatim>\<open>actAs\<close> set gets an identity marked read-only, and the password reset
  behind the platform gate changes the account all the same.\<close>

theorem acting_admin_writes:
  assumes "plan db = []" and "identity_ok (users_t db)"
    and s: "tbl_first (\<lambda>s. ws_sid s = sid) (webs_t db) = Some s" "sid \<noteq> []" "now \<le> ws_expires s"
    and a: "a \<in> set (users_t db)" "ws_user s = u_id a" "active_admin a"
    and act: "act \<noteq> []" "act \<noteq> u_id a"
    and t: "t \<in> set (users_t db)" and pw: "pw \<noteq> []" "bcrypt_hash c pw = Inr h"
  shows "\<exists>i db1. resolve c now rnd (session_request ''POST'' p sid act) db = (Inr i, db) \<and> read_only i \<and>
    middleware c now rnd (session_request ''POST'' p sid act) (require_platform_admin (handle_reset_user_password c now (u_id t) (Some pw))) db = (Done 200 (), db1) \<and>
    (\<exists>v \<in> set (users_t db1). u_id v = u_id t \<and> u_hash v = h)"
proof -
  have first: "tbl_first (\<lambda>r. u_id r = u_id x) (users_t db) = Some x" if "x \<in> set (users_t db)" for x
    by (rule user_by_id) (use assms(2) that in \<open>simp_all add: identity_ok_def\<close>)
  let ?i = "\<lparr>id_user = u_id a, id_role = u_role a, id_method = By_Session, id_key = [], id_key_type = [], id_agents = [],
      id_act_as = act\<rparr>"
  let ?rq = "session_request ''POST'' p sid act"
  have "extract_credentials ?rq = ([], sid)" by (simp add: extract_credentials_def session_request_def Let_def)
  then have r: "resolve c now rnd ?rq db = (Inr ?i, db)"
    using assms(1) s a(2,3) first [OF a(1)] act(1)
    by (simp add: resolve_def resolve_credentials_def and_then_def attempt_def resolve_session_def get_web_session_def
        get_account_def get_user_def step_simps to_account_def active_admin_def finish_resolve_def Let_def session_request_def)
  have "update_user now (t\<lparr>u_hash := h\<rparr>) db = (Inr (), db\<lparr>users_t := tbl_update (\<lambda>r. u_id r = u_id t)
      (\<lambda>r. r\<lparr>u_name := u_name t, u_email := u_email t, u_hash := h, u_display := u_display t,
           u_role := u_role t, u_status := u_status t, u_avatar := u_avatar t, u_quota := u_quota t,
           u_updated := now\<rparr>) (users_t db)\<rparr>)" (is "_ = (Inr (), ?db1)")
    using update_user_own [OF assms(1,2) t, of "t\<lparr>u_hash := h\<rparr>" now] by simp
  then have "middleware c now rnd ?rq (require_platform_admin (handle_reset_user_password c now (u_id t) (Some pw))) db
      = (Done 200 (), ?db1)"
    using r a(3) first [OF t] pw assms(1)
    by (simp add: middleware_def serve_def require_platform_admin_def can_admin_platform_def active_admin_def
        handle_reset_user_password_def set_password_def get_user_def and_then_def step_simps or_400_def reply_def)
  moreover have "\<exists>v \<in> set (users_t ?db1). u_id v = u_id t \<and> u_hash v = h"
    by (simp, rule exists_updated [OF t]) simp_all
  moreover have "read_only ?i" using act by (simp add: read_only_def is_acting_as_def)
  ultimately show ?thesis using r by blast
qed

section \<open>Concrete runs\<close>

definition demo_user :: "string \<Rightarrow> string \<Rightarrow> string \<Rightarrow> user_rec" where
  "demo_user uid role status = root_user\<lparr>u_id := uid, u_name := uid, u_email := uid, u_role := role, u_status := status\<rparr>"

definition end_user :: user_rec where
  "end_user = (demo_user ''u_2'' role_app_user user_disabled)\<lparr>u_owner := ''o'', u_external := ''e''\<rparr>"

definition demo_key :: "string \<Rightarrow> string \<Rightarrow> apikey_rec" where
  "demo_key owner ty = \<lparr>k_id = ''k_1'', k_owner = owner, k_name = [], k_hash = ''t'', k_prefix = [], k_type = ty, k_created = 0\<rparr>"

lemmas demo_defs = demo_user_def end_user_def demo_key_def root_user_def no_users_def plain_lib_def

lemma demo_one_ok: "role \<in> {role_super_admin, role_user} \<Longrightarrow> status \<in> {user_active, user_disabled} \<Longrightarrow>
    identity_ok [demo_user uid role status]"
  by (auto simp: demo_defs identity_ok_def keyed_pairs_def end_users_def user_typed_def)

theorem locked_account_refused_witness:
  "\<not> (\<exists>i db'. resolve plain_lib 9 (Inr []) (session_request ''GET'' ''/api/me'' ''s'' [])
        (run_ops plain_lib Sqlite [Op_Update 5 ''u_1'' ''n'' [] [] None] (no_users\<lparr>users_t := [demo_user ''u_1'' role_user user_disabled]\<rparr>))
        = (Inr i, db') \<and> id_user i = ''u_1'') \<and>
   \<not> (\<exists>a db'. authenticate plain_lib ''u_1'' ''h''
        (run_ops plain_lib Sqlite [Op_Update 5 ''u_1'' ''n'' [] [] None] (no_users\<lparr>users_t := [demo_user ''u_1'' role_user user_disabled]\<rparr>))
        = (Inr a, db') \<and> ac_id a = ''u_1'')"
proof -
  have pre: "identity_ok (users_t (no_users\<lparr>users_t := [demo_user ''u_1'' role_user user_disabled]\<rparr>))"
    "locked ''u_1'' (users_t (no_users\<lparr>users_t := [demo_user ''u_1'' role_user user_disabled]\<rparr>))"
    by (simp_all add: demo_one_ok locked_def user_consts) (simp add: demo_user_def)
  show ?thesis
    using locked_account_refused [OF pre, of "[Op_Update 5 ''u_1'' ''n'' [] [] None]"
        "session_request ''GET'' ''/api/me'' ''s'' []" plain_lib 9 "Inr []" Sqlite "''u_1''" "''h''"]
    by (fastforce simp: session_request_def user_consts simp del: run_ops_simps)
qed

theorem disabled_end_user_served_witness:
  "\<exists>i db. resolve plain_lib 9 (Inr []) ((bearer_request ''GET'' ''/v1/models'' ''t'')\<lparr>rq_end_user := ''e''\<rparr>) db = (Inr i, db) \<and>
     id_user i = ''u_2'' \<and> end_user \<in> set (users_t db) \<and> u_status end_user = user_disabled"
proof -
  let ?db = "no_users\<lparr>users_t := [demo_user ''o'' role_user user_active, end_user], keys_t := [demo_key ''o'' key_user]\<rparr>"
  let ?rq = "(bearer_request ''GET'' ''/v1/models'' ''t'')\<lparr>rq_end_user := ''e''\<rparr>"
  let ?i = "\<lparr>id_user = ''o'', id_role = role_user, id_method = By_Apikey, id_key = ''k_1'', id_key_type = key_user,
      id_agents = [], id_act_as = []\<rparr>"
  have rc: "resolve_credentials plain_lib 9 ?rq ?db = (Inr ?i, ?db)"
    by (simp add: resolve_credentials_def extract_credentials_def bearer_request_def trim_prefix_def Let_def attempt_def
        step_simps bearer_resolves [of _ "''t''" _ "demo_key ''o'' key_user" "demo_user ''o'' role_user user_active" "[]"]
        demo_defs tbl_first_Cons key_agents_def list_agents_def and_then_def user_consts tbl_select_def)
  have ok: "identity_ok (users_t ?db)"
    by (simp add: demo_defs identity_ok_def keyed_pairs_def end_users_def user_typed_def user_consts)
  have "resolve plain_lib 9 (Inr []) ?rq ?db = (Inr (?i\<lparr>id_user := u_id end_user, id_role := u_role end_user\<rparr>), ?db)"
    by (rule disabled_end_user_served [OF rc _ ok])
      (simp_all add: demo_defs bearer_request_def user_consts trim_letters)
  then show ?thesis by (intro exI [of _ "?i\<lparr>id_user := u_id end_user, id_role := u_role end_user\<rparr>"] exI [of _ ?db])
      (simp add: demo_defs)
qed

theorem demoted_admin_restores_itself_witness:
  "\<exists>a db1. middleware plain_lib 9 (Inr []) (bearer_request ''PUT'' ''/api/users/u_1'' ''t'')
      (require_platform_admin (handle_update_user 9 ''u_1''
        (Some \<lparr>uu_display = [], uu_role = role_super_admin, uu_status = [], uu_quota = None\<rparr>)))
      (no_users\<lparr>users_t := [demo_user ''u_1'' role_user user_active], keys_t := [demo_key ''u_1'' key_admin]\<rparr>) = (Done 200 a, db1) \<and>
    (\<exists>v \<in> set (users_t db1). u_id v = ''u_1'' \<and> active_admin v)"
  using demoted_admin_restores_itself [where
      db = "no_users\<lparr>users_t := [demo_user ''u_1'' role_user user_active], keys_t := [demo_key ''u_1'' key_admin]\<rparr>"
      and token = "''t''" and u = "demo_user ''u_1'' role_user user_active" and c = plain_lib and k = "demo_key ''u_1'' key_admin"
      and now = 9 and rnd = "Inr []" and p = "''/api/users/u_1''"]
  by (simp add: demo_one_ok no_users_def tbl_first_Cons) (simp add: demo_defs)

theorem agent_key_escalates_witness:
  "\<exists>k db1 j. handle_create_apikey plain_lib 9 (Inr ''7'') (Inr ''8'') (Some \<lparr>ck_name = [], ck_type = key_admin, ck_agents = []\<rparr>)
        \<lparr>id_user = ''u_1'', id_role = role_super_admin, id_method = By_Apikey, id_key = ''k_1'', id_key_type = key_agent,
         id_agents = [''agt_1''], id_act_as = []\<rparr>
        (no_users\<lparr>users_t := [demo_user ''u_1'' role_super_admin user_active], keys_t := [demo_key ''u_1'' key_agent]\<rparr>)
        = (Done 201 (k, ''fc_8''), db1) \<and>
      resolve_bearer plain_lib ''fc_8'' db1 = (Inr j, db1) \<and> can_admin_platform j"
  using agent_key_escalates [where
      db = "no_users\<lparr>users_t := [demo_user ''u_1'' role_super_admin user_active], keys_t := [demo_key ''u_1'' key_agent]\<rparr>"
      and u = "demo_user ''u_1'' role_super_admin user_active" and ty = key_admin and x = "''7''" and y = "''8''"
      and c = plain_lib and now = 9 and name = "[]"
      and i = "\<lparr>id_user = ''u_1'', id_role = role_super_admin, id_method = By_Apikey, id_key = ''k_1'', id_key_type = key_agent,
         id_agents = [''agt_1''], id_act_as = []\<rparr>"]
  by (simp add: demo_one_ok) (auto simp: demo_defs user_consts)

theorem acting_admin_writes_witness:
  "\<exists>i db1. resolve plain_lib 9 (Inr []) (session_request ''POST'' ''/api/users/u_1/password'' ''s'' ''u_2'')
        (no_users\<lparr>users_t := [demo_user ''u_1'' role_super_admin user_active],
          webs_t := [\<lparr>ws_sid = ''s'', ws_user = ''u_1'', ws_created = 0, ws_expires = 10\<rparr>]\<rparr>)
      = (Inr i, no_users\<lparr>users_t := [demo_user ''u_1'' role_super_admin user_active],
          webs_t := [\<lparr>ws_sid = ''s'', ws_user = ''u_1'', ws_created = 0, ws_expires = 10\<rparr>]\<rparr>) \<and> read_only i \<and>
    middleware plain_lib 9 (Inr []) (session_request ''POST'' ''/api/users/u_1/password'' ''s'' ''u_2'')
      (require_platform_admin (handle_reset_user_password plain_lib 9 (u_id (demo_user ''u_1'' role_super_admin user_active)) (Some ''new'')))
        (no_users\<lparr>users_t := [demo_user ''u_1'' role_super_admin user_active],
          webs_t := [\<lparr>ws_sid = ''s'', ws_user = ''u_1'', ws_created = 0, ws_expires = 10\<rparr>]\<rparr>) = (Done 200 (), db1) \<and>
    (\<exists>v \<in> set (users_t db1). u_id v = u_id (demo_user ''u_1'' role_super_admin user_active) \<and> u_hash v = ''new'')"
  by (rule acting_admin_writes [where a = "demo_user ''u_1'' role_super_admin user_active"
        and s = "\<lparr>ws_sid = ''s'', ws_user = ''u_1'', ws_created = 0, ws_expires = 10\<rparr>"])
    (simp_all add: demo_one_ok, simp_all add: demo_defs tbl_first_Cons active_admin_def)


end
