(* ===== verification/Task_Queue.thy ===== *)
theory Task_Queue
  imports Bus "HOL-Library.Multiset"
begin

text \<open>
  The task queue, \<^verbatim>\<open>internal/taskqueue/queue.go\<close>: per-chat FIFO queues with one
  worker goroutine each, a counting semaphore, the idle cleaner, and the pruning of finished
  tasks. Every stretch of code that runs under the mutex, and every channel operation, is one
  event of a step function on the shared state; the handler's result is part of the event that
  ends it. A queue object keeps its worker's control state.
\<close>

section \<open>State\<close>

datatype task_status = TaskPending | TaskRunning | TaskDone | TaskFailed

record task =
  t_id :: string
  t_agent :: string
  t_owner :: string
  t_chat :: string
  t_msg :: inbound_message
  t_account :: string
  t_status :: task_status
  t_created :: instant
  t_started :: "instant option"
  t_done :: "instant option"
  t_result :: string
  t_error :: "string option"

text \<open>A worker waits for a task, for the semaphore, runs the handler, or is about to update
  \<^verbatim>\<open>lastUsed\<close>; tasks are referred to by their index in \<open>tq_objs\<close>.\<close>

datatype phase = Idle | Waiting nat | Running nat | Touching | Exited

record chat_queue =
  cq_chat :: string
  cq_buf :: "nat list"
  cq_last :: instant
  cq_closed :: bool
  cq_phase :: phase

record task_queue =
  tq_max :: nat
  tq_timeout :: duration
  tq_idle :: duration
  tq_objs :: "task list"
  tq_tasks :: "nat list"
  tq_queues :: "chat_queue list"
  tq_chats :: "string \<rightharpoonup> nat"
  tq_sends :: "(nat \<times> nat) list"
  tq_stopped :: bool
  tq_panicked :: bool
  tq_clock :: instant

definition new_queue :: "int \<Rightarrow> duration \<Rightarrow> instant \<Rightarrow> task_queue" where
  "new_queue max_concurrent timeout now =
     \<lparr>tq_max = nat (if max_concurrent \<le> 0 then 10 else max_concurrent),
      tq_timeout = (if timeout \<le> 0 then 5 * minute else timeout),
      tq_idle = 5 * minute, tq_objs = [], tq_tasks = [], tq_queues = [], tq_chats = Map.empty,
      tq_sends = [], tq_stopped = False, tq_panicked = False, tq_clock = now\<rparr>"

section \<open>Steps\<close>

definition new_task :: "task_queue \<Rightarrow> string \<Rightarrow> string \<Rightarrow> inbound_message \<Rightarrow> string \<Rightarrow> task" where
  "new_task q agent chat msg account =
     \<lparr>t_id = ''task-'' @ show_int (tq_clock q div 1000000) @ ''-'' @ show_nat (Suc (length (tq_objs q))),
      t_agent = agent, t_owner = m_owner msg, t_chat = chat, t_msg = msg, t_account = account,
      t_status = TaskPending, t_created = tq_clock q, t_started = None, t_done = None,
      t_result = [], t_error = None\<rparr>"

text \<open>The locked part of \<^verbatim>\<open>Submit\<close>; the channel send that follows it outside the lock
  is the pending entry added to \<open>tq_sends\<close>.\<close>

definition submit :: "string \<Rightarrow> string \<Rightarrow> inbound_message \<Rightarrow> string \<Rightarrow> task_queue \<Rightarrow> task_queue" where
  "submit agent chat msg account q =
     (let k = length (tq_objs q);
          q1 = q\<lparr>tq_objs := tq_objs q @ [new_task q agent chat msg account],
                 tq_tasks := tq_tasks q @ [k]\<rparr>
      in case tq_chats q chat of
           Some i \<Rightarrow> q1\<lparr>tq_queues := (tq_queues q)[i := (tq_queues q ! i)\<lparr>cq_last := tq_clock q\<rparr>],
                       tq_sends := tq_sends q @ [(i, k)]\<rparr>
         | None \<Rightarrow> q1\<lparr>tq_queues := tq_queues q @
                         [\<lparr>cq_chat = chat, cq_buf = [], cq_last = tq_clock q, cq_closed = False,
                           cq_phase = Idle\<rparr>],
                      tq_chats := (tq_chats q)(chat \<mapsto> length (tq_queues q)),
                      tq_sends := tq_sends q @ [(length (tq_queues q), k)]\<rparr>)"

definition set_queue :: "nat \<Rightarrow> chat_queue \<Rightarrow> task_queue \<Rightarrow> task_queue" where
  "set_queue i c q = q\<lparr>tq_queues := (tq_queues q)[i := c]\<rparr>"

definition set_task :: "nat \<Rightarrow> (task \<Rightarrow> task) \<Rightarrow> task_queue \<Rightarrow> task_queue" where
  "set_task k f q = q\<lparr>tq_objs := (tq_objs q)[k := f (tq_objs q ! k)]\<rparr>"

definition is_running :: "chat_queue \<Rightarrow> bool" where
  "is_running c = (case cq_phase c of Running _ \<Rightarrow> True | _ \<Rightarrow> False)"

definition running_count :: "task_queue \<Rightarrow> nat" where
  "running_count q = length (filter is_running (tq_queues q))"

text \<open>Does the idle cleaner remove queue \<open>i\<close>?\<close>

definition idle_queue :: "task_queue \<Rightarrow> nat \<Rightarrow> bool" where
  "idle_queue q i = (tq_clock q - cq_last (tq_queues q ! i) > tq_idle q \<and> cq_buf (tq_queues q ! i) = [])"

definition removed_queue :: "task_queue \<Rightarrow> nat \<Rightarrow> bool" where
  "removed_queue q i = (tq_chats q (cq_chat (tq_queues q ! i)) = Some i \<and> idle_queue q i)"

definition cleanup_idle_queues :: "task_queue \<Rightarrow> task_queue" where
  "cleanup_idle_queues q =
     q\<lparr>tq_queues := map (\<lambda>(i, c). if removed_queue q i then c\<lparr>cq_closed := True\<rparr> else c)
                      (enumerate 0 (tq_queues q)),
       tq_chats := (\<lambda>chat. case tq_chats q chat of
          None \<Rightarrow> None | Some i \<Rightarrow> if idle_queue q i then None else Some i)\<rparr>"

datatype tq_event =
    Submit string string inbound_message string
  | Send nat
  | Receive nat
  | Acquire nat
  | Cancel_Wait nat
  | Finish nat "string + string"
  | Touch nat
  | Quit nat
  | Clean
  | Advance duration
  | Stop

definition buffer_cap :: nat where "buffer_cap = 100"

definition tq_step :: "tq_event \<Rightarrow> task_queue \<Rightarrow> task_queue option" where
  "tq_step e q = (case e of
     Submit agent chat msg account \<Rightarrow> Some (submit agent chat msg account q)
   | Send n \<Rightarrow>
       if n < length (tq_sends q) then
         (let (i, k) = tq_sends q ! n; c = tq_queues q ! i;
              q1 = q\<lparr>tq_sends := take n (tq_sends q) @ drop (Suc n) (tq_sends q)\<rparr>
          in if cq_closed c then Some (q1\<lparr>tq_panicked := True\<rparr>)
             else if length (cq_buf c) < buffer_cap
             then Some (set_queue i (c\<lparr>cq_buf := cq_buf c @ [k]\<rparr>) q1)
             else None)
       else None
   | Receive i \<Rightarrow>
       if i < length (tq_queues q) \<and> cq_phase (tq_queues q ! i) = Idle then
         (let c = tq_queues q ! i
          in case cq_buf c of
               k # ks \<Rightarrow> Some (set_queue i (c\<lparr>cq_buf := ks, cq_phase := Waiting k\<rparr>) q)
             | [] \<Rightarrow> if cq_closed c then Some (set_queue i (c\<lparr>cq_phase := Exited\<rparr>) q) else None)
       else None
   | Acquire i \<Rightarrow>
       if i < length (tq_queues q) \<and> running_count q < tq_max q then
         (case cq_phase (tq_queues q ! i) of
            Waiting k \<Rightarrow> Some (set_task k (\<lambda>t. t\<lparr>t_status := TaskRunning, t_started := Some (tq_clock q)\<rparr>)
                           (set_queue i ((tq_queues q ! i)\<lparr>cq_phase := Running k\<rparr>) q))
          | _ \<Rightarrow> None)
       else None
   | Cancel_Wait i \<Rightarrow>
       if i < length (tq_queues q) \<and> tq_stopped q then
         (case cq_phase (tq_queues q ! i) of
            Waiting k \<Rightarrow> Some (set_queue i ((tq_queues q ! i)\<lparr>cq_phase := Touching\<rparr>) q)
          | _ \<Rightarrow> None)
       else None
   | Finish i res \<Rightarrow>
       if i < length (tq_queues q) then
         (case cq_phase (tq_queues q ! i) of
            Running k \<Rightarrow> Some (set_task k (\<lambda>t. t\<lparr>t_done := Some (tq_clock q),
                  t_result := (case res of Inl _ \<Rightarrow> [] | Inr r \<Rightarrow> r),
                  t_error := (case res of Inl e \<Rightarrow> Some e | Inr _ \<Rightarrow> None),
                  t_status := (case res of Inl _ \<Rightarrow> TaskFailed | Inr _ \<Rightarrow> TaskDone)\<rparr>)
                (set_queue i ((tq_queues q ! i)\<lparr>cq_phase := Touching\<rparr>) q))
          | _ \<Rightarrow> None)
       else None
   | Touch i \<Rightarrow>
       if i < length (tq_queues q) \<and> cq_phase (tq_queues q ! i) = Touching
       then Some (set_queue i ((tq_queues q ! i)\<lparr>cq_phase := Idle, cq_last := tq_clock q\<rparr>) q)
       else None
   | Quit i \<Rightarrow>
       if i < length (tq_queues q) \<and> tq_stopped q \<and> cq_phase (tq_queues q ! i) = Idle
       then Some (set_queue i ((tq_queues q ! i)\<lparr>cq_phase := Exited\<rparr>) q)
       else None
   | Clean \<Rightarrow> if tq_stopped q then None else Some (cleanup_idle_queues q)
   | Advance d \<Rightarrow> if 0 \<le> d then Some (q\<lparr>tq_clock := tq_clock q + d\<rparr>) else None
   | Stop \<Rightarrow> Some (q\<lparr>tq_stopped := True\<rparr>))"

fun tq_run :: "tq_event list \<Rightarrow> task_queue \<Rightarrow> task_queue option" where
  "tq_run [] q = Some q"
| "tq_run (e # es) q = (case tq_step e q of None \<Rightarrow> None | Some q' \<Rightarrow> tq_run es q')"

text \<open>A cleaning is quiet when no queue it removes is in use: its worker waits for a task and no
  submitter is about to send to it.\<close>

definition quiet :: "task_queue \<Rightarrow> bool" where
  "quiet q = (\<forall>i < length (tq_queues q). removed_queue q i \<longrightarrow>
     cq_phase (tq_queues q ! i) \<in> {Idle, Exited} \<and> i \<notin> fst ` set (tq_sends q))"

inductive tq_reach :: "bool \<Rightarrow> task_queue \<Rightarrow> task_queue \<Rightarrow> bool" for safe q0 where
  start: "tq_reach safe q0 q0"
| step: "tq_reach safe q0 q \<Longrightarrow> tq_step e q = Some q' \<Longrightarrow> (safe \<and> e = Clean \<longrightarrow> quiet q) \<Longrightarrow>
    tq_reach safe q0 q'"

inductive_cases tq_reach_cases: "tq_reach safe q0 q"

section \<open>The semaphore\<close>

lemma running_update:
  "i < length (tq_queues q) \<Longrightarrow> running_count (set_queue i c q) + of_bool (is_running (tq_queues q ! i))
    = running_count q + of_bool (is_running c)"
  by (simp add: running_count_def set_queue_def length_filter_update)

lemma running_update_same:
  "is_running c = is_running (tq_queues q ! i) \<Longrightarrow> running_count (set_queue i c q) = running_count q"
  by (simp add: running_count_def set_queue_def length_filter_update_same)

lemma running_count_fields [simp]:
  "running_count (q\<lparr>tq_objs := a\<rparr>) = running_count q" "running_count (q\<lparr>tq_sends := b\<rparr>) = running_count q"
  "running_count (q\<lparr>tq_clock := c\<rparr>) = running_count q" "running_count (q\<lparr>tq_stopped := d\<rparr>) = running_count q"
  "running_count (q\<lparr>tq_panicked := d\<rparr>) = running_count q" "running_count (q\<lparr>tq_tasks := f\<rparr>) = running_count q"
  "running_count (q\<lparr>tq_chats := g\<rparr>) = running_count q" "running_count (set_task k h q) = running_count q"
  by (simp_all add: running_count_def set_task_def)

lemma is_running_simps [simp]:
  "is_running (c\<lparr>cq_last := t\<rparr>) = is_running c" "is_running (c\<lparr>cq_closed := b\<rparr>) = is_running c"
  "is_running (c\<lparr>cq_buf := u\<rparr>) = is_running c"
  "is_running (c\<lparr>cq_phase := p\<rparr>) = (case p of Running _ \<Rightarrow> True | _ \<Rightarrow> False)"
  "cq_phase c = Waiting k \<Longrightarrow> \<not> is_running c" "cq_phase c = Idle \<Longrightarrow> \<not> is_running c"
  "cq_phase c = Touching \<Longrightarrow> \<not> is_running c"
  by (simp_all add: is_running_def)

lemma running_submit: "running_count (submit agent chat msg account q) = running_count q"
proof (cases "tq_chats q chat")
  case None
  then show ?thesis by (simp add: submit_def running_count_def is_running_def Let_def)
next
  case (Some i)
  then show ?thesis by (simp add: submit_def running_count_def length_filter_update_same Let_def)
qed

lemma running_clean: "running_count (cleanup_idle_queues q) = running_count q"
proof -
  have "length (filter is_running (map (\<lambda>(i, c). if P i then c\<lparr>cq_closed := True\<rparr> else c) (enumerate n xs)))
    = length (filter is_running xs)" for P n and xs :: "chat_queue list"
    by (induction xs arbitrary: n) auto
  then show ?thesis by (simp add: cleanup_idle_queues_def running_count_def)
qed

lemma set_queue_fields [simp]:
  "tq_max (set_queue i c q) = tq_max q" "tq_max (set_task k f q) = tq_max q"
  "tq_max (submit agent chat msg account q) = tq_max q" "tq_max (cleanup_idle_queues q) = tq_max q"
  by (simp_all add: set_queue_def set_task_def submit_def cleanup_idle_queues_def Let_def split: option.split)

lemma step_running:
  assumes "tq_step e q = Some q'" and "running_count q \<le> tq_max q"
  shows "running_count q' \<le> tq_max q' \<and> tq_max q' = tq_max q"
proof (cases e)
  case (Send n)
  with assms show ?thesis
    by (auto simp: tq_step_def running_update_same case_prod_beta Let_def split: if_splits)
next
  case (Acquire i)
  from assms Acquire obtain k where k: "i < length (tq_queues q)" "running_count q < tq_max q"
    "cq_phase (tq_queues q ! i) = Waiting k"
    "q' = set_task k (\<lambda>t. t\<lparr>t_status := TaskRunning, t_started := Some (tq_clock q)\<rparr>)
       (set_queue i ((tq_queues q ! i)\<lparr>cq_phase := Running k\<rparr>) q)"
    by (auto simp: tq_step_def split: if_splits phase.splits)
  with running_update [of i q "(tq_queues q ! i)\<lparr>cq_phase := Running k\<rparr>"] show ?thesis by simp
next
  case (Finish i res)
  from assms Finish obtain k f where k: "i < length (tq_queues q)"
    "q' = set_task k f (set_queue i ((tq_queues q ! i)\<lparr>cq_phase := Touching\<rparr>) q)"
    by (auto simp: tq_step_def split: if_splits phase.splits)
  with assms(2) running_update [of i q "(tq_queues q ! i)\<lparr>cq_phase := Touching\<rparr>"] show ?thesis by simp
next
  case (Receive i)
  with assms show ?thesis
    by (auto simp: tq_step_def running_update_same Let_def split: if_splits list.splits)
next
  case (Cancel_Wait i)
  with assms show ?thesis
    by (auto simp: tq_step_def running_update_same split: if_splits phase.splits)
qed (use assms in \<open>auto simp: tq_step_def running_submit running_clean running_update_same split: if_splits\<close>)

lemma reach_running:
  "tq_reach safe (new_queue m timeout now) q \<Longrightarrow>
    running_count q \<le> tq_max q \<and> tq_max q = tq_max (new_queue m timeout now)"
proof (induction rule: tq_reach.induct)
  case start
  show ?case by (simp add: new_queue_def running_count_def)
next
  case (step q e q')
  with step_running [of e q q'] show ?case by simp
qed


lemma tq_run_reach: "tq_reach False q0 q \<Longrightarrow> tq_run es q = Some q' \<Longrightarrow> tq_reach False q0 q'"
  by (induction es arbitrary: q) (auto split: option.splits intro: tq_reach.step)


section \<open>One task of a chat at a time\<close>

definition registered :: "task_queue \<Rightarrow> nat \<Rightarrow> bool" where
  "registered q i = (tq_chats q (cq_chat (tq_queues q ! i)) = Some i)"

definition serial_ok :: "task_queue \<Rightarrow> bool" where
  "serial_ok q \<longleftrightarrow>
     (\<forall>c i. tq_chats q c = Some i \<longrightarrow>
        i < length (tq_queues q) \<and> cq_chat (tq_queues q ! i) = c \<and> \<not> cq_closed (tq_queues q ! i)) \<and>
     (\<forall>i < length (tq_queues q). \<not> registered q i \<longrightarrow>
        cq_phase (tq_queues q ! i) \<in> {Idle, Exited} \<and> cq_buf (tq_queues q ! i) = []) \<and>
     (\<forall>s \<in> set (tq_sends q). fst s < length (tq_queues q) \<and> registered q (fst s)) \<and>
     \<not> tq_panicked q"

lemma registered_open: "serial_ok q \<Longrightarrow> registered q i \<Longrightarrow> \<not> cq_closed (tq_queues q ! i)"
  unfolding serial_ok_def registered_def by blast

lemma serial_ok_set_queue:
  assumes ok: "serial_ok q" and c: "cq_chat c = cq_chat (tq_queues q ! i)"
    "cq_closed c = cq_closed (tq_queues q ! i)"
    "registered q i \<or> cq_phase c \<in> {Idle, Exited} \<and> cq_buf c = []"
  shows "serial_ok (set_queue i c q)"
proof -
  let ?Q = "(tq_queues q)[i := c]"
  have same: "cq_chat (?Q ! j) = cq_chat (tq_queues q ! j)" "cq_closed (?Q ! j) = cq_closed (tq_queues q ! j)" for j
    using c by (cases "i < length (tq_queues q)"; cases "j = i"; simp add: list_update_beyond)+
  have other: "j \<noteq> i \<Longrightarrow> ?Q ! j = tq_queues q ! j" for j by simp
  have reg: "registered (set_queue i c q) j = registered q j" for j
    using same by (simp add: registered_def set_queue_def)
  have "cq_phase (?Q ! j) \<in> {Idle, Exited} \<and> cq_buf (?Q ! j) = []"
    if "j < length (tq_queues q)" "\<not> registered q j" for j
    using ok c(3) that other [of j] by (cases "j = i") (auto simp: serial_ok_def)
  with ok show ?thesis
    unfolding serial_ok_def reg by (simp add: set_queue_def same)
qed

lemma serial_ok_fields:
  "serial_ok (set_task k f q) = serial_ok q" "serial_ok (q\<lparr>tq_clock := t\<rparr>) = serial_ok q"
  "serial_ok (q\<lparr>tq_stopped := b\<rparr>) = serial_ok q"
  by (simp_all add: serial_ok_def set_task_def registered_def)

lemma serial_ok_sends:
  "serial_ok q \<Longrightarrow> set ss \<subseteq> set (tq_sends q) \<Longrightarrow> serial_ok (q\<lparr>tq_sends := ss\<rparr>)"
  by (auto simp: serial_ok_def registered_def)

lemma serial_ok_submit:
  assumes "serial_ok q"
  shows "serial_ok (submit agent chat msg account q)"
proof (cases "tq_chats q chat")
  case None
  let ?n = "length (tq_queues q)"
  let ?c = "\<lparr>cq_chat = chat, cq_buf = [], cq_last = tq_clock q, cq_closed = False, cq_phase = Idle\<rparr>"
  let ?q = "submit agent chat msg account q"
  have f: "tq_queues ?q = tq_queues q @ [?c]" "tq_chats ?q = (tq_chats q)(chat \<mapsto> ?n)"
    "tq_sends ?q = tq_sends q @ [(?n, length (tq_objs q))]" "tq_panicked ?q = tq_panicked q"
    using None by (simp_all add: submit_def Let_def)
  have ne: "cq_chat (tq_queues q ! i) = chat \<Longrightarrow> \<not> registered q i" for i
    using None by (auto simp: registered_def)
  have old: "i < ?n \<Longrightarrow> registered ?q i = registered q i" for i
    using ne [of i] by (auto simp: registered_def f nth_append)
  have new: "registered ?q ?n" by (simp add: registered_def f)
  have bound: "tq_chats q c = Some i \<Longrightarrow> i < ?n" for c i
    using assms by (auto simp: serial_ok_def)
  show ?thesis
    using assms old new unfolding serial_ok_def f
    by (auto simp: nth_append less_Suc_eq_le le_eq_less_or_eq split: if_splits dest: bound)
next
  case (Some i)
  let ?c = "(tq_queues q ! i)\<lparr>cq_last := tq_clock q\<rparr>"
  have i: "i < length (tq_queues q)" "registered q i"
    using assms Some by (auto simp: serial_ok_def registered_def)
  have "serial_ok (set_queue i ?c q)"
    by (rule serial_ok_set_queue) (use assms i in auto)
  moreover have "registered (set_queue i ?c q) i" using i by (simp add: registered_def set_queue_def)
  moreover have "tq_queues (submit agent chat msg account q) = tq_queues (set_queue i ?c q)"
    "tq_chats (submit agent chat msg account q) = tq_chats (set_queue i ?c q)"
    "tq_sends (submit agent chat msg account q) = tq_sends (set_queue i ?c q) @ [(i, length (tq_objs q))]"
    "tq_panicked (submit agent chat msg account q) = tq_panicked (set_queue i ?c q)"
    using Some by (simp_all add: submit_def set_queue_def Let_def)
  ultimately show ?thesis
    using i by (auto simp: serial_ok_def registered_def set_queue_def)
qed

lemma serial_ok_clean:
  assumes ok: "serial_ok q" and quiet: "quiet q"
  shows "serial_ok (cleanup_idle_queues q)"
proof -
  let ?q = "cleanup_idle_queues q" and ?n = "length (tq_queues q)"
  have len: "length (tq_queues ?q) = ?n" by (simp add: cleanup_idle_queues_def)
  have nth: "i < ?n \<Longrightarrow> tq_queues ?q ! i =
      (if removed_queue q i then (tq_queues q ! i)\<lparr>cq_closed := True\<rparr> else tq_queues q ! i)" for i
    by (simp add: cleanup_idle_queues_def nth_enumerate_eq)
  have reg: "i < ?n \<Longrightarrow> registered ?q i \<longleftrightarrow> registered q i \<and> \<not> idle_queue q i" for i
    using nth [of i] by (auto simp: registered_def cleanup_idle_queues_def split: option.splits if_splits)
  have rem: "removed_queue q i \<longleftrightarrow> registered q i \<and> idle_queue q i" for i
    by (simp add: removed_queue_def registered_def)
  show ?thesis
    unfolding serial_ok_def len
  proof (intro conjI allI impI ballI)
    fix c i assume "tq_chats ?q c = Some i"
    then have c: "tq_chats q c = Some i" "\<not> idle_queue q i"
      by (auto simp: cleanup_idle_queues_def split: option.splits if_splits)
    with ok have "i < ?n" "cq_chat (tq_queues q ! i) = c" "\<not> cq_closed (tq_queues q ! i)"
      by (auto simp: serial_ok_def)
    with nth [of i] c rem show "i < ?n" "cq_chat (tq_queues ?q ! i) = c" "\<not> cq_closed (tq_queues ?q ! i)"
      by auto
  next
    fix i assume i: "i < ?n" "\<not> registered ?q i"
    then consider "\<not> registered q i" | "removed_queue q i" using reg rem by auto
    then have "cq_phase (tq_queues q ! i) \<in> {Idle, Exited} \<and> cq_buf (tq_queues q ! i) = []"
    proof cases
      case 1 with ok i show ?thesis by (auto simp: serial_ok_def)
    next
      case 2 with quiet i show ?thesis by (auto simp: quiet_def removed_queue_def idle_queue_def)
    qed
    with nth [OF i(1)] show "cq_phase (tq_queues ?q ! i) \<in> {Idle, Exited}" "cq_buf (tq_queues ?q ! i) = []"
      by auto
  next
    fix s assume "s \<in> set (tq_sends ?q)"
    then have s: "s \<in> set (tq_sends q)" by (simp add: cleanup_idle_queues_def)
    with ok have r: "fst s < ?n" "registered q (fst s)" by (auto simp: serial_ok_def)
    have "\<not> removed_queue q (fst s)" using quiet r s by (auto simp: quiet_def)
    with r reg rem show "fst s < ?n" "registered ?q (fst s)" by auto
  next
    show "\<not> tq_panicked ?q" using ok by (simp add: serial_ok_def cleanup_idle_queues_def)
  qed
qed

lemma step_serial:
  assumes "tq_step e q = Some q'" "serial_ok q" "e = Clean \<longrightarrow> quiet q"
  shows "serial_ok q'"
proof (cases e)
  case (Send n)
  obtain i k where ik: "tq_sends q ! n = (i, k)" by (cases "tq_sends q ! n")
  from assms Send have n: "n < length (tq_sends q)" by (auto simp: tq_step_def split: if_splits)
  then have "(i, k) \<in> set (tq_sends q)" using ik by (metis nth_mem)
  then have r: "registered q i" using assms(2) unfolding serial_ok_def by (metis fst_conv)
  with assms(2) have i: "registered q i" "\<not> cq_closed (tq_queues q ! i)"
    by (simp_all add: registered_open)
  let ?q1 = "q\<lparr>tq_sends := take n (tq_sends q) @ drop (Suc n) (tq_sends q)\<rparr>"
  have "serial_ok ?q1"
    by (rule serial_ok_sends [OF assms(2)]) (auto dest: in_set_takeD in_set_dropD)
  then have "serial_ok (set_queue i ((tq_queues q ! i)\<lparr>cq_buf := u\<rparr>) ?q1)" for u
    by (rule serial_ok_set_queue) (use i in \<open>auto simp: registered_def\<close>)
  with assms(1) Send n ik i show ?thesis
    by (auto simp: tq_step_def Let_def split: if_splits)
next
  case (Receive i)
  with assms have idle: "i < length (tq_queues q)" "cq_phase (tq_queues q ! i) = Idle"
    by (auto simp: tq_step_def split: if_splits)
  show ?thesis
  proof (cases "cq_buf (tq_queues q ! i)")
    case Nil
    with assms Receive idle show ?thesis
      by (auto simp: tq_step_def Let_def split: if_splits intro!: serial_ok_set_queue)
  next
    case (Cons k ks)
    with assms(2) idle have "registered q i" by (auto simp: serial_ok_def)
    with assms Receive idle Cons show ?thesis
      by (auto simp: tq_step_def Let_def intro!: serial_ok_set_queue)
  qed
next
  case (Acquire i)
  with assms obtain k where k: "i < length (tq_queues q)" "cq_phase (tq_queues q ! i) = Waiting k"
    by (auto simp: tq_step_def split: if_splits phase.splits)
  with assms(2) have "registered q i" by (auto simp: serial_ok_def)
  with assms Acquire k show ?thesis
    by (auto simp: tq_step_def serial_ok_fields split: if_splits intro!: serial_ok_set_queue)
next
  case (Cancel_Wait i)
  with assms obtain k where k: "i < length (tq_queues q)" "cq_phase (tq_queues q ! i) = Waiting k"
    by (auto simp: tq_step_def split: if_splits phase.splits)
  with assms(2) have "registered q i" by (auto simp: serial_ok_def)
  with assms Cancel_Wait k show ?thesis
    by (auto simp: tq_step_def split: if_splits intro!: serial_ok_set_queue)
next
  case (Finish i res)
  with assms obtain k where k: "i < length (tq_queues q)" "cq_phase (tq_queues q ! i) = Running k"
    by (auto simp: tq_step_def split: if_splits phase.splits)
  with assms(2) have "registered q i" by (auto simp: serial_ok_def)
  with assms Finish k show ?thesis
    by (auto simp: tq_step_def serial_ok_fields split: if_splits intro!: serial_ok_set_queue)
next
  case (Touch i)
  with assms have k: "i < length (tq_queues q)" "cq_phase (tq_queues q ! i) = Touching"
    by (auto simp: tq_step_def split: if_splits)
  with assms(2) have "registered q i" by (auto simp: serial_ok_def)
  with assms Touch k show ?thesis
    by (auto simp: tq_step_def intro!: serial_ok_set_queue)
next
  case (Quit i)
  with assms have k: "i < length (tq_queues q)" "cq_phase (tq_queues q ! i) = Idle"
    by (auto simp: tq_step_def split: if_splits)
  with assms(2) have "registered q i \<or> cq_buf (tq_queues q ! i) = []" by (auto simp: serial_ok_def)
  with assms Quit k show ?thesis
    by (auto simp: tq_step_def split: if_splits intro!: serial_ok_set_queue)
qed (use assms in \<open>auto simp: tq_step_def serial_ok_fields serial_ok_submit serial_ok_clean split: if_splits\<close>)

lemma reach_serial: "tq_reach True (new_queue m timeout now) q \<Longrightarrow> serial_ok q"
proof (induction rule: tq_reach.induct)
  case start
  show ?case by (simp add: serial_ok_def new_queue_def)
next
  case (step q e q')
  then show ?case by (intro step_serial [of e q q']) auto
qed

text \<open>C7: As long as the cleaner removes no queue in use, two workers of one chat never run a
  handler together, and no send reaches a closed channel.\<close>

theorem chat_serialized:
  assumes "tq_reach True (new_queue max_concurrent timeout now) q"
    and "i < length (tq_queues q)" "j < length (tq_queues q)"
    and "is_running (tq_queues q ! i)" "is_running (tq_queues q ! j)"
    and "cq_chat (tq_queues q ! i) = cq_chat (tq_queues q ! j)"
  shows "i = j \<and> \<not> tq_panicked q"
proof -
  have ok: "serial_ok q" using assms(1) by (rule reach_serial)
  have reg: "registered q k" if "k < length (tq_queues q)" "is_running (tq_queues q ! k)" for k
    using ok that by (auto simp: serial_ok_def is_running_def)
  have "registered q i" "registered q j" using assms reg by auto
  with assms(6) have "Some i = Some j" unfolding registered_def by metis
  with ok show ?thesis by (simp add: serial_ok_def)
qed

definition busy_run :: "tq_event list" where
  "busy_run = [Submit ''a'' ''c'' empty_message [], Send 0, Receive 0, Acquire 0]"

theorem chat_serialized_witness:
  "\<exists>q. tq_run busy_run (new_queue 2 0 0) = Some q \<and> is_running (tq_queues q ! 0) \<and> \<not> tq_panicked q"
proof -
  let ?q0 = "new_queue 2 0 0"
  let ?q1 = "submit ''a'' ''c'' empty_message [] ?q0"
  have s1: "tq_step (Submit ''a'' ''c'' empty_message []) ?q0 = Some ?q1" by (simp add: tq_step_def)
  obtain q2 where s2: "tq_step (Send 0) ?q1 = Some q2"
    by (simp add: tq_step_def submit_def new_queue_def buffer_cap_def Let_def)
  then obtain q3 where s3: "tq_step (Receive 0) q2 = Some q3"
    by (auto simp: tq_step_def submit_def new_queue_def buffer_cap_def set_queue_def Let_def)
  with s2 obtain q4 where s4: "tq_step (Acquire 0) q3 = Some q4" and r: "is_running (tq_queues q4 ! 0)"
      "0 < length (tq_queues q4)"
    by (auto simp: tq_step_def submit_def new_queue_def buffer_cap_def set_queue_def set_task_def
        running_count_def Let_def is_running_def)
  have "tq_reach True ?q0 q4"
    by (rule tq_reach.step [OF tq_reach.step [OF tq_reach.step [OF tq_reach.step [OF tq_reach.start]]]])
      (use s1 s2 s3 s4 in auto)
  from chat_serialized [OF this r(2,2,1,1)] s1 s2 s3 s4 r show ?thesis
    by (simp add: busy_run_def)
qed

text \<open>C33: Without that proviso the serialization fails: when a task runs longer than the idle
  time, the cleaner closes and forgets the queue of the running worker, the next message of the
  chat gets a second queue, and two handlers of one chat run at the same time.\<close>

definition overlap_run :: "tq_event list" where
  "overlap_run = busy_run @ [Advance (6 * minute), Clean,
     Submit ''a'' ''c'' empty_message [], Send 0, Receive 1, Acquire 1]"


section \<open>Recent and finished tasks\<close>

text \<open>The exchange sort of \<^verbatim>\<open>RecentTasks\<close> and \<^verbatim>\<open>pruneOldTasks\<close>: position
  \<open>i\<close> is compared with every later one and swapped whenever the later one comes first.\<close>

fun exchange_pass :: "('a \<Rightarrow> int) \<Rightarrow> 'a \<Rightarrow> 'a list \<Rightarrow> 'a \<times> 'a list" where
  "exchange_pass f x [] = (x, [])"
| "exchange_pass f x (y # ys) =
     (if f y < f x then (let (m, r) = exchange_pass f y ys in (m, x # r))
      else (let (m, r) = exchange_pass f x ys in (m, y # r)))"

lemma exchange_pass_props:
  "exchange_pass f x ys = (m, r) \<Longrightarrow>
    add_mset m (mset r) = add_mset x (mset ys) \<and> length r = length ys \<and> (\<forall>z \<in> set (x # ys). f m \<le> f z)"
proof (induction ys arbitrary: x m r)
  case (Cons y ys)
  show ?case
  proof (cases "f y < f x")
    case True
    obtain r' where r: "exchange_pass f y ys = (m, r')" "r = x # r'"
      using Cons.prems True by (auto split: prod.splits)
    from Cons.IH [OF r(1)] r(2) True show ?thesis
      by (auto simp: add_mset_commute)
  next
    case False
    obtain r' where r: "exchange_pass f x ys = (m, r')" "r = y # r'"
      using Cons.prems False by (auto split: prod.splits)
    from Cons.IH [OF r(1)] r(2) False show ?thesis
      by (auto simp: add_mset_commute)
  qed
qed simp

function exchange_sort :: "('a \<Rightarrow> int) \<Rightarrow> 'a list \<Rightarrow> 'a list" where
  "exchange_sort f [] = []"
| "exchange_sort f (x # xs) =
     (fst (exchange_pass f x xs)) # exchange_sort f (snd (exchange_pass f x xs))"
  by pat_completeness auto
termination
proof (relation "measure (length \<circ> snd)", goal_cases)
  case (2 f x xs)
  then show ?case using exchange_pass_props [OF prod.collapse [symmetric], of f x xs] by simp
qed simp

lemma exchange_sort_mset [simp]: "mset (exchange_sort f xs) = mset xs"
proof (induction f xs rule: exchange_sort.induct)
  case (2 f x xs)
  then show ?case using exchange_pass_props [OF prod.collapse [symmetric], of f x xs] by simp
qed simp

lemma exchange_sort_set [simp]: "set (exchange_sort f xs) = set xs"
  by (metis exchange_sort_mset set_mset_mset)

lemma exchange_sort_length [simp]: "length (exchange_sort f xs) = length xs"
  by (metis exchange_sort_mset size_mset)

lemma exchange_sort_sorted: "sorted (map f (exchange_sort f xs))"
proof (induction f xs rule: exchange_sort.induct)
  case (2 f x xs)
  let ?m = "fst (exchange_pass f x xs)" and ?r = "snd (exchange_pass f x xs)"
  have p: "add_mset ?m (mset ?r) = add_mset x (mset xs)" "\<forall>z \<in> set (x # xs). f ?m \<le> f z"
    using exchange_pass_props [OF prod.collapse [symmetric], of f x xs] by auto
  have "set ?r \<subseteq> set (x # xs)"
    using arg_cong [OF p(1), of set_mset] by auto
  with p(2) 2 show ?case by auto
qed simp

definition created_of :: "task_queue \<Rightarrow> nat \<Rightarrow> instant" where
  "created_of q k = t_created (tq_objs q ! k)"

definition finished :: "task_queue \<Rightarrow> nat \<Rightarrow> bool" where
  "finished q k = (t_status (tq_objs q ! k) \<in> {TaskDone, TaskFailed})"

text \<open>\<open>order\<close> is the order in which the map iteration yields the keys.\<close>

definition recent_tasks :: "int \<Rightarrow> nat list \<Rightarrow> task_queue \<Rightarrow> nat list" where
  "recent_tasks limit order q =
     (let all = exchange_sort (\<lambda>k. - created_of q k) order
      in if limit > 0 \<and> int (length all) > limit then take (nat limit) all else all)"

definition prune_old_tasks :: "nat list \<Rightarrow> task_queue \<Rightarrow> task_queue" where
  "prune_old_tasks order q =
     (if length (tq_tasks q) \<le> 200 then q
      else (let completed = exchange_sort (created_of q) (filter (finished q) order);
                gone = take (length (tq_tasks q) - 200) completed
            in q\<lparr>tq_tasks := filter (\<lambda>k. k \<notin> set gone) (tq_tasks q)\<rparr>))"

text \<open>Pruning keeps every unfinished task, removes only as many finished tasks as exceed the
  limit of 200, and removes the oldest ones: no removed task is younger than a finished one kept.\<close>

theorem prune_keeps:
  assumes "distinct (tq_tasks q)" and "mset order = mset (tq_tasks q)"
  shows "(\<forall>k \<in> set (tq_tasks q). \<not> finished q k \<longrightarrow> k \<in> set (tq_tasks (prune_old_tasks order q))) \<and>
    length (tq_tasks (prune_old_tasks order q)) =
      length (tq_tasks q) - min (length (tq_tasks q) - 200) (length (filter (finished q) (tq_tasks q))) \<and>
    (\<forall>k \<in> set (tq_tasks q) - set (tq_tasks (prune_old_tasks order q)).
       \<forall>j \<in> set (tq_tasks (prune_old_tasks order q)). finished q j \<longrightarrow> created_of q k \<le> created_of q j)"
proof (cases "length (tq_tasks q) \<le> 200")
  case True
  then show ?thesis by (simp add: prune_old_tasks_def)
next
  case False
  let ?n = "length (tq_tasks q) - 200"
  let ?c = "exchange_sort (created_of q) (filter (finished q) order)"
  let ?gone = "take ?n ?c"
  have set_order: "set order = set (tq_tasks q)" using assms(2) by (metis set_mset_mset)
  have dist_order: "distinct order" using assms by (metis mset_eq_imp_distinct_iff)
  have c: "set ?c = {k \<in> set (tq_tasks q). finished q k}" using set_order by auto
  have dist_c: "distinct ?c"
    using dist_order by (metis distinct_filter exchange_sort_mset mset_eq_imp_distinct_iff)
  have len_c: "length ?c = length (filter (finished q) (tq_tasks q))"
    using assms(2) by simp (metis mset_filter size_mset)
  have t: "tq_tasks (prune_old_tasks order q) = filter (\<lambda>k. k \<notin> set ?gone) (tq_tasks q)"
    using False by (simp add: prune_old_tasks_def Let_def)
  have gone_sub: "set ?gone \<subseteq> set (tq_tasks q)" using c set_take_subset [of ?n ?c] by blast
  have "length (filter (\<lambda>k. k \<notin> set ?gone) (tq_tasks q)) = card (set (tq_tasks q) - set ?gone)"
    using assms(1) by (metis (no_types) distinct_card distinct_filter set_diff_eq set_filter)
  also have "\<dots> = length (tq_tasks q) - length ?gone"
    using gone_sub assms(1) dist_c by (simp only: card_Diff_subset finite_set distinct_card distinct_take)
  finally have len: "length (tq_tasks (prune_old_tasks order q))
      = length (tq_tasks q) - min ?n (length (filter (finished q) (tq_tasks q)))"
    unfolding t using len_c by (simp add: min.commute)
  have old: "created_of q k \<le> created_of q j"
    if "k \<in> set ?gone" "j \<in> set (tq_tasks q)" "j \<notin> set ?gone" "finished q j" for k j
  proof -
    have "j \<in> set (drop ?n ?c)"
      using that c by (metis (mono_tags, lifting) Un_iff append_take_drop_id mem_Collect_eq set_append)
    moreover have "sorted (map (created_of q) (take ?n ?c @ drop ?n ?c))"
      using exchange_sort_sorted by simp
    ultimately show ?thesis using that(1) unfolding map_append sorted_append by auto
  qed
  show ?thesis
    unfolding len using c old set_take_subset [of ?n ?c] by (auto simp: t)
qed

definition full_queue :: task_queue where
  "full_queue = (new_queue 1 0 0)\<lparr>tq_tasks := [0..<201], tq_objs := replicate 201
     ((new_task (new_queue 1 0 0) [] [] empty_message [])\<lparr>t_status := TaskDone\<rparr>)\<rparr>"

theorem prune_keeps_witness: "length (tq_tasks (prune_old_tasks [0..<201] full_queue)) = 200"
proof -
  have t: "tq_tasks full_queue = [0..<201]" by (simp add: full_queue_def)
  have "filter (finished full_queue) [0..<201] = [0..<201]"
    by (rule filter_True) (auto simp: finished_def full_queue_def)
  with prune_keeps [of full_queue "[0..<201]"] show ?thesis by (simp add: t)
qed

end
