(* ===== verification/Routing.thy ===== *)
theory Routing
  imports Auth Task_Queue
begin

text \<open>
  From an inbound message to the agents it goes to, \<^verbatim>\<open>internal/gateway/routing.go\<close>: the
  owner of the receiving channel, the account of the sender, the bindings, and the delivery to one
  agent or to the members of a group. Routing answers with the list of its effects: injected context,
  messages steered into a running turn and tasks for the queue of \<open>Task_Queue\<close>. Which agents
  have a turn running, which foreign agents can be attached and the bots' user names are given by
  functions.
\<close>

definition chat_key :: "string \<Rightarrow> string \<Rightarrow> string \<Rightarrow> string" where
  "chat_key channel account chat = channel @ '':'' @ account @ '':'' @ chat"

section \<open>The owner of a channel\<close>

record channel_rec =
  ch_user :: string
  ch_agent :: string
  ch_type :: string
  ch_account :: string
  ch_shared :: bool

record route_db =
  id_tables :: id_db
  channels_t :: "channel_rec list"
  lookup_fault :: bool
  agents_fault :: bool

definition lookup_channel :: "string \<Rightarrow> string \<Rightarrow> route_db \<Rightarrow> channel_rec option" where
  "lookup_channel ty account db =
     (if lookup_fault db then None
      else tbl_first (\<lambda>c. ch_type c = ty \<and> ch_account c = account) (channels_t db))"

text \<open>The owning user and the channel's shared-identity flag. The lookup in the legacy configs table
  that follows a failed lookup always answers not found.\<close>

definition resolve_channel_owner :: "inbound_message \<Rightarrow> route_db \<Rightarrow> string \<times> bool" where
  "resolve_channel_owner m db = (case lookup_channel (m_channel m) (m_account m) db of
     None \<Rightarrow> ([], False)
   | Some c \<Rightarrow>
       if ch_user c \<noteq> [] then (ch_user c, ch_shared c)
       else if ch_agent c \<noteq> [] \<and> \<not> agents_fault db then
         (case tbl_first (\<lambda>a. ag_id a = ch_agent c) (agents_t (id_tables db)) of
            None \<Rightarrow> ([], False) | Some a \<Rightarrow> (ag_owner a, ch_shared c))
       else ([], False))"

section \<open>The sender's account\<close>

text \<open>\<open>first_found\<close> is a lookup whose hit is returned and whose failure of any kind falls
  through to the next.\<close>

definition first_found :: "'a step \<Rightarrow> ('a \<Rightarrow> 'b step) \<Rightarrow> 'b step \<Rightarrow> 'b step" where
  "first_found m hit next_try = attempt m (\<lambda>r. case r of Inr a \<Rightarrow> hit a | Inl _ \<Rightarrow> next_try)"

definition adopt :: "instant \<Rightarrow> string \<Rightarrow> user_rec \<Rightarrow> string step" where
  "adopt now owner u = attempt (update_user now (u\<lparr>u_owner := owner\<rparr>)) (\<lambda>_. ok (u_id u))"

text \<open>The owner's parent, when the owner is itself a provisioned user.\<close>

definition ancestor_lookup :: "dialect \<Rightarrow> instant \<Rightarrow> string \<Rightarrow> string \<Rightarrow> string \<Rightarrow> string \<Rightarrow> string step \<Rightarrow> string step" where
  "ancestor_lookup d now owner ext channel user next_try =
     first_found (get_user owner) (\<lambda>o_rec.
       if u_owner o_rec \<noteq> [] then
         first_found (get_user_by_external (u_owner o_rec) ext) (adopt now owner)
           (first_found (get_user_by_external_suffix d (u_owner o_rec) (channel @ '':'') ('':'' @ user)) (adopt now owner)
             next_try)
       else next_try) next_try"

definition apikey_lookup :: "dialect \<Rightarrow> string \<Rightarrow> string \<Rightarrow> string \<Rightarrow> string step \<Rightarrow> string step" where
  "apikey_lookup d owner channel user next_try =
     first_found (get_user owner) (\<lambda>o_rec.
       if u_key o_rec \<noteq> [] then
         first_found (get_user_by_external_suffix d (u_key o_rec) (channel @ '':'') ('':'' @ user)) (\<lambda>u. ok (u_id u)) next_try
       else next_try) next_try"

definition resolve_chatter :: "dialect \<Rightarrow> instant \<Rightarrow> random \<Rightarrow> string \<Rightarrow> inbound_message \<Rightarrow> string step" where
  "resolve_chatter d now rnd owner m =
     (if m_user m = [] then ok []
      else if has_prefix (m_user m) ''u_'' then ok []
      else
        (let ext = m_channel m @ '':'' @ m_user m;
             suffix = (\<lambda>ns. get_user_by_external_suffix d ns (m_channel m @ '':'') ('':'' @ m_user m))
         in first_found (get_user_by_external owner ext) (\<lambda>u. ok (u_id u))
           (first_found (suffix owner) (\<lambda>u. ok (u_id u))
           (first_found (suffix (''owner:'' @ owner)) (\<lambda>u. ok (u_id u))
           (apikey_lookup d owner (m_channel m) (m_user m)
           (ancestor_lookup d now owner ext (m_channel m) (m_user m)
           (attempt (ensure_chatter now rnd owner ext (m_sender_name m)) (\<lambda>r. case r of
              Inl _ \<Rightarrow> ok [] | Inr a \<Rightarrow> ok (ac_id a)))))))))"

section \<open>Bindings\<close>

record peer =
  p_kind :: string
  p_id :: string

record binding =
  b_agent :: string
  b_channel :: string
  b_account :: string
  b_peer :: "peer option"

record team =
  tm_agents :: "string list"
  tm_default :: string
  tm_behavior :: string

text \<open>A user's space: the agents loaded, by id, the default one, and the configuration.\<close>

record space =
  sp_agents :: "string list"
  sp_default :: "string option"
  sp_bindings :: "binding list"
  sp_teams :: "team list"

definition match_binding :: "binding \<Rightarrow> inbound_message \<Rightarrow> bool" where
  "match_binding b m =
     (if b_channel b \<noteq> [] \<and> b_channel b \<noteq> m_channel m then False
      else if b_account b \<noteq> [] \<and> b_account b \<noteq> m_account m then False
      else case b_peer b of None \<Rightarrow> True
      | Some p \<Rightarrow>
          if p_kind p \<noteq> [] \<and> p_kind p \<noteq> m_peer_kind m then False
          else if p_id p \<noteq> [] \<and> p_id p \<noteq> m_chat m then False
          else True)"

text \<open>\<open>attach\<close> says which agents of other users can be loaded into the space.\<close>

definition ensure_foreign_agent :: "(string \<Rightarrow> bool) \<Rightarrow> string \<Rightarrow> space \<Rightarrow> space" where
  "ensure_foreign_agent attach aid sp =
     (if aid = [] \<or> aid \<in> set (sp_agents sp) then sp
      else if attach aid then sp\<lparr>sp_agents := aid # sp_agents sp\<rparr> else sp)"

fun match_bindings :: "(string \<Rightarrow> bool) \<Rightarrow> binding list \<Rightarrow> inbound_message \<Rightarrow> space \<Rightarrow> string option \<times> space" where
  "match_bindings attach [] m sp = (sp_default sp, sp)"
| "match_bindings attach (b # bs) m sp =
     (if \<not> match_binding b m then match_bindings attach bs m sp
      else if b_agent b \<in> set (sp_agents sp) then (Some (b_agent b), sp)
      else (let sp' = ensure_foreign_agent attach (b_agent b) sp
            in if b_agent b \<in> set (sp_agents sp') then (Some (b_agent b), sp')
               else match_bindings attach bs m sp'))"

definition match_agent :: "(string \<Rightarrow> bool) \<Rightarrow> inbound_message \<Rightarrow> space \<Rightarrow> string option \<times> space" where
  "match_agent attach m sp =
     (if m_agent m \<noteq> [] \<and> m_agent m \<in> set (sp_agents sp) then (Some (m_agent m), sp)
      else match_bindings attach (sp_bindings sp) m sp)"

fun bound_from :: "(string \<Rightarrow> bool) \<Rightarrow> binding list \<Rightarrow> inbound_message \<Rightarrow> string list \<Rightarrow> space \<Rightarrow> string list \<times> space" where
  "bound_from attach [] m seen sp = ([], sp)"
| "bound_from attach (b # bs) m seen sp =
     (if \<not> match_binding b m \<or> b_agent b \<in> set seen then bound_from attach bs m seen sp
      else (let sp' = ensure_foreign_agent attach (b_agent b) sp
            in if b_agent b \<in> set (sp_agents sp') then
                 (case bound_from attach bs m (b_agent b # seen) sp' of (out, sp'') \<Rightarrow> (b_agent b # out, sp''))
               else bound_from attach bs m seen sp'))"

definition agents_bound_to_message :: "(string \<Rightarrow> bool) \<Rightarrow> inbound_message \<Rightarrow> space \<Rightarrow> string list \<times> space" where
  "agents_bound_to_message attach m sp =
     (if sp_bindings sp = [] then
        (case sp_default sp of None \<Rightarrow> ([], sp) | Some a \<Rightarrow> ([a], sp))
      else bound_from attach (sp_bindings sp) m [] sp)"

text \<open>The bot's user name is empty when the channel manager does not know the account.\<close>

definition agent_by_mention :: "(string \<Rightarrow> string \<Rightarrow> string) \<Rightarrow> space \<Rightarrow> inbound_message \<Rightarrow> string list \<Rightarrow> string option" where
  "agent_by_mention bot_username sp m candidates =
     (let bot = bot_username (m_channel m) (m_account m)
      in if bot = [] \<or> bot \<notin> set (m_mentions m) then None
         else map_option b_agent (find (\<lambda>b. b_channel b = m_channel m \<and> b_account b = m_account m \<and>
                b_agent b \<in> set candidates) (sp_bindings sp)))"

fun team_behavior :: "team list \<Rightarrow> string list \<Rightarrow> string \<times> string" where
  "team_behavior [] ags = (''mention-only'', [])"
| "team_behavior (t # ts) ags =
     (let matching = length (filter (\<lambda>a. a \<in> set (tm_agents t)) ags)
      in if matching = length ags \<and> 0 < matching
         then (if tm_behavior t = [] then ''mention-only'' else tm_behavior t, tm_default t)
         else team_behavior ts ags)"

definition account_id_for_agent :: "space \<Rightarrow> string \<Rightarrow> string \<Rightarrow> string" where
  "account_id_for_agent sp aid channel =
     (case find (\<lambda>b. b_agent b = aid \<and> b_channel b = channel \<and> b_account b \<noteq> []) (sp_bindings sp) of
        None \<Rightarrow> [] | Some b \<Rightarrow> b_account b)"

section \<open>Delivery\<close>

datatype action =
  Inject string inbound_message
  | Steered string inbound_message string
  | Queued string string inbound_message string

definition group_steer_text :: "inbound_message \<Rightarrow> string" where
  "group_steer_text m = (if m_sender_name m = [] then m_text m
     else CHR 0x5C # ''['' @ m_sender_name m @ [CHR 0x5C] @ '']: '' @ m_text m)"

text \<open>Steered into the turn that the agent runs for the message's session, else queued.\<close>

definition deliver :: "(string \<Rightarrow> inbound_message \<Rightarrow> string \<Rightarrow> bool) \<Rightarrow> string \<Rightarrow> inbound_message \<Rightarrow> string \<Rightarrow> string \<Rightarrow> action list" where
  "deliver steers target m body account =
     (if steers target m body then [Steered target m body]
      else [Queued target (chat_key (m_channel m) (m_account m) (m_chat m)) m account])"

record route_env =
  attach :: "string \<Rightarrow> bool"
  steers :: "string \<Rightarrow> inbound_message \<Rightarrow> string \<Rightarrow> bool"
  bot_username :: "string \<Rightarrow> string \<Rightarrow> string"

definition route_dm :: "route_env \<Rightarrow> inbound_message \<Rightarrow> space \<Rightarrow> action list \<times> space" where
  "route_dm e m sp = (case match_agent (attach e) m sp of
     (None, sp') \<Rightarrow> ([], sp')
   | (Some ag, sp') \<Rightarrow> (deliver (steers e) ag m (m_text m) (m_account m), sp'))"

definition inject_all :: "string list \<Rightarrow> inbound_message \<Rightarrow> action list" where
  "inject_all ags m = map (\<lambda>a. Inject a m) ags"

definition bot_message_actions :: "route_env \<Rightarrow> inbound_message \<Rightarrow> string list \<Rightarrow> space \<Rightarrow> action list" where
  "bot_message_actions e m bound sp = inject_all bound m @
     (if m_mentions m = [] then []
      else case agent_by_mention (bot_username e) sp m bound of None \<Rightarrow> []
      | Some target \<Rightarrow>
          (let m' = m\<lparr>m_text := CHR 0x5C # ''['' @ m_sender_name m @ [CHR 0x5C] @ '']: '' @ m_text m, m_is_bot := False\<rparr>
           in deliver (steers e) target m' (m_text m') (account_id_for_agent sp target (m_channel m'))))"

definition deliver_to_one :: "route_env \<Rightarrow> inbound_message \<Rightarrow> string list \<Rightarrow> space \<Rightarrow> string \<Rightarrow> action list" where
  "deliver_to_one e m bound sp target = inject_all (filter (\<lambda>a. a \<noteq> target) bound) m @
     deliver (steers e) target m (group_steer_text m) (account_id_for_agent sp target (m_channel m))"

definition human_message_actions :: "route_env \<Rightarrow> inbound_message \<Rightarrow> string list \<Rightarrow> space \<Rightarrow> action list" where
  "human_message_actions e m bound sp =
     (case (if m_mentions m = [] then None else agent_by_mention (bot_username e) sp m bound) of
        Some target \<Rightarrow> deliver_to_one e m bound sp target
      | None \<Rightarrow>
          (case team_behavior (sp_teams sp) bound of (behavior, default_agent) \<Rightarrow>
             if behavior = ''default-agent''
             then deliver_to_one e m bound sp (if default_agent \<in> set (sp_agents sp) then default_agent else hd bound)
             else inject_all bound m))"

definition route_group :: "route_env \<Rightarrow> inbound_message \<Rightarrow> space \<Rightarrow> action list \<times> space" where
  "route_group e m sp = (case agents_bound_to_message (attach e) m sp of (bound, sp') \<Rightarrow>
     (if bound = [] then []
      else if m_is_bot m then bot_message_actions e m bound sp'
      else human_message_actions e m bound sp', sp'))"

section \<open>One inbound message\<close>

text \<open>The gateway's state: the tables, the duplicate filter and the loaded spaces, with the function
  that loads a space that is not there yet.\<close>

record gateway =
  gw_db :: route_db
  gw_dedup :: dedup_cache
  gw_spaces :: "string \<rightharpoonup> space"

definition get_or_load :: "(string \<Rightarrow> space option) \<Rightarrow> string \<Rightarrow> gateway \<Rightarrow> space option" where
  "get_or_load load owner g = (case gw_spaces g owner of Some sp \<Rightarrow> Some sp | None \<Rightarrow> load owner)"

definition route_in_space :: "route_env \<Rightarrow> (string \<Rightarrow> space option) \<Rightarrow> inbound_message \<Rightarrow> gateway \<Rightarrow> action list \<times> gateway" where
  "route_in_space e load m g = (case get_or_load load (m_owner m) g of
     None \<Rightarrow> ([], g)
   | Some sp \<Rightarrow> (case (if m_peer_kind m \<noteq> ''group'' then route_dm e m sp else route_group e m sp) of
       (acts, sp') \<Rightarrow> (acts, g\<lparr>gw_spaces := (gw_spaces g)(m_owner m \<mapsto> sp')\<rparr>)))"

definition process_inbound :: "route_env \<Rightarrow> (string \<Rightarrow> space option) \<Rightarrow> dialect \<Rightarrow> instant \<Rightarrow> random
    \<Rightarrow> inbound_message \<Rightarrow> gateway \<Rightarrow> action list \<times> gateway" where
  "process_inbound e load d now rnd m g =
     (case (if m_owner m \<noteq> [] then (m_owner m, False) else resolve_channel_owner m (gw_db g)) of (owner, shared) \<Rightarrow>
        if owner = [] then ([], g)
        else (let m1 = m\<lparr>m_owner := owner\<rparr> in
          case is_duplicate now m1 (gw_dedup g) of (cache, dup) \<Rightarrow>
            (let g1 = g\<lparr>gw_dedup := cache\<rparr> in
             if dup then ([], g1)
             else if shared then route_in_space e load (m1\<lparr>m_user := owner, m_shared_identity := True\<rparr>) g1
             else (case resolve_chatter d now rnd owner m1 (id_tables (gw_db g1)) of (r, db') \<Rightarrow>
               (let g2 = g1\<lparr>gw_db := (gw_db g1)\<lparr>id_tables := db'\<rparr>\<rparr>;
                    uid = (case r of Inl _ \<Rightarrow> [] | Inr x \<Rightarrow> x)
                in route_in_space e load (if uid = [] then m1 else m1\<lparr>m_user := uid\<rparr>) g2)))))"

section \<open>Group messages\<close>

fun target_of :: "action \<Rightarrow> string" where
  "target_of (Inject a m) = a"
| "target_of (Steered a m t) = a"
| "target_of (Queued a k m acc) = a"

fun is_delivery :: "action \<Rightarrow> bool" where
  "is_delivery (Inject a m) = False"
| "is_delivery _ = True"

definition reached :: "string \<Rightarrow> action list \<Rightarrow> nat" where
  "reached a acts = length (filter (\<lambda>x. target_of x = a) acts)"

lemma bound_from_distinct:
  "bound_from att bs m seen sp = (out, sp') \<Longrightarrow> distinct out \<and> set out \<inter> set seen = {}"
proof (induction bs arbitrary: seen sp out)
  case (Cons b bs)
  show ?case
  proof (cases "\<not> match_binding b m \<or> b_agent b \<in> set seen")
    case False
    let ?sp = "ensure_foreign_agent att (b_agent b) sp"
    show ?thesis
    proof (cases "b_agent b \<in> set (sp_agents ?sp)")
      case True
      with False Cons.prems obtain o' where "bound_from att bs m (b_agent b # seen) ?sp = (o', sp')" "out = b_agent b # o'"
        by (auto simp: Let_def split: prod.splits)
      with Cons.IH [OF this(1)] False show ?thesis by auto
    qed (use False Cons in \<open>auto simp: Let_def\<close>)
  qed (use Cons in auto)
qed simp

lemma agents_bound_distinct: "agents_bound_to_message att m sp = (bound, sp') \<Longrightarrow> distinct bound"
  using bound_from_distinct by (fastforce simp: agents_bound_to_message_def split: if_splits option.splits)

lemma deliver_shape:
  obtains "deliver st t m body acc = [Steered t m body]"
  | "deliver st t m body acc = [Queued t (chat_key (m_channel m) (m_account m) (m_chat m)) m acc]"
  by (cases "st t m body") (auto simp: deliver_def)

lemma reached_deliver: "reached a (deliver st t m body acc) = of_bool (t = a)"
  "length (filter is_delivery (deliver st t m body acc)) = 1"
  by (auto simp: deliver_def reached_def)

lemma reached_inject: "distinct ags \<Longrightarrow> reached a (inject_all ags m) = of_bool (a \<in> set ags)"
  "filter is_delivery (inject_all ags m) = []"
  by (induction ags) (auto simp: inject_all_def reached_def)

lemma reached_append: "reached a (xs @ ys) = reached a xs + reached a ys"
  by (simp add: reached_def)

lemma deliver_to_one_once:
  assumes "distinct bound" "a \<in> set bound"
  shows "reached a (deliver_to_one e m bound sp t) = 1" "length (filter is_delivery (deliver_to_one e m bound sp t)) = 1"
  using assms by (simp_all add: deliver_to_one_def reached_append reached_deliver reached_inject)

lemma human_message_once:
  assumes "distinct bound" "a \<in> set bound"
  shows "reached a (human_message_actions e m bound sp) = 1 \<and> length (filter is_delivery (human_message_actions e m bound sp)) \<le> 1"
  using assms deliver_to_one_once [OF assms]
  by (auto simp: human_message_actions_def reached_inject split: option.splits prod.splits if_splits)

section \<open>Lookups by pattern\<close>

lemma like_skip: "like d ps cs \<Longrightarrow> like d (CHR ''%'' # ps) cs"
  by (cases cs) simp_all

lemma lower_percent:
  assumes "lower_byte c = CHR ''%''"
  shows "c = CHR ''%''"
proof (cases "in_range 65 90 (byte c)")
  case True
  then have "byte (lower_byte c) = byte c + 32" by (simp add: lower_byte_def in_range_def)
  with assms True show ?thesis by (simp add: in_range_def)
qed (use assms in \<open>simp add: lower_byte_def\<close>)

text \<open>In SQLite a literal matches every text that differs from it in case only.\<close>

definition same_fold :: "string \<Rightarrow> string \<Rightarrow> bool" where
  "same_fold s t = (map lower_byte s = map lower_byte t)"

lemma like_fold: "map lower_byte ps = map lower_byte cs \<Longrightarrow> like Sqlite qs ds \<Longrightarrow> like Sqlite (ps @ qs) (cs @ ds)"
proof (induction ps arbitrary: cs)
  case (Cons p ps)
  then obtain c cs' where c: "cs = c # cs'" "lower_byte p = lower_byte c" "map lower_byte ps = map lower_byte cs'"
    by (cases cs) auto
  have ih: "like Sqlite (ps @ qs) (cs' @ ds)" using Cons.IH [OF c(3) Cons.prems(2)] .
  show ?case
  proof (cases "p = CHR ''%''")
    case True
    then show ?thesis using ih c like_skip by simp
  qed (use ih c in \<open>simp add: like_char_def\<close>)
qed auto

lemma like_rest: "like d ''%'' cs"
  by (induction cs) simp_all

lemma like_any_prefix: "like d ps cs \<Longrightarrow> like d (CHR ''%'' # ps) (ds @ cs)"
  by (induction ds) (simp_all add: like_skip)

lemma like_pair:
  assumes "same_fold user stored"
  shows "like Sqlite ((channel @ '':'') @ ''%'') (channel @ '':'' @ stored)"
    "like Sqlite (''%'' @ '':'' @ user) (channel @ '':'' @ stored)"
proof -
  show "like Sqlite ((channel @ '':'') @ ''%'') (channel @ '':'' @ stored)"
    using like_fold [of "channel @ '':''" "channel @ '':''" "''%''" stored] like_rest by simp
  have "like Sqlite ('':'' @ user) ('':'' @ stored)"
    using like_fold [of "'':'' @ user" "'':'' @ stored" "[]" "[]"] assms by (simp add: same_fold_def)
  then show "like Sqlite (''%'' @ '':'' @ user) (channel @ '':'' @ stored)"
    using like_any_prefix [of Sqlite "'':'' @ user" "'':'' @ stored" channel] by simp
qed

text \<open>Lookups on a healthy database.\<close>

lemma external_missing:
  "plan db = [] \<Longrightarrow> \<forall>r \<in> set (users_t db). \<not> (u_owner r = ns \<and> u_external r = x) \<Longrightarrow>
    get_user_by_external ns x db = (Inl Not_Found, db)"
  using tbl_first_None [of "\<lambda>u. u_owner u = ns \<and> u_external u = x" "sort_key created_at (users_t db)"]
  by (simp add: get_user_by_external_def step_simps)

lemma suffix_missing:
  "plan db = [] \<Longrightarrow> \<forall>r \<in> set (users_t db). u_owner r \<noteq> ns \<Longrightarrow>
    get_user_by_external_suffix d ns p x db = (Inl Not_Found, db)"
  using tbl_first_None [of "\<lambda>u. u_owner u = ns \<and> like d (p @ ''%'') (u_external u) \<and> like d (''%'' @ x) (u_external u)"
      "sort_key (\<lambda>u. - created_at u) (users_t db)"]
  by (simp add: get_user_by_external_suffix_def step_simps)

lemma suffix_only:
  assumes "plan db = []" "u \<in> set (users_t db)" "\<forall>r \<in> set (users_t db). u_owner r = u_owner u \<longrightarrow> r = u"
    "u_owner u \<noteq> []" "p \<noteq> []" "x \<noteq> []" "like d (p @ ''%'') (u_external u)" "like d (''%'' @ x) (u_external u)"
  shows "get_user_by_external_suffix d (u_owner u) p x db = (Inr u, db)"
proof -
  let ?us = "sort_key (\<lambda>u. - created_at u) (users_t db)"
  let ?w = "\<lambda>r. u_owner r = u_owner u \<and> like d (p @ ''%'') (u_external r) \<and> like d (''%'' @ x) (u_external r)"
  obtain r where r: "tbl_first ?w ?us = Some r"
    using assms(2,7,8) by (cases "tbl_first ?w ?us") (auto simp: tbl_first_None)
  then have "r = u" using assms(3) by (auto dest: tbl_first_SomeD)
  with r show ?thesis using assms by (simp add: get_user_by_external_suffix_def step_simps)
qed

lemma first_found_hit: "m db = (Inr a, db') \<Longrightarrow> first_found m hit next_try db = hit a db'"
  by (simp add: first_found_def attempt_def)

lemma first_found_miss: "m db = (Inl e, db') \<Longrightarrow> first_found m hit next_try db = next_try db'"
  by (simp add: first_found_def attempt_def)

section \<open>Properties\<close>

text \<open>C35: A human's message in a group reaches every agent bound to the group exactly once, as context
  or as a turn, and at most one agent takes it as a turn.\<close>

theorem group_message_once:
  assumes "agents_bound_to_message (attach e) m sp = (bound, sp')" and "\<not> m_is_bot m" and "a \<in> set bound"
  shows "reached a (fst (route_group e m sp)) = 1 \<and> length (filter is_delivery (fst (route_group e m sp))) \<le> 1"
proof -
  have "fst (route_group e m sp) = human_message_actions e m bound sp'"
    using assms by (auto simp: route_group_def)
  then show ?thesis using human_message_once [OF agents_bound_distinct [OF assms(1)] assms(3)] by simp
qed

text \<open>C32: On SQLite, whose LIKE ignores case, a new sender whose platform id differs only in case from
  that of a known person is taken for that person: the exact lookup misses, the pattern lookup meant
  for old rows matches the other's current row, and no account is made.\<close>

theorem sender_case_conflated:
  assumes "plan db = []" and "u \<in> set (users_t db)" and "\<forall>r \<in> set (users_t db). u_owner r = owner \<longrightarrow> r = u"
    and "u_owner u = owner" and "owner \<noteq> []" and "u_external u = m_channel m @ '':'' @ known"
    and "m_user m \<noteq> known" and "same_fold (m_user m) known" and "m_user m \<noteq> []" and "\<not> has_prefix (m_user m) ''u_''"
  shows "resolve_chatter Sqlite now rnd owner m db = (Inr (u_id u), db)"
proof -
  have "get_user_by_external owner (m_channel m @ '':'' @ m_user m) db = (Inl Not_Found, db)"
    by (rule external_missing [OF assms(1)]) (use assms(3,4,6,7) in auto)
  then have miss: "first_found (get_user_by_external owner (m_channel m @ '':'' @ m_user m)) h n db = n db"
    for h and n :: "string step" by (simp add: first_found_def attempt_def)
  have only: "\<forall>r \<in> set (users_t db). u_owner r = u_owner u \<longrightarrow> r = u" "u_owner u \<noteq> []"
    using assms(3-5) by simp_all
  have "get_user_by_external_suffix Sqlite owner (m_channel m @ '':'') ('':'' @ m_user m) db = (Inr u, db)"
    using suffix_only [OF assms(1,2) only, of "m_channel m @ '':''" "'':'' @ m_user m" Sqlite]
      like_pair [OF assms(8), of "m_channel m"] assms(4,6) by simp
  then have hit: "first_found (get_user_by_external_suffix Sqlite owner (m_channel m @ '':'') ('':'' @ m_user m)) h n db = h u db"
    for h and n :: "string step" by (simp add: first_found_def attempt_def)
  show ?thesis
    using assms(9,10) unfolding resolve_chatter_def Let_def by (simp only: if_False miss hit step_simps)
qed

text \<open>The sender found under the owner's parent is not moved to the owner: the row is written back
  with the new owner, but the statement does not write that column, so the next lookup under the owner
  misses again.\<close>

theorem ancestor_move_lost:
  assumes "plan db = []" and "identity_ok (users_t db)"
    and o_row: "o_row \<in> set (users_t db)" "u_id o_row = owner" "u_owner o_row = parent" "parent \<noteq> []" "u_key o_row = []"
    and u: "u \<in> set (users_t db)" "u_owner u = parent" "u_external u = m_channel m @ '':'' @ m_user m"
    and none: "owner \<noteq> []" "\<forall>r \<in> set (users_t db). u_owner r \<noteq> owner \<and> u_owner r \<noteq> ''owner:'' @ owner"
    and m: "m_user m \<noteq> []" "\<not> has_prefix (m_user m) ''u_''"
  shows "\<exists>db'. resolve_chatter d now rnd owner m db = (Inr (u_id u), db') \<and>
    get_user_by_external owner (m_channel m @ '':'' @ m_user m) db' = (Inl Not_Found, db')"
proof -
  let ?ext = "m_channel m @ '':'' @ m_user m"
  let ?db' = "db\<lparr>users_t := tbl_update (\<lambda>r. u_id r = u_id u)
      (\<lambda>r. r\<lparr>u_name := u_name u, u_email := u_email u, u_hash := u_hash u, u_display := u_display u,
           u_role := u_role u, u_status := u_status u, u_avatar := u_avatar u, u_quota := u_quota u,
           u_updated := now\<rparr>) (users_t db)\<rparr>"
  have distinct: "distinct (map u_id (users_t db))" "distinct (end_users (users_t db))"
    using assms(2) by (simp_all add: identity_ok_def)
  have "get_user owner db = (Inr o_row, db)"
    using tbl_first_unique [OF distinct(1) o_row(1)] assms(1) o_row(2) by (simp add: get_user_def step_simps)
  then have owner_row: "first_found (get_user owner) h n db = h o_row db" for h and n :: "string step"
    by (rule first_found_hit)
  have miss: "get_user_by_external owner ?ext db = (Inl Not_Found, db)"
    by (rule external_missing) (use assms(1) none in auto)
  have parent: "get_user_by_external parent ?ext db = (Inr u, db)"
    using external_first [OF assms(1) distinct(2) u(1)] u o_row(4) by simp
  have hit: "first_found (get_user_by_external parent ?ext) h n db = h u db" for h and n :: "string step"
    using parent by (rule first_found_hit)
  have skip: "first_found (get_user_by_external owner ?ext) h n db = n db" for h and n :: "string step"
    using miss by (rule first_found_miss)
  have skips: "first_found (get_user_by_external_suffix d ns p x) h n db = n db"
    if "ns \<in> {owner, ''owner:'' @ owner}" for ns p x h and n :: "string step"
  proof -
    have "\<forall>r \<in> set (users_t db). u_owner r \<noteq> ns" using that none(2) by auto
    then have "get_user_by_external_suffix d ns p x db = (Inl Not_Found, db)" by (rule suffix_missing [OF assms(1)])
    then show ?thesis by (rule first_found_miss)
  qed
  have "update_user now (u\<lparr>u_owner := owner\<rparr>) db = (Inr (), ?db')"
    using update_user_own [OF assms(1,2) u(1), of "u\<lparr>u_owner := owner\<rparr>" now] by simp
  then have adopt: "adopt now owner u db = (Inr (u_id u), ?db')" by (simp add: adopt_def attempt_def step_simps)
  have "resolve_chatter d now rnd owner m db = (Inr (u_id u), ?db')"
    using m o_row(3-5) adopt skips [of owner] skips [of "''owner:'' @ owner"]
    unfolding resolve_chatter_def Let_def apikey_lookup_def ancestor_lookup_def
    by (simp only: if_False if_True skip owner_row hit simp_thms insert_iff refl)
  moreover have "get_user_by_external owner ?ext ?db' = (Inl Not_Found, ?db')"
    by (rule external_missing) (use assms(1) none in \<open>auto simp: tbl_update_def\<close>)
  ultimately show ?thesis by blast
qed

text \<open>Sharing one identity across channels breaks the order of a conversation: two direct messages of
  the owner that arrive on two channels before the first turn has begun get the same session but
  different chat keys, so the queue gives each its own worker and both handlers run together in the one
  session.\<close>

lemma two_chats_run:
  assumes "k1 \<noteq> k2"
  shows "\<exists>q. tq_run [Submit ag k1 m1 a1, Send 0, Receive 0, Acquire 0, Submit ag k2 m2 a2, Send 0, Receive 1, Acquire 1]
      (new_queue 2 timeout now) = Some q \<and> cq_phase (tq_queues q ! 0) = Running 0 \<and> cq_phase (tq_queues q ! 1) = Running 1 \<and>
      t_msg (tq_objs q ! 0) = m1 \<and> t_msg (tq_objs q ! 1) = m2"
  using assms
  by (simp add: tq_step_def submit_def new_queue_def new_task_def buffer_cap_def set_queue_def set_task_def
      running_count_def is_running_def Let_def)

lemma shared_dm:
  assumes "m_owner m = []" "resolve_channel_owner m (gw_db g) = (own, True)" "own \<noteq> []"
    "is_duplicate now (m\<lparr>m_owner := own\<rparr>) (gw_dedup g) = (cache, False)"
    "gw_spaces g own = Some sp" "m_agent m = []" "sp_bindings sp = []" "sp_default sp = Some ag"
    "m_peer_kind m \<noteq> ''group''" "\<forall>x body. \<not> steers e ag x body"
  shows "process_inbound e load d now rnd m g =
    ([Queued ag (chat_key (m_channel m) (m_account m) (m_chat m)) (m\<lparr>m_owner := own, m_user := own, m_shared_identity := True\<rparr>)
        (m_account m)], g\<lparr>gw_dedup := cache, gw_spaces := (gw_spaces g)(own \<mapsto> sp)\<rparr>)"
  using assms
  by (simp add: process_inbound_def Let_def route_in_space_def get_or_load_def route_dm_def match_agent_def deliver_def)

theorem shared_session_overlap:
  assumes own: "m_owner m1 = []" "m_owner m2 = []" "own \<noteq> []"
      "resolve_channel_owner m1 (gw_db g) = (own, True)" "resolve_channel_owner m2 (gw_db g) = (own, True)"
    and fresh: "is_duplicate t1 (m1\<lparr>m_owner := own\<rparr>) (gw_dedup g) = (cache1, False)"
      "is_duplicate t2 (m2\<lparr>m_owner := own\<rparr>) cache1 = (cache2, False)"
    and sp: "gw_spaces g own = Some sp" "sp_bindings sp = []" "sp_default sp = Some ag"
    and dm: "m_agent m1 = []" "m_agent m2 = []" "m_peer_kind m1 \<noteq> ''group''" "m_peer_kind m2 \<noteq> ''group''"
    and idle: "\<forall>x body. \<not> steers e ag x body"
    and chats: "chat_key (m_channel m1) (m_account m1) (m_chat m1) \<noteq> chat_key (m_channel m2) (m_account m2) (m_chat m2)"
  shows "\<exists>k1 k2 n1 n2 g1 g2 q.
    process_inbound e load d t1 rnd m1 g = ([Queued ag k1 n1 (m_account m1)], g1) \<and>
    process_inbound e load d t2 rnd m2 g1 = ([Queued ag k2 n2 (m_account m2)], g2) \<and>
    session_triple n1 = session_triple n2 \<and>
    tq_run [Submit ag k1 n1 (m_account m1), Send 0, Receive 0, Acquire 0, Submit ag k2 n2 (m_account m2), Send 0, Receive 1, Acquire 1]
      (new_queue 2 timeout t2) = Some q \<and>
    cq_phase (tq_queues q ! 0) = Running 0 \<and> cq_phase (tq_queues q ! 1) = Running 1 \<and>
    t_msg (tq_objs q ! 0) = n1 \<and> t_msg (tq_objs q ! 1) = n2"
proof -
  let ?n1 = "m1\<lparr>m_owner := own, m_user := own, m_shared_identity := True\<rparr>"
  let ?n2 = "m2\<lparr>m_owner := own, m_user := own, m_shared_identity := True\<rparr>"
  let ?k1 = "chat_key (m_channel m1) (m_account m1) (m_chat m1)" and ?k2 = "chat_key (m_channel m2) (m_account m2) (m_chat m2)"
  let ?g1 = "g\<lparr>gw_dedup := cache1, gw_spaces := (gw_spaces g)(own \<mapsto> sp)\<rparr>"
  have "process_inbound e load d t1 rnd m1 g = ([Queued ag ?k1 ?n1 (m_account m1)], ?g1)"
    by (rule shared_dm) (use assms in simp_all)
  moreover have "process_inbound e load d t2 rnd m2 ?g1 = ([Queued ag ?k2 ?n2 (m_account m2)],
      ?g1\<lparr>gw_dedup := cache2, gw_spaces := (gw_spaces ?g1)(own \<mapsto> sp)\<rparr>)"
    by (rule shared_dm) (use assms in simp_all)
  moreover have "session_triple ?n1 = session_triple ?n2" by (simp add: session_triple_def)
  ultimately show ?thesis using two_chats_run [OF chats, of ag ?n1 "m_account m1" ?n2 "m_account m2" timeout t2] by blast
qed

section \<open>Concrete runs\<close>

definition two_bots :: space where
  "two_bots = \<lparr>sp_agents = [''a'', ''b''], sp_default = None,
     sp_bindings = [\<lparr>b_agent = ''a'', b_channel = ''tg'', b_account = [], b_peer = None\<rparr>,
                    \<lparr>b_agent = ''b'', b_channel = ''tg'', b_account = [], b_peer = None\<rparr>], sp_teams = []\<rparr>"

definition quiet :: route_env where
  "quiet = \<lparr>attach = (\<lambda>_. False), steers = (\<lambda>_ _ _. False), bot_username = (\<lambda>_ _. [])\<rparr>"

theorem group_message_once_witness:
  "reached ''b'' (fst (route_group quiet (empty_message\<lparr>m_channel := ''tg'', m_peer_kind := ''group''\<rparr>) two_bots)) = 1 \<and>
   length (filter is_delivery (fst (route_group quiet (empty_message\<lparr>m_channel := ''tg'', m_peer_kind := ''group''\<rparr>) two_bots))) \<le> 1"
  by (rule group_message_once [where bound = "[''a'', ''b'']" and sp' = two_bots])
    (simp_all add: agents_bound_to_message_def two_bots_def match_binding_def empty_message_def ensure_foreign_agent_def Let_def)

definition known_sender :: user_rec where
  "known_sender = (demo_user ''u_2'' role_channel_user user_active)\<lparr>u_owner := ''u_1'', u_external := ''wechat:oAbc''\<rparr>"

theorem sender_case_conflated_witness:
  "resolve_chatter Sqlite 9 (Inr ''3'') ''u_1'' (empty_message\<lparr>m_channel := ''wechat'', m_user := ''oaBC''\<rparr>)
     (no_users\<lparr>users_t := [known_sender]\<rparr>) = (Inr (u_id known_sender), no_users\<lparr>users_t := [known_sender]\<rparr>)"
  by (rule sender_case_conflated [where known = "''oAbc''"])
    (simp_all add: known_sender_def demo_defs empty_message_def same_fold_def lower_byte_def in_range_def char_of_def bit_0)

theorem ancestor_move_lost_witness:
  "\<exists>db'. resolve_chatter Sqlite 9 (Inr ''3'') ''u_3'' (empty_message\<lparr>m_channel := ''wechat'', m_user := ''oAbc''\<rparr>)
      (no_users\<lparr>users_t := [(demo_user ''u_3'' role_app_user user_active)\<lparr>u_owner := ''u_1'', u_external := ''x''\<rparr>, known_sender]\<rparr>)
      = (Inr (u_id known_sender), db') \<and>
    get_user_by_external ''u_3'' (m_channel (empty_message\<lparr>m_channel := ''wechat'', m_user := ''oAbc''\<rparr>) @ '':'' @
      m_user (empty_message\<lparr>m_channel := ''wechat'', m_user := ''oAbc''\<rparr>)) db' = (Inl Not_Found, db')"
  by (rule ancestor_move_lost [where o_row = "(demo_user ''u_3'' role_app_user user_active)\<lparr>u_owner := ''u_1'', u_external := ''x''\<rparr>"
        and parent = "''u_1''"])
    (simp_all add: known_sender_def demo_defs empty_message_def identity_ok_def keyed_pairs_def end_users_def user_typed_def user_consts)

definition one_agent :: space where
  "one_agent = \<lparr>sp_agents = [''a''], sp_default = Some ''a'', sp_bindings = [], sp_teams = []\<rparr>"

definition shared_gateway :: gateway where
  "shared_gateway = \<lparr>gw_db = \<lparr>id_tables = no_users,
       channels_t = [\<lparr>ch_user = ''u_1'', ch_agent = [], ch_type = ''tg'', ch_account = [], ch_shared = True\<rparr>,
                     \<lparr>ch_user = ''u_1'', ch_agent = [], ch_type = ''wx'', ch_account = [], ch_shared = True\<rparr>],
       lookup_fault = False, agents_fault = False\<rparr>,
     gw_dedup = Map.empty, gw_spaces = [''u_1'' \<mapsto> one_agent]\<rparr>"

theorem shared_session_overlap_witness:
  "\<exists>k1 k2 n1 n2 g1 g2 q.
    process_inbound quiet (\<lambda>_. None) Sqlite 1 (Inr []) (empty_message\<lparr>m_channel := ''tg''\<rparr>) shared_gateway = ([Queued ''a'' k1 n1 []], g1) \<and>
    process_inbound quiet (\<lambda>_. None) Sqlite 2 (Inr []) (empty_message\<lparr>m_channel := ''wx''\<rparr>) g1 = ([Queued ''a'' k2 n2 []], g2) \<and>
    session_triple n1 = session_triple n2 \<and>
    tq_run [Submit ''a'' k1 n1 [], Send 0, Receive 0, Acquire 0, Submit ''a'' k2 n2 [], Send 0, Receive 1, Acquire 1]
      (new_queue 2 0 2) = Some q \<and>
    cq_phase (tq_queues q ! 0) = Running 0 \<and> cq_phase (tq_queues q ! 1) = Running 1 \<and>
    t_msg (tq_objs q ! 0) = n1 \<and> t_msg (tq_objs q ! 1) = n2"
  using shared_session_overlap [where ?m1.0 = "empty_message\<lparr>m_channel := ''tg''\<rparr>" and ?m2.0 = "empty_message\<lparr>m_channel := ''wx''\<rparr>"
      and own = "''u_1''" and g = shared_gateway and ?t1.0 = 1 and ?t2.0 = 2 and ?cache1.0 = Map.empty and ?cache2.0 = Map.empty
      and sp = one_agent and ag = "''a''" and e = quiet and load = "\<lambda>_. None" and d = Sqlite and rnd = "Inr []" and timeout = 0]
  by (simp add: empty_message_def shared_gateway_def resolve_channel_owner_def lookup_channel_def tbl_first_Cons
      is_duplicate_def dedup_key_def one_agent_def quiet_def chat_key_def)

end
