(* ===== verification/Chat.thy ===== *)
theory Chat
  imports Bus
begin

text \<open>
  The chat messages a session holds (\<^verbatim>\<open>internal/provider/provider.go\<close>) and what the code
  does to a history of them: the wire forms for the two provider families
  (\<^verbatim>\<open>provider/openai.go\<close>, \<^verbatim>\<open>provider/anthropic.go\<close>), compaction
  (\<^verbatim>\<open>agent/compaction.go\<close>), the padding of unanswered tool calls
  (\<^verbatim>\<open>agent/loop.go\<close>) and the cuts of \<^verbatim>\<open>/retry\<close> and \<^verbatim>\<open>/undo\<close>
  (\<^verbatim>\<open>agent/slash.go\<close>). Stored raw JSON is kept decoded. What both providers demand
  of a history is stated on its shape, a list of calls and answers.
\<close>

section \<open>Messages\<close>

record tool_call =
  tc_id :: string
  tc_type :: string
  tc_name :: string
  tc_args :: string

record content_part =
  cp_type :: string
  cp_text :: string
  cp_image :: "(string \<times> string) option"

record chat_message =
  cm_role :: string
  cm_content :: string
  cm_parts :: "content_part list"
  cm_calls :: "tool_call list"
  cm_call_id :: string
  cm_name :: string
  cm_thinking :: string
  cm_time :: int
  cm_meta :: "(string \<times> param) list"
  cm_raw :: "param option"
  cm_origin :: string
  cm_provider :: string
  cm_model :: string

definition blank_message :: chat_message where
  "blank_message = \<lparr>cm_role = [], cm_content = [], cm_parts = [], cm_calls = [], cm_call_id = [],
     cm_name = [], cm_thinking = [], cm_time = 0, cm_meta = [], cm_raw = None, cm_origin = [],
     cm_provider = [], cm_model = []\<rparr>"

definition simple_message :: "string \<Rightarrow> string \<Rightarrow> chat_message" where
  "simple_message role content = blank_message\<lparr>cm_role := role, cm_content := content\<rparr>"

definition origin_user :: string where "origin_user = []"
definition origin_goal_context :: string where "origin_goal_context = ''goal_context''"

abbreviation is_tool :: "chat_message \<Rightarrow> bool" where "is_tool m \<equiv> cm_role m = ''tool''"
abbreviation is_assistant :: "chat_message \<Rightarrow> bool" where "is_assistant m \<equiv> cm_role m = ''assistant''"

definition sender_metadata :: "inbound_message \<Rightarrow> (string \<times> param) list" where
  "sender_metadata m =
     (if m_sender_name m = [] then []
      else [(''senderName'', Param_Text (m_sender_name m)), (''senderChannel'', Param_Text (m_channel m))]
        @ (if m_user m \<noteq> [] then [(''senderId'', Param_Text (m_user m))] else [])
        @ (if m_avatar_url m \<noteq> [] then [(''senderAvatarUrl'', Param_Text (m_avatar_url m))] else []))"

definition build_user_message :: "inbound_message \<Rightarrow> chat_message" where
  "build_user_message m =
     (let urls = (if m_photo_url m \<noteq> [] then [m_photo_url m] else []) @ m_photo_urls m;
          user = (simple_message ''user'' (m_text m))
            \<lparr>cm_origin := (if m_source m = origin_goal_context then origin_goal_context else origin_user),
             cm_meta := sender_metadata m\<rparr>
      in if urls = [] then user
         else user\<lparr>cm_content := [],
           cm_parts := (if m_text m \<noteq> [] then [\<lparr>cp_type = ''text'', cp_text = m_text m, cp_image = None\<rparr>] else [])
             @ map (\<lambda>u. \<lparr>cp_type = ''image_url'', cp_text = [], cp_image = Some (u, ''auto'')\<rparr>) urls\<rparr>)"

section \<open>Tool calls and their answers\<close>

text \<open>The field of a decoded JSON object that a Go struct field of the name receives: the last whose
  key agrees up to case.\<close>

definition json_field :: "string \<Rightarrow> (string \<times> param) list \<Rightarrow> param" where
  "json_field name kvs = (case find (\<lambda>(k, v). equal_fold k name) (rev kvs) of
     None \<Rightarrow> Param_Null | Some (k, v) \<Rightarrow> v)"

fun raw_call_id :: "param \<Rightarrow> string option" where
  "raw_call_id (Param_Object kvs) = (case json_field ''id'' kvs of
     Param_Text s \<Rightarrow> Some s | Param_Null \<Rightarrow> Some [] | _ \<Rightarrow> None)"
| "raw_call_id Param_Null = Some []"
| "raw_call_id _ = None"

definition raw_call_ids :: "param \<Rightarrow> string list" where
  "raw_call_ids v = (case v of
     Param_Object kvs \<Rightarrow> (case json_field ''tool_calls'' kvs of
         Param_List cs \<Rightarrow> (if list_all (\<lambda>c. raw_call_id c \<noteq> None) cs then map (the \<circ> raw_call_id) cs else [])
       | _ \<Rightarrow> [])
   | _ \<Rightarrow> [])"

definition assistant_call_ids :: "chat_message \<Rightarrow> string list" where
  "assistant_call_ids m =
     (if cm_calls m \<noteq> [] then map tc_id (cm_calls m)
      else case cm_raw m of None \<Rightarrow> [] | Some v \<Rightarrow> raw_call_ids v)"

definition tool_run :: "chat_message list \<Rightarrow> chat_message list" where
  "tool_run ms = takeWhile is_tool ms"

text \<open>The calls of a message that the tool messages right after it do not all answer.\<close>

definition unanswered :: "chat_message \<Rightarrow> chat_message list \<Rightarrow> bool" where
  "unanswered m rest =
     (is_assistant m \<and> list_ex (\<lambda>i. i = [] \<or> i \<notin> set (map cm_call_id (tool_run rest))) (assistant_call_ids m))"

definition orphan_assistant :: "chat_message list \<Rightarrow> nat \<Rightarrow> bool" where
  "orphan_assistant ms i = (i < length ms \<and> unanswered (ms ! i) (drop (Suc i) ms))"

definition orphan_tool :: "chat_message list \<Rightarrow> nat \<Rightarrow> bool" where
  "orphan_tool ms k = list_ex (\<lambda>i. orphan_assistant ms i
     \<and> k < Suc i + length (tool_run (drop (Suc i) ms))
     \<and> cm_call_id (ms ! k) \<in> set (assistant_call_ids (ms ! i))) [0..<k]"

section \<open>The OpenAI wire form\<close>

datatype api_content = Api_Text string | Api_Parts "content_part list"

datatype api_message =
  Api_Raw param
  | Api_Message (api_role: string) (api_content: api_content) (api_calls: "tool_call list")
      (api_call_id: string) (api_name: string)

definition to_api_message :: "bool \<Rightarrow> chat_message \<Rightarrow> api_message" where
  "to_api_message orphan m =
     (case cm_raw m of
        Some v \<Rightarrow> if is_assistant m \<and> \<not> orphan then Api_Raw v else
          Api_Message (cm_role m) (if cm_parts m \<noteq> [] then Api_Parts (cm_parts m) else Api_Text (cm_content m))
            (if orphan then [] else cm_calls m) (cm_call_id m) (cm_name m)
      | None \<Rightarrow>
          Api_Message (cm_role m) (if cm_parts m \<noteq> [] then Api_Parts (cm_parts m) else Api_Text (cm_content m))
            (if orphan then [] else cm_calls m) (cm_call_id m) (cm_name m))"

definition to_api_messages :: "chat_message list \<Rightarrow> api_message list" where
  "to_api_messages ms = concat (map (\<lambda>i. if orphan_tool ms i then [] else [to_api_message (orphan_assistant ms i) (ms ! i)])
     [0..<length ms])"

section \<open>The Anthropic wire form\<close>

datatype anthropic_block =
  Block_Text string | Block_Image string | Block_Thinking param
  | Block_Use (use_id: string) string param
  | Block_Result (result_id: string) string

datatype anthropic_content = Content_Text string | Content_Blocks "anthropic_block list"

type_synonym anthropic_message = "string \<times> anthropic_content"

fun is_result :: "anthropic_block \<Rightarrow> bool" where
  "is_result (Block_Result i c) = True"
| "is_result _ = False"

text \<open>\<open>decode\<close> is \<^verbatim>\<open>json.Unmarshal\<close> into an empty interface.\<close>

definition parse_tool_input :: "(string \<Rightarrow> param option) \<Rightarrow> string \<Rightarrow> param" where
  "parse_tool_input decode raw =
     (if raw = [] then Param_Object []
      else case decode raw of Some (Param_Object kvs) \<Rightarrow> Param_Object kvs | _ \<Rightarrow> Param_Object [])"

definition thinking_block_for :: "chat_message \<Rightarrow> param option" where
  "thinking_block_for m =
     (if \<not> is_assistant m then None
      else case cm_raw m of
        Some (Param_Object kvs) \<Rightarrow>
          if map_of (rev kvs) ''type'' = Some (Param_Text ''thinking'') then Some (Param_Object kvs)
          else if cm_thinking m \<noteq> [] then Some (Param_Object [(''type'', Param_Text ''thinking''), (''thinking'', Param_Text (cm_thinking m))])
          else None
      | _ \<Rightarrow>
          if cm_thinking m \<noteq> [] then Some (Param_Object [(''type'', Param_Text ''thinking''), (''thinking'', Param_Text (cm_thinking m))])
          else None)"

definition thinking_blocks :: "chat_message \<Rightarrow> anthropic_block list" where
  "thinking_blocks m = (case thinking_block_for m of None \<Rightarrow> [] | Some v \<Rightarrow> [Block_Thinking v])"

definition text_blocks :: "chat_message \<Rightarrow> anthropic_block list" where
  "text_blocks m = (if cm_content m \<noteq> [] then [Block_Text (cm_content m)] else [])"

definition image_block :: "(string \<times> string) option \<Rightarrow> anthropic_block list" where
  "image_block img = (case img of None \<Rightarrow> [] | Some i \<Rightarrow> [Block_Image (fst i)])"

definition part_block :: "content_part \<Rightarrow> anthropic_block list" where
  "part_block p =
     (if cp_type p = ''text'' then [Block_Text (cp_text p)]
      else if cp_type p = ''image_url'' then image_block (cp_image p)
      else [])"

definition call_blocks :: "(string \<Rightarrow> param option) \<Rightarrow> chat_message \<Rightarrow> anthropic_block list" where
  "call_blocks decode m = thinking_blocks m @ text_blocks m
     @ map (\<lambda>c. Block_Use (tc_id c) (tc_name c) (parse_tool_input decode (tc_args c))) (cm_calls m)"

text \<open>A message without calls to send.\<close>

definition plain_content :: "chat_message \<Rightarrow> anthropic_content" where
  "plain_content m =
     (if cm_parts m \<noteq> [] then Content_Blocks (thinking_blocks m @ concat (map part_block (cm_parts m)))
      else if is_assistant m then
        (if thinking_blocks m @ text_blocks m \<noteq> [] then Content_Blocks (thinking_blocks m @ text_blocks m)
         else Content_Text [])
      else Content_Text (cm_content m))"

definition append_result :: "string \<Rightarrow> string \<Rightarrow> anthropic_message list \<Rightarrow> anthropic_message list" where
  "append_result i c out =
     (let fresh = out @ [(''user'', Content_Blocks [Block_Result i c])]
      in if out = [] then fresh
         else case last out of
           (role, Content_Blocks bs) \<Rightarrow>
             if role = ''user'' \<and> bs \<noteq> [] \<and> list_all is_result bs
             then butlast out @ [(role, Content_Blocks (bs @ [Block_Result i c]))] else fresh
         | _ \<Rightarrow> fresh)"

definition orphan_ids :: "chat_message list \<Rightarrow> string list" where
  "orphan_ids ms = concat (map (\<lambda>i. if orphan_assistant ms i then assistant_call_ids (ms ! i) else []) [0..<length ms])"

definition anthropic_step :: "(string \<Rightarrow> param option) \<Rightarrow> chat_message list \<Rightarrow> nat
    \<Rightarrow> string \<times> anthropic_message list \<Rightarrow> string \<times> anthropic_message list" where
  "anthropic_step decode ms i st = (case st of (system, out) \<Rightarrow> let m = ms ! i; orphan = orphan_assistant ms i in
     if cm_role m = ''system'' then (cm_content m, out)
     else if orphan_tool ms i \<or> is_tool m \<and> cm_call_id m \<in> set (orphan_ids ms) then (system, out)
     else if orphan \<and> cm_content m = [] \<and> cm_parts m = [] \<and> cm_thinking m = [] then (system, out)
     else if is_tool m then (system, append_result (cm_call_id m) (cm_content m) out)
     else if is_assistant m \<and> cm_calls m \<noteq> [] \<and> \<not> orphan
     then (system, out @ [(cm_role m, Content_Blocks (call_blocks decode m))])
     else (system, out @ [(cm_role m, plain_content m)]))"

definition to_anthropic_messages :: "(string \<Rightarrow> param option) \<Rightarrow> chat_message list
    \<Rightarrow> string \<times> anthropic_message list" where
  "to_anthropic_messages decode ms = fold (anthropic_step decode ms) [0..<length ms] ([], [])"

section \<open>Shapes\<close>

text \<open>What a provider checks of a request: the calls of every message are answered by the tool messages
  right after it, and every tool message is such an answer.\<close>

datatype item = Calls "string list" | Answer string

fun answers :: "item list \<Rightarrow> string list" where
  "answers (Answer i # xs) = i # answers xs"
| "answers _ = []"

fun calls_answered :: "item list \<Rightarrow> bool" where
  "calls_answered [] = True"
| "calls_answered (Calls ids # xs) = (set ids \<subseteq> set (answers xs) \<and> calls_answered xs)"
| "calls_answered (Answer i # xs) = calls_answered xs"

fun anchored :: "string list \<Rightarrow> item list \<Rightarrow> bool" where
  "anchored due [] = True"
| "anchored due (Calls ids # xs) = anchored ids xs"
| "anchored due (Answer i # xs) = (i \<in> set due \<and> anchored due xs)"

definition shape :: "chat_message \<Rightarrow> item" where
  "shape m = (if is_tool m then Answer (cm_call_id m)
     else if is_assistant m then Calls (assistant_call_ids m) else Calls [])"

definition paired :: "chat_message list \<Rightarrow> bool" where
  "paired ms = (calls_answered (map shape ms) \<and> anchored [] (map shape ms))"

fun api_shape :: "api_message \<Rightarrow> item" where
  "api_shape (Api_Raw v) = Calls (raw_call_ids v)"
| "api_shape (Api_Message role c calls i n) = (if role = ''tool'' then Answer i else Calls (map tc_id calls))"

text \<open>Messages as the agent makes them: calls only on assistants, with ids, and raw JSON that carries the
  same calls.\<close>

definition regular :: "chat_message \<Rightarrow> bool" where
  "regular m = ((\<not> is_assistant m \<longrightarrow> cm_calls m = []) \<and> [] \<notin> set (assistant_call_ids m) \<and>
     (case cm_raw m of None \<Rightarrow> True | Some v \<Rightarrow> raw_call_ids v = map tc_id (cm_calls m)))"

lemma regular_ids: "regular m \<Longrightarrow> assistant_call_ids m = map tc_id (cm_calls m)"
  by (auto simp: regular_def assistant_call_ids_def split: option.splits)

lemma regular_calls: "regular m \<Longrightarrow> \<not> is_assistant m \<Longrightarrow> cm_calls m = []"
  by (simp add: regular_def)

lemma shape_tool: "is_tool m \<Longrightarrow> shape m = Answer (cm_call_id m)"
  by (simp add: shape_def)

lemma answers_shape: "answers (map shape ms) = map cm_call_id (tool_run ms)"
  by (induction ms) (auto simp: shape_def tool_run_def)

lemma unanswered_iff: "regular m \<Longrightarrow>
    unanswered m rest \<longleftrightarrow> is_assistant m \<and> \<not> set (assistant_call_ids m) \<subseteq> set (answers (map shape rest))"
  by (auto simp: unanswered_def answers_shape list_ex_iff regular_def)

lemma not_unanswered_tool [simp]: "is_tool m \<Longrightarrow> \<not> unanswered m rest"
  by (simp add: unanswered_def)

text \<open>The index tests along the list: \<open>dropped\<close> holds the calls of the unanswered message whose
  tool messages are being passed.\<close>

fun keep_flags :: "string list \<Rightarrow> chat_message list \<Rightarrow> (bool \<times> bool) list" where
  "keep_flags dropped [] = []"
| "keep_flags dropped (m # ms) =
     (if is_tool m then (False, cm_call_id m \<in> set dropped) # keep_flags dropped ms
      else if unanswered m ms then (True, False) # keep_flags (assistant_call_ids m) ms
      else (False, False) # keep_flags [] ms)"

lemma length_keep_flags [simp]: "length (keep_flags D ms) = length ms"
  by (induction D ms rule: keep_flags.induct) simp_all

lemma orphan_assistant_Cons:
  "orphan_assistant (m # ms) 0 = unanswered m ms"
  "orphan_assistant (m # ms) (Suc i) = orphan_assistant ms i"
  by (simp_all add: orphan_assistant_def)

lemma orphan_tool_Cons:
  "orphan_tool (m # ms) 0 = False"
  "orphan_tool (m # ms) (Suc k) = (orphan_tool ms k \<or>
     (unanswered m ms \<and> k < length (tool_run ms) \<and> cm_call_id (ms ! k) \<in> set (assistant_call_ids m)))"
proof -
  have up: "[0..<Suc k] = 0 # map Suc [0..<k]" by (simp add: map_Suc_upt upt_conv_Cons del: upt_Suc)
  show "orphan_tool (m # ms) (Suc k) = (orphan_tool ms k \<or>
     (unanswered m ms \<and> k < length (tool_run ms) \<and> cm_call_id (ms ! k) \<in> set (assistant_call_ids m)))"
    unfolding orphan_tool_def up
    by (simp only: list_ex_iff list.set list.set_map bex_simps)
      (auto simp: orphan_assistant_Cons tool_run_def)
qed (simp add: orphan_tool_def)

lemma keep_flags_nth:
  assumes "k < length ms"
  shows "keep_flags D ms ! k = (orphan_assistant ms k,
    orphan_tool ms k \<or> (k < length (tool_run ms) \<and> cm_call_id (ms ! k) \<in> set D))"
  using assms
proof (induction ms arbitrary: k D)
  case (Cons m ms)
  then show ?case
    by (cases k) (auto simp: orphan_assistant_Cons orphan_tool_Cons tool_run_def)
qed simp

lemma keep_flags_map: "keep_flags [] ms = map (\<lambda>k. (orphan_assistant ms k, orphan_tool ms k)) [0..<length ms]"
  by (rule nth_equalityI) (simp_all add: keep_flags_nth)

section \<open>Properties of the OpenAI form\<close>

definition api_flagged :: "chat_message \<times> bool \<times> bool \<Rightarrow> api_message list" where
  "api_flagged f = (case f of (m, orphan, drop_it) \<Rightarrow> if drop_it then [] else [to_api_message orphan m])"

definition api_from :: "string list \<Rightarrow> chat_message list \<Rightarrow> api_message list" where
  "api_from D ms = concat (map api_flagged (zip ms (keep_flags D ms)))"

lemma api_from_simps:
  "api_from D [] = []"
  "api_from D (m # ms) =
     (if is_tool m then (if cm_call_id m \<in> set D then [] else [to_api_message False m]) @ api_from D ms
      else if unanswered m ms then to_api_message True m # api_from (assistant_call_ids m) ms
      else to_api_message False m # api_from [] ms)"
  by (simp_all add: api_from_def api_flagged_def)

lemma to_api_messages_from: "to_api_messages ms = api_from [] ms"
proof -
  have "map api_flagged (zip ms (keep_flags [] ms))
      = map (\<lambda>i. if orphan_tool ms i then [] else [to_api_message (orphan_assistant ms i) (ms ! i)]) [0..<length ms]"
    by (rule nth_equalityI) (simp_all add: keep_flags_map api_flagged_def)
  then show ?thesis by (simp add: to_api_messages_def api_from_def)
qed

lemma api_shape_tool: "is_tool m \<Longrightarrow> api_shape (to_api_message False m) = Answer (cm_call_id m)"
  by (simp add: to_api_message_def split: option.splits)

lemma api_shape_message:
  "regular m \<Longrightarrow> \<not> is_tool m \<Longrightarrow> api_shape (to_api_message False m) = Calls (map tc_id (cm_calls m))"
  by (auto simp: to_api_message_def regular_def split: option.splits)

lemma api_shape_orphan: "\<not> is_tool m \<Longrightarrow> api_shape (to_api_message True m) = Calls []"
  by (simp add: to_api_message_def split: option.splits)

lemmas api_shapes = api_shape_tool api_shape_message api_shape_orphan

lemma answers_api_from:
  "list_all regular ms \<Longrightarrow> answers (map api_shape (api_from [] ms)) = answers (map shape ms)"
  by (induction ms) (auto simp: api_from_simps api_shapes shape_def)


section \<open>Properties of the Anthropic form\<close>

fun message_blocks :: "anthropic_message \<Rightarrow> anthropic_block list" where
  "message_blocks (role, Content_Blocks bs) = bs"
| "message_blocks (role, Content_Text t) = []"

fun block_uses :: "anthropic_block list \<Rightarrow> string list" where
  "block_uses [] = []"
| "block_uses (Block_Use i n v # bs) = i # block_uses bs"
| "block_uses (_ # bs) = block_uses bs"

definition block_results :: "anthropic_block list \<Rightarrow> string list" where
  "block_results bs = map result_id (filter is_result bs)"

text \<open>Every message answers exactly the calls of the message before it, and the last makes none.\<close>

fun chain :: "string set \<Rightarrow> anthropic_message list \<Rightarrow> bool" where
  "chain due [] = True"
| "chain due (m # ms) = (set (block_results (message_blocks m)) = due \<and> chain (set (block_uses (message_blocks m))) ms)"

definition last_uses :: "anthropic_message list \<Rightarrow> string set" where
  "last_uses out = (if out = [] then {} else set (block_uses (message_blocks (last out))))"

definition exchange :: "anthropic_message list \<Rightarrow> bool" where
  "exchange out = (chain {} out \<and> last_uses out = {})"

lemma chain_snoc: "chain due (out @ [m]) =
    (chain due out \<and> set (block_results (message_blocks m)) = (if out = [] then due else last_uses out))"
  by (induction out arbitrary: due) (auto simp: last_uses_def)

lemma block_uses_append [simp]: "block_uses (bs @ cs) = block_uses bs @ block_uses cs"
  by (induction bs rule: block_uses.induct) simp_all

lemma block_uses_map [simp]: "block_uses (map (\<lambda>c. Block_Use (f c) (g c) (h c)) cs) = map f cs"
  by (induction cs) simp_all

lemma block_results_append [simp]: "block_results (bs @ cs) = block_results bs @ block_results cs"
  by (simp add: block_results_def)

lemma thinking_text_plain [simp]:
  "block_uses (thinking_blocks m) = []" "block_results (thinking_blocks m) = []"
  "block_uses (text_blocks m) = []" "block_results (text_blocks m) = []"
  by (simp_all add: thinking_blocks_def text_blocks_def block_results_def split: option.splits)

lemma image_plain [simp]: "block_uses (image_block i) = []" "filter is_result (image_block i) = []"
  by (simp_all add: image_block_def split: option.split)

lemma part_plain [simp]: "block_uses (part_block p) = []" "block_results (part_block p) = []"
  by (simp_all add: part_block_def block_results_def)

lemma parts_uses [simp]: "block_uses (concat (map part_block ps)) = []"
  by (induction ps) simp_all

lemma parts_results [simp]: "block_results (concat (map part_block ps)) = []"
  by (induction ps) (simp_all add: block_results_def [of "[]"])

lemma plain_content_blocks:
  "block_uses (message_blocks (r, plain_content m)) = []" "block_results (message_blocks (r, plain_content m)) = []"
  by (simp_all add: plain_content_def block_results_def [of "[]"])

lemma call_blocks_ids:
  "block_uses (call_blocks d m) = map tc_id (cm_calls m)" "block_results (call_blocks d m) = []"
proof -
  have "block_results (map (\<lambda>c. Block_Use (f c) (g c) (h c)) cs) = []" for f g h and cs :: "tool_call list"
    by (induction cs) (simp_all add: block_results_def)
  then show "block_results (call_blocks d m) = []" by (simp add: call_blocks_def)
qed (simp add: call_blocks_def)

text \<open>The loop along the list, with \<open>O\<close> the calls that are dropped.\<close>

fun anthropic_from :: "(string \<Rightarrow> param option) \<Rightarrow> string set \<Rightarrow> chat_message list
    \<Rightarrow> string \<times> anthropic_message list \<Rightarrow> string \<times> anthropic_message list" where
  "anthropic_from d dead [] st = st"
| "anthropic_from d dead (m # ms) (system, out) = anthropic_from d dead ms
     (if cm_role m = ''system'' then (cm_content m, out)
      else if is_tool m then (system, if cm_call_id m \<in> dead then out else append_result (cm_call_id m) (cm_content m) out)
      else if unanswered m ms \<and> cm_content m = [] \<and> cm_parts m = [] \<and> cm_thinking m = [] then (system, out)
      else if is_assistant m \<and> cm_calls m \<noteq> [] \<and> \<not> unanswered m ms
      then (system, out @ [(cm_role m, Content_Blocks (call_blocks d m))])
      else (system, out @ [(cm_role m, plain_content m)]))"

lemma orphan_tool_dropped:
  assumes "orphan_tool ms k" and "k < length ms"
  shows "is_tool (ms ! k)" "cm_call_id (ms ! k) \<in> set (orphan_ids ms)"
proof -
  from assms(1) obtain i where i: "i < k" "orphan_assistant ms i" "k < Suc i + length (tool_run (drop (Suc i) ms))"
    "cm_call_id (ms ! k) \<in> set (assistant_call_ids (ms ! i))" by (auto simp: orphan_tool_def list_ex_iff)
  then have "tool_run (drop (Suc i) ms) ! (k - Suc i) = ms ! k"
    using assms(2) by (simp add: tool_run_def takeWhile_nth)
  moreover have "tool_run (drop (Suc i) ms) ! (k - Suc i) \<in> set (tool_run (drop (Suc i) ms))"
    using i(1,3) by (intro nth_mem) simp
  then have "is_tool (tool_run (drop (Suc i) ms) ! (k - Suc i))"
    unfolding tool_run_def by (blast dest: set_takeWhileD)
  ultimately show "is_tool (ms ! k)" by simp
  show "cm_call_id (ms ! k) \<in> set (orphan_ids ms)"
    using i assms(2) by (auto simp: orphan_ids_def intro!: bexI [of _ i])
qed

lemma to_anthropic_from:
  "to_anthropic_messages d ms = anthropic_from d (set (orphan_ids ms)) ms ([], [])"
proof -
  have "fold (anthropic_step d (pre @ ms')) [length pre..<length (pre @ ms')] st
      = anthropic_from d (set (orphan_ids (pre @ ms'))) ms' st" for pre ms' st
  proof (induction ms' arbitrary: pre st)
    case (Cons m ms')
    have orphan: "orphan_assistant (pre @ m # ms') (length pre) = unanswered m ms'"
      by (simp add: orphan_assistant_def)
    have "orphan_tool (pre @ m # ms') (length pre) \<Longrightarrow> is_tool m \<and> cm_call_id m \<in> set (orphan_ids (pre @ m # ms'))"
      using orphan_tool_dropped [of "pre @ m # ms'" "length pre"] by simp
    then have step: "anthropic_step d (pre @ m # ms') (length pre) (system, out) =
       (if cm_role m = ''system'' then (cm_content m, out)
        else if is_tool m then (system, if cm_call_id m \<in> set (orphan_ids (pre @ m # ms')) then out
          else append_result (cm_call_id m) (cm_content m) out)
        else if unanswered m ms' \<and> cm_content m = [] \<and> cm_parts m = [] \<and> cm_thinking m = [] then (system, out)
        else if is_assistant m \<and> cm_calls m \<noteq> [] \<and> \<not> unanswered m ms'
        then (system, out @ [(cm_role m, Content_Blocks (call_blocks d m))])
        else (system, out @ [(cm_role m, plain_content m)]))" for system out
      by (auto simp: anthropic_step_def Let_def orphan)
    have "[length pre..<length (pre @ m # ms')] = length pre # [length (pre @ [m])..<length ((pre @ [m]) @ ms')]"
      by (simp add: upt_conv_Cons del: upt_Suc)
    then show ?case using Cons.IH [of "pre @ [m]"] by (cases st) (simp only: step append_assoc append_Cons append_Nil fold_simps anthropic_from.simps)
  qed simp
  from this [of "[]" ms] show ?thesis by (simp add: to_anthropic_messages_def)
qed

text \<open>The request under construction: the last calls are \<open>D\<close>, of which \<open>R\<close> are
  answered in the message being filled.\<close>

definition stage :: "string set \<Rightarrow> string set \<Rightarrow> anthropic_message list \<Rightarrow> bool" where
  "stage D R out =
     (if R = {} then chain {} out \<and> last_uses out = D \<and> (D \<noteq> {} \<longrightarrow> fst (last out) \<noteq> ''user'')
      else \<exists>before bs. out = before @ [(''user'', Content_Blocks bs)] \<and> chain {} before \<and> last_uses before = D \<and>
        bs \<noteq> [] \<and> list_all is_result bs \<and> set (block_results bs) = R \<and> R \<subseteq> D)"

lemma results_no_uses: "list_all is_result bs \<Longrightarrow> block_uses bs = []"
  by (induction bs rule: block_uses.induct) simp_all

lemma append_fresh: "out \<noteq> [] \<Longrightarrow> fst (last out) \<noteq> ''user'' \<Longrightarrow>
    append_result i c out = out @ [(''user'', Content_Blocks [Block_Result i c])]"
  by (cases "last out") (auto simp: append_result_def Let_def split: anthropic_content.split)

lemma append_more: "bs \<noteq> [] \<Longrightarrow> list_all is_result bs \<Longrightarrow>
    append_result i c (before @ [(''user'', Content_Blocks bs)]) = before @ [(''user'', Content_Blocks (bs @ [Block_Result i c]))]"
  by (simp add: append_result_def)

lemma stage_append:
  assumes "stage D R out" and "i \<in> D"
  shows "stage D (insert i R) (append_result i c out)"
proof (cases "R = {}")
  case True
  with assms have "chain {} out" "last_uses out = D" "out \<noteq> []" "fst (last out) \<noteq> ''user''"
    by (auto simp: stage_def last_uses_def)
  with True assms(2) show ?thesis
    by (auto simp: stage_def append_fresh block_results_def)
next
  case False
  with assms(1) obtain before bs where b: "out = before @ [(''user'', Content_Blocks bs)]" "chain {} before" "last_uses before = D"
    "bs \<noteq> []" "list_all is_result bs" "set (block_results bs) = R" "R \<subseteq> D" by (auto simp: stage_def)
  have "set (block_results (bs @ [Block_Result i c])) = insert i R"
    using b(6) by (simp add: block_results_def)
  with b assms(2) show ?thesis
    unfolding stage_def by (auto simp: append_more simp del: block_results_append intro!: exI [of _ before])
qed

lemma stage_close:
  assumes "stage D R out" and "D \<subseteq> R"
  shows "stage {} {} out"
proof (cases "R = {}")
  case False
  with assms obtain before bs where b: "out = before @ [(''user'', Content_Blocks bs)]" "chain {} before" "last_uses before = D"
    "bs \<noteq> []" "list_all is_result bs" "set (block_results bs) = D" by (auto simp: stage_def)
  moreover have "before \<noteq> []" using False assms b(3) by (auto simp: last_uses_def stage_def)
  ultimately show ?thesis
    by (simp add: stage_def chain_snoc results_no_uses) (simp add: last_uses_def results_no_uses)
qed (use assms in \<open>simp add: stage_def\<close>)

lemma stage_snoc:
  assumes "stage {} {} out" and "block_results (message_blocks m) = []"
    and "block_uses (message_blocks m) \<noteq> [] \<longrightarrow> fst m \<noteq> ''user''"
  shows "stage (set (block_uses (message_blocks m))) {} (out @ [m])"
  using assms by (simp add: stage_def chain_snoc) (auto simp: last_uses_def)

text \<open>What the loop relies on: a kept tool message answers the calls right before it, and calls that are
  sent are not among the dropped ones.\<close>

fun settled :: "string set \<Rightarrow> string set \<Rightarrow> chat_message list \<Rightarrow> bool" where
  "settled dead D [] = True"
| "settled dead D (m # ms) =
     (if is_tool m then (cm_call_id m \<in> dead \<or> cm_call_id m \<in> D) \<and> settled dead D ms
      else if unanswered m ms then settled dead {} ms
      else set (map tc_id (cm_calls m)) \<inter> dead = {} \<and> settled dead (set (map tc_id (cm_calls m))) ms)"

lemma anthropic_from_exchange:
  assumes "settled dead D ms" and "list_all regular ms" and "stage D R out"
    and "D \<subseteq> R \<union> set (answers (map shape ms))" and "D \<inter> dead = {}"
  shows "exchange (snd (anthropic_from d dead ms (system, out)))"
  using assms
proof (induction ms arbitrary: D R system out)
  case Nil
  then have "stage {} {} out" using stage_close by simp
  then show ?case by (simp add: exchange_def stage_def)
next
  case (Cons m ms)
  then have reg: "regular m" "list_all regular ms" by simp_all
  show ?case
  proof (cases "is_tool m")
    case True
    then have D: "D \<subseteq> insert (cm_call_id m) R \<union> set (answers (map shape ms))" and s: "settled dead D ms"
      and i: "cm_call_id m \<in> dead \<or> cm_call_id m \<in> D"
      using Cons.prems(1,4) by (auto simp: shape_tool)
    show ?thesis
    proof (cases "cm_call_id m \<in> dead")
      case drop: True
      then have "D \<subseteq> R \<union> set (answers (map shape ms))" using D Cons.prems(5) by auto
      then show ?thesis using Cons.IH [OF s reg(2) Cons.prems(3) _ Cons.prems(5)] True drop by simp
    next
      case False
      then show ?thesis
        using Cons.IH [OF s reg(2) stage_append [OF Cons.prems(3)] _ Cons.prems(5)] True i D by simp
    qed
  next
    case False
    then have "answers (map shape (m # ms)) = []" by (simp add: shape_def)
    then have c: "stage {} {} out" using stage_close [OF Cons.prems(3)] Cons.prems(4) by simp
    have plain: "exchange (snd (anthropic_from d dead ms (s', out')))"
      if "stage {} {} out'" "settled dead {} ms" for s' out'
      using Cons.IH [OF that(2) reg(2) that(1)] by simp
    have added: "stage {} {} (out @ [(cm_role m, plain_content m)])"
      using stage_snoc [OF c, of "(cm_role m, plain_content m)"] by (simp add: plain_content_blocks)
    show ?thesis
    proof (cases "unanswered m ms \<or> \<not> is_assistant m \<or> cm_calls m = []")
      case True
      then have "settled dead {} ms"
        using Cons.prems(1) False regular_calls [OF reg(1)] by (auto split: if_splits)
      then show ?thesis using True False plain [OF c] plain [OF added] by auto
    next
      case calls: False
      let ?ids = "set (map tc_id (cm_calls m))"
      have u: "?ids \<subseteq> set (answers (map shape ms))"
        using calls unanswered_iff [OF reg(1), of ms] by (simp add: regular_ids [OF reg(1)])
      have s: "settled dead ?ids ms" "?ids \<inter> dead = {}"
        using Cons.prems(1) False calls by simp_all
      have st: "stage ?ids {} (out @ [(cm_role m, Content_Blocks (call_blocks d m))])"
        using stage_snoc [OF c, of "(cm_role m, Content_Blocks (call_blocks d m))"] calls by (simp add: call_blocks_ids)
      show ?thesis
        using Cons.IH [OF s(1) reg(2) st _ s(2), of system] u calls by simp
    qed
  qed
qed

definition tool_ids :: "chat_message list \<Rightarrow> string list" where
  "tool_ids ms = map cm_call_id (filter is_tool ms)"

definition all_call_ids :: "chat_message list \<Rightarrow> string list" where
  "all_call_ids ms = concat (map assistant_call_ids ms)"

lemma answers_tool_ids: "set (answers (map shape ms)) \<subseteq> set (tool_ids ms)"
  by (induction ms) (auto simp: tool_ids_def shape_def)

lemma tool_ids_drop: "set (tool_ids (drop n ms)) \<subseteq> set (tool_ids ms)"
  using set_drop_subset [of n ms] by (auto simp: tool_ids_def)

lemma call_owner_answered:
  assumes "list_all regular ms" and "i \<in> set (all_call_ids ms)"
    and "\<forall>j < length ms. orphan_assistant ms j \<longrightarrow> set (assistant_call_ids (ms ! j)) \<subseteq> dead" and "i \<notin> dead"
  shows "i \<in> set (tool_ids ms)"
proof -
  obtain j where j: "j < length ms" "i \<in> set (assistant_call_ids (ms ! j))"
    using assms(2) by (auto simp: all_call_ids_def in_set_conv_nth) (metis nth_mem in_set_conv_nth)
  have reg: "regular (ms ! j)" using assms(1) j(1) by (simp add: list_all_length)
  have "is_assistant (ms ! j)" using j(2) regular_calls [OF reg] by (force simp: regular_ids [OF reg])
  moreover have "\<not> unanswered (ms ! j) (drop (Suc j) ms)"
    using assms(3,4) j by (auto simp: orphan_assistant_def)
  ultimately have "i \<in> set (answers (map shape (drop (Suc j) ms)))"
    using j(2) unanswered_iff [OF reg] by auto
  then show ?thesis using answers_tool_ids tool_ids_drop by blast
qed

lemma settledI:
  assumes "list_all regular ms" and "distinct (tool_ids ms)"
    and "\<forall>i \<in> set (tool_ids ms). i \<in> dead \<or> (i \<in> D \<and> i \<in> set (answers (map shape ms))) \<or> i \<in> set (all_call_ids ms)"
    and "\<forall>j < length ms. orphan_assistant ms j \<longrightarrow> set (assistant_call_ids (ms ! j)) \<subseteq> dead"
    and "\<forall>j < length ms. \<not> orphan_assistant ms j \<longrightarrow> set (assistant_call_ids (ms ! j)) \<inter> dead = {}"
  shows "settled dead D ms"
  using assms
proof (induction ms arbitrary: D)
  case (Cons m ms)
  have reg: "regular m" "list_all regular ms" using Cons.prems(1) by simp_all
  have tail: "\<forall>j < length ms. orphan_assistant ms j \<longrightarrow> set (assistant_call_ids (ms ! j)) \<subseteq> dead"
    "\<forall>j < length ms. \<not> orphan_assistant ms j \<longrightarrow> set (assistant_call_ids (ms ! j)) \<inter> dead = {}"
    using Cons.prems(4,5) orphan_assistant_Cons(2) [of m ms] by (metis Suc_less_eq length_Cons nth_Cons_Suc)+
  have head: "unanswered m ms \<longrightarrow> set (assistant_call_ids m) \<subseteq> dead"
    "\<not> unanswered m ms \<longrightarrow> set (assistant_call_ids m) \<inter> dead = {}"
    using Cons.prems(4,5) orphan_assistant_Cons(1) [of m ms] by (metis length_Cons nth_Cons_0 zero_less_Suc)+
  note answered = call_owner_answered [OF reg(2) _ tail(1)]
  show ?case
  proof (cases "is_tool m")
    case True
    then have ids: "tool_ids (m # ms) = cm_call_id m # tool_ids ms" "assistant_call_ids m = []"
      using regular_calls [OF reg(1)] by (simp_all add: tool_ids_def regular_ids [OF reg(1)])
    have "cm_call_id m \<in> dead \<or> cm_call_id m \<in> D"
      using Cons.prems(2,3) answered [of "cm_call_id m"] by (auto simp: ids all_call_ids_def)
    moreover have "settled dead D ms"
      using Cons.prems(2,3) True
      by (intro Cons.IH [OF reg(2) _ _ tail]) (auto simp: ids all_call_ids_def shape_tool)
    ultimately show ?thesis using True by simp
  next
    case False
    then have ids: "tool_ids (m # ms) = tool_ids ms" by (simp add: tool_ids_def)
    have "answers (map shape (m # ms)) = []" using False by (simp add: shape_def)
    then have own: "\<forall>i \<in> set (tool_ids ms). i \<in> dead \<or> i \<in> set (assistant_call_ids m) \<or> i \<in> set (all_call_ids ms)"
      using Cons.prems(3) by (auto simp: ids all_call_ids_def)
    have dis: "distinct (tool_ids ms)" using Cons.prems(2) by (simp add: ids)
    show ?thesis
    proof (cases "unanswered m ms")
      case True
      then have "settled dead {} ms"
        using own head(1) by (intro Cons.IH [OF reg(2) dis _ tail]) auto
      then show ?thesis using True False by simp
    next
      case ok: False
      have "set (assistant_call_ids m) \<subseteq> set (answers (map shape ms))"
        using ok regular_calls [OF reg(1)] by (auto simp: unanswered_iff [OF reg(1)] regular_ids [OF reg(1)])
      then have "settled dead (set (assistant_call_ids m)) ms"
        using own by (intro Cons.IH [OF reg(2) dis _ tail]) auto
      then show ?thesis using ok False head(2) by (simp add: regular_ids [OF reg(1)])
    qed
  qed
qed simp

lemma distinct_concat_apart:
  "distinct (concat (map f xs)) \<Longrightarrow> i < length xs \<Longrightarrow> j < length xs \<Longrightarrow> i \<noteq> j \<Longrightarrow>
    set (f (xs ! i)) \<inter> set (f (xs ! j)) = {}"
proof (induction xs arbitrary: i j)
  case (Cons x xs)
  have later: "set (f (xs ! k)) \<inter> set (f x) = {}" if "k < length xs" for k
    using Cons.prems(1) nth_mem [OF that] by auto
  show ?case
    using Cons.prems later Cons.IH by (cases i; cases j) auto
qed simp

lemma orphan_ids_split:
  assumes "distinct (all_call_ids ms)" and "j < length ms"
  shows "orphan_assistant ms j \<Longrightarrow> set (assistant_call_ids (ms ! j)) \<subseteq> set (orphan_ids ms)"
    and "\<not> orphan_assistant ms j \<Longrightarrow> set (assistant_call_ids (ms ! j)) \<inter> set (orphan_ids ms) = {}"
proof -
  show "orphan_assistant ms j \<Longrightarrow> set (assistant_call_ids (ms ! j)) \<subseteq> set (orphan_ids ms)"
    using assms(2) by (auto simp: orphan_ids_def intro!: bexI [of _ j])
  have apart: "set (assistant_call_ids (ms ! i)) \<inter> set (assistant_call_ids (ms ! j)) = {}" if "i < length ms" "i \<noteq> j" for i
    using distinct_concat_apart [OF assms(1) [unfolded all_call_ids_def] that(1) assms(2) that(2)] .
  show "\<not> orphan_assistant ms j \<Longrightarrow> set (assistant_call_ids (ms ! j)) \<inter> set (orphan_ids ms) = {}"
    using apart by (fastforce simp: orphan_ids_def)
qed


lemma anthropic_system: "fst (anthropic_from d dead ms (system, out)) =
    (let systems = filter (\<lambda>m. cm_role m = ''system'') ms
     in if systems = [] then system else cm_content (last systems))"
  by (induction ms arbitrary: system out) (auto simp: Let_def)

text \<open>Of several system messages only the last reaches the Anthropic API: the system prompt at the head
  of a request is dropped whenever a later system message (sender, channel hints, a loop warning in the
  history, the iteration-cap nudge) follows.\<close>

theorem anthropic_system_overwritten:
  assumes "cm_role note = ''system''" and "\<forall>m \<in> set rest. cm_role m \<noteq> ''system''"
  shows "fst (to_anthropic_messages d (simple_message ''system'' prompt # ms @ note # rest)) = cm_content note"
proof -
  have "filter (\<lambda>m. cm_role m = ''system'') rest = []" using assms(2) by simp
  then show ?thesis
    unfolding to_anthropic_from anthropic_system using assms(1) by (simp add: simple_message_def)
qed

section \<open>Histories that a provider rejects\<close>

definition calling :: "string \<Rightarrow> string \<Rightarrow> tool_call list \<Rightarrow> chat_message" where
  "calling content thinking calls =
     (simple_message ''assistant'' content)\<lparr>cm_thinking := thinking, cm_calls := calls\<rparr>"

definition answering :: "string \<Rightarrow> string \<Rightarrow> string \<Rightarrow> chat_message" where
  "answering i name content = (simple_message ''tool'' content)\<lparr>cm_call_id := i, cm_name := name\<rparr>"

lemmas message_defs = calling_def answering_def simple_message_def blank_message_def

text \<open>Call ids recovered from text start at 0 in every response, so they repeat. When a recovered call
  is left unanswered, the sweep for its answers removes the answer of an earlier call with the same id,
  and the Anthropic request has a call without a result.\<close>

theorem reused_id_breaks_request:
  assumes "i \<noteq> []" and "tc_id c = i" and "tc_id c' = i"
  shows "\<not> exchange (snd (to_anthropic_messages d
    [simple_message ''user'' q, calling t h [c], answering i n r, calling t' h' [c']]))"
proof -
  let ?ms = "[simple_message ''user'' q, calling t h [c], answering i n r, calling t' h' [c']]"
  have "set (orphan_ids ?ms) = {i}"
    using assms by (auto simp: orphan_ids_def upt_rec orphan_assistant_def unanswered_def assistant_call_ids_def
        tool_run_def message_defs)
  then show ?thesis
    using assms by (simp add: to_anthropic_from unanswered_def assistant_call_ids_def tool_run_def message_defs
        exchange_def last_uses_def plain_content_blocks call_blocks_ids)
qed

text \<open>C5: A thinking block stored by the Anthropic client is sent to an OpenAI-style provider in place of the
  whole assistant message: the calls it made are lost and their answers dangle.\<close>

theorem stored_thinking_detaches_answers:
  assumes "i \<noteq> []" and "tc_id c = i"
    and "cm_raw m = Some (Param_Object [(''type'', Param_Text ''thinking''), (''thinking'', Param_Text h), (''signature'', Param_Text sg)])"
    and "is_assistant m" and "cm_calls m = [c]"
  shows "\<not> anchored [] (map api_shape (to_api_messages [m, answering i n r]))"
  using assms by (simp add: to_api_messages_from api_from_simps unanswered_def assistant_call_ids_def tool_run_def
      message_defs to_api_message_def raw_call_ids_def json_field_def equal_fold_def fold_rune_def in_range_def)

section \<open>Witnesses\<close>

definition demo_call :: "string \<Rightarrow> tool_call" where
  "demo_call i = \<lparr>tc_id = i, tc_type = ''function'', tc_name = ''exec'', tc_args = ''{}''\<rparr>"



theorem anthropic_system_overwritten_witness:
  "fst (to_anthropic_messages (\<lambda>s. None) (simple_message ''system'' ''You are Kim.''
      # [simple_message ''user'' ''hi''] @ simple_message ''system'' ''Loop detected'' # [])) = ''Loop detected''"
  by (subst anthropic_system_overwritten) (simp_all add: message_defs)

theorem reused_id_breaks_request_witness:
  "\<not> exchange (snd (to_anthropic_messages (\<lambda>s. None)
    [simple_message ''user'' ''q'', calling [] [] [demo_call ''recovered_0''], answering ''recovered_0'' ''exec'' ''ok'',
     calling [] [] [demo_call ''recovered_0'']]))"
  by (rule reused_id_breaks_request) (simp_all add: demo_call_def)

theorem stored_thinking_detaches_answers_witness:
  "\<not> anchored [] (map api_shape (to_api_messages
    [(calling [] [] [demo_call ''a''])\<lparr>cm_raw := Some (Param_Object [(''type'', Param_Text ''thinking''),
        (''thinking'', Param_Text ''hm''), (''signature'', Param_Text ''s'')])\<rparr>, answering ''a'' ''exec'' ''x'']))"
  by (rule stored_thinking_detaches_answers [where c = "demo_call ''a''"]) (simp_all add: demo_call_def message_defs)

end
