(* ===== verification/History.thy ===== *)
theory History
  imports Chat
begin

text \<open>
  What the agent does to a session's history between model calls: the padding of an interrupted turn
  (\<^verbatim>\<open>padOrphanToolResults\<close> of \<^verbatim>\<open>internal/agent/loop.go\<close>), compaction
  (\<^verbatim>\<open>internal/agent/compaction.go\<close>) and the cuts of \<^verbatim>\<open>/retry\<close> and
  \<^verbatim>\<open>/undo\<close> (\<^verbatim>\<open>internal/agent/slash.go\<close>). The summarising model is a
  function of its prompt that may fail. The history log file is left out.
\<close>

section \<open>Padding\<close>

definition last_calling :: "chat_message list \<Rightarrow> nat option" where
  "last_calling ms = find (\<lambda>i. is_assistant (ms ! i) \<and> cm_calls (ms ! i) \<noteq> []) (rev [0..<length ms])"

definition stopped_text :: string where
  "stopped_text = ''(stopped '' @ map char_of [226 :: nat, 128, 148] @ '' execution was interrupted before the tool returned)''"

definition stopped_result :: "tool_call \<Rightarrow> chat_message" where
  "stopped_result c = answering (tc_id c) (tc_name c) stopped_text"

text \<open>The messages appended to a history.\<close>

definition pad_orphans :: "chat_message list \<Rightarrow> chat_message list" where
  "pad_orphans ms = (case last_calling ms of
     None \<Rightarrow> []
   | Some i \<Rightarrow>
       (let resolved = map cm_call_id (filter (\<lambda>m. is_tool m \<and> cm_call_id m \<noteq> []) (drop (Suc i) ms))
        in map stopped_result (filter (\<lambda>c. tc_id c \<notin> set resolved) (cm_calls (ms ! i)))))"

section \<open>Compaction\<close>

definition token_threshold :: nat where "token_threshold = 80000"
definition prune_turn_age :: nat where "prune_turn_age = 20"
definition truncated_placeholder :: string where
  "truncated_placeholder = ''[Result truncated - see memory logs]''"

definition message_tokens :: "chat_message \<Rightarrow> nat" where
  "message_tokens m = length (cm_content m) div 4
     + sum_list (map (\<lambda>c. length (tc_args c) div 4 + length (tc_name c) div 4) (cm_calls m))"

definition estimate_tokens :: "chat_message list \<Rightarrow> nat" where
  "estimate_tokens ms = sum_list (map message_tokens ms)"

text \<open>The cutoff moves past tool messages.\<close>

function tool_free_from :: "chat_message list \<Rightarrow> nat \<Rightarrow> nat" where
  "tool_free_from ms c = (if c < length ms \<and> is_tool (ms ! c) then tool_free_from ms (Suc c) else c)"
  by pat_completeness auto
termination by (relation "measure (\<lambda>(ms, c). length ms - c)") auto

declare tool_free_from.simps [simp del]

definition safe_compaction_cutoff :: "chat_message list \<Rightarrow> int \<Rightarrow> nat" where
  "safe_compaction_cutoff ms c = tool_free_from ms (if c < 0 then 0 else nat c)"

definition prune_message :: "chat_message \<Rightarrow> chat_message" where
  "prune_message m = (if is_tool m \<and> length (cm_content m) > 200
     then answering (cm_call_id m) (cm_name m) truncated_placeholder else m)"

definition prune_old_tool_results :: "chat_message list \<Rightarrow> chat_message list" where
  "prune_old_tool_results ms =
     (if length ms \<le> prune_turn_age then ms
      else (let cutoff = length ms - prune_turn_age in map prune_message (take cutoff ms) @ drop cutoff ms))"

definition summarizer_prompt :: string where
  "summarizer_prompt = ''You are a conversation summarizer. Summarize the following conversation history into a compact summary that preserves key facts, decisions, and context. Be concise but don't lose important details.''"

abbreviation newline :: string where "newline \<equiv> [CHR 0x0A]"

definition summary_text :: "chat_message list \<Rightarrow> string" where
  "summary_text older = concat (map (\<lambda>m. ''['' @ cm_role m @ ''] '' @ cm_content m @ newline)
     (filter (\<lambda>m. cm_origin m = origin_user) older))"

definition compress_older_messages :: "(chat_message list \<Rightarrow> string + string) \<Rightarrow> chat_message list
    \<Rightarrow> string + chat_message list" where
  "compress_older_messages chat ms =
     (if length ms \<le> prune_turn_age then Inr ms
      else (let cutoff = safe_compaction_cutoff ms (int (length ms) - int prune_turn_age);
                prompt = [simple_message ''system'' summarizer_prompt,
                  simple_message ''user'' (''Summarize this conversation:'' @ newline @ newline @ summary_text (take cutoff ms))]
            in case chat prompt of
                 Inl e \<Rightarrow> Inl (''summarize conversation: '' @ e)
               | Inr reply \<Rightarrow> Inr (simple_message ''user'' (''[Conversation Summary]'' @ newline @ reply) # drop cutoff ms)))"

text \<open>The messages to go on with, and whether the session is rewritten with them.\<close>

definition compact_messages :: "(chat_message list \<Rightarrow> string + string) \<Rightarrow> chat_message list
    \<Rightarrow> chat_message list \<times> bool" where
  "compact_messages chat ms =
     (if estimate_tokens ms < token_threshold then (ms, False)
      else (let pruned = prune_old_tool_results ms in
        if estimate_tokens pruned < token_threshold then (pruned, True)
        else case compress_older_messages chat pruned of
            Inl e \<Rightarrow> (pruned, True)
          | Inr compressed \<Rightarrow> (compressed, True)))"

section \<open>Cuts\<close>

definition last_user :: "chat_message list \<Rightarrow> nat option" where
  "last_user ms = find (\<lambda>i. cm_role (ms ! i) = ''user'') (rev [0..<length ms])"

definition retry_cut :: "chat_message list \<Rightarrow> (chat_message list \<times> string) option" where
  "retry_cut ms = map_option (\<lambda>i. (take i ms, cm_content (ms ! i))) (last_user ms)"

fun drop_assistants :: "chat_message list \<Rightarrow> chat_message list" where
  "drop_assistants [] = []"
| "drop_assistants (m # ms) = (if is_assistant m then drop_assistants ms else m # ms)"

text \<open>The history is read from its end.\<close>

definition undo_cut :: "chat_message list \<Rightarrow> chat_message list option" where
  "undo_cut ms =
     (if length ms < 2 then None
      else Some (rev (case drop_assistants (rev ms) of
          [] \<Rightarrow> []
        | m # rest \<Rightarrow> if cm_role m = ''user'' then rest else m # rest)))"

section \<open>Compaction keeps the history sound\<close>

lemma tool_free_from_bounds: "c \<le> length ms \<Longrightarrow> c \<le> tool_free_from ms c \<and> tool_free_from ms c \<le> length ms"
proof (induction ms c rule: tool_free_from.induct)
  case (1 ms c)
  then show ?case by (subst (1 2) tool_free_from.simps) auto
qed

lemma tool_free_from_stop: "tool_free_from ms c < length ms \<Longrightarrow> \<not> is_tool (ms ! tool_free_from ms c)"
proof (induction ms c rule: tool_free_from.induct)
  case (1 ms c)
  then show ?case by (cases "c < length ms \<and> is_tool (ms ! c)") (auto simp: tool_free_from.simps [of ms c])
qed

lemma tool_free_from_le: "c \<le> k \<Longrightarrow> k < length ms \<Longrightarrow> \<not> is_tool (ms ! k) \<Longrightarrow> tool_free_from ms c \<le> k"
proof (induction ms c rule: tool_free_from.induct)
  case (1 ms c)
  show ?case
  proof (cases "c < length ms \<and> is_tool (ms ! c)")
    case True
    then have "Suc c \<le> k" using 1(2,4) by (metis Suc_leI le_neq_implies_less)
    then show ?thesis using 1 True by (simp add: tool_free_from.simps [of ms c])
  next
    case False
    then have "tool_free_from ms c = c" by (subst tool_free_from.simps) (simp only: if_False)
    then show ?thesis using 1(2) by simp
  qed
qed

lemma answers_append: "answers (xs @ ys) = (if \<exists>ids. Calls ids \<in> set xs then answers xs else answers xs @ answers ys)"
proof (induction xs)
  case (Cons x xs)
  then show ?case by (cases x) auto
qed simp

lemma calls_answered_drop: "calls_answered xs \<Longrightarrow> calls_answered (drop n xs)"
proof (induction n arbitrary: xs)
  case (Suc n)
  then show ?case by (cases xs rule: calls_answered.cases) auto
qed simp

lemma anchored_drop: "anchored due xs \<Longrightarrow> drop n xs = Calls ids # ys \<Longrightarrow> anchored due' (drop n xs)"
proof (induction n arbitrary: xs due)
  case 0
  then show ?case by simp
next
  case (Suc n)
  then show ?case by (cases "(due, xs)" rule: anchored.cases) auto
qed

lemma shape_prune [simp]: "shape (prune_message m) = shape m"
  by (simp add: prune_message_def answering_def simple_message_def shape_def)

lemma shape_pruned: "map shape (prune_old_tool_results ms) = map shape ms"
proof -
  have "map shape (map prune_message xs) = map shape xs" for xs by (induction xs) simp_all
  then show ?thesis
    by (simp only: prune_old_tool_results_def Let_def map_append if_distrib [of "map shape"])
      (simp flip: map_append)
qed

lemma paired_shape: "map shape ms = map shape ms' \<Longrightarrow> paired ms = paired ms'"
  by (simp add: paired_def)

lemma paired_tail:
  assumes "paired ms" and "c = length ms \<or> c < length ms \<and> \<not> is_tool (ms ! c)" and "\<not> is_tool m" and "\<not> is_assistant m"
  shows "paired (m # drop c ms)"
proof (cases "c < length ms")
  case True
  then have "drop c (map shape ms) = shape (ms ! c) # map shape (drop (Suc c) ms)"
    by (simp add: drop_map Cons_nth_drop_Suc [symmetric])
  moreover from True assms(2) obtain ids where "shape (ms ! c) = Calls ids" by (cases "shape (ms ! c)") (auto simp: shape_def split: if_splits)
  ultimately show ?thesis
    using assms calls_answered_drop [of "map shape ms" c] anchored_drop [of "[]" "map shape ms" c ids _ "[]"]
    by (simp add: paired_def shape_def [of m] drop_map)
qed (use assms in \<open>simp add: paired_def shape_def\<close>)

lemma pruned_length [simp]: "length (prune_old_tool_results ms) = length ms"
  by (simp add: prune_old_tool_results_def Let_def)

lemma pruned_last: "ms \<noteq> [] \<Longrightarrow> last (prune_old_tool_results ms) = last ms"
  by (simp add: prune_old_tool_results_def Let_def last_append prune_turn_age_def)

lemma prune_tokens: "message_tokens (prune_message m) \<le> message_tokens m"
  using div_le_mono [of 200 "length (cm_content m)" 4]
  by (auto simp: prune_message_def message_tokens_def answering_def simple_message_def blank_message_def truncated_placeholder_def)

lemma estimate_append: "estimate_tokens (xs @ ys) = estimate_tokens xs + estimate_tokens ys"
  by (simp add: estimate_tokens_def)

lemma pruned_tokens: "estimate_tokens (prune_old_tool_results ms) \<le> estimate_tokens ms"
proof -
  have "estimate_tokens (map prune_message xs) \<le> estimate_tokens xs" for xs
    by (induction xs) (simp_all add: estimate_tokens_def prune_tokens add_mono)
  then have "estimate_tokens (map prune_message (take c ms) @ drop c ms) \<le> estimate_tokens (take c ms @ drop c ms)" for c
    unfolding estimate_append by simp
  then show ?thesis by (simp add: prune_old_tool_results_def Let_def)
qed

lemma compress_sound:
  assumes "compress_older_messages chat ms = Inr out" and "paired ms" and "ms \<noteq> []" and "\<not> is_tool (last ms)"
  shows "paired out \<and> last out = last ms \<and> length out \<le> prune_turn_age + 1"
proof (cases "length ms \<le> prune_turn_age")
  case True
  with assms show ?thesis by (simp add: compress_older_messages_def)
next
  case False
  let ?start = "length ms - prune_turn_age"
  let ?cut = "tool_free_from ms ?start"
  have nat: "nat (int (length ms) - int prune_turn_age) = ?start" by simp
  from assms(1) False obtain reply where out: "out = simple_message ''user'' (''[Conversation Summary]'' @ newline @ reply) # drop ?cut ms"
    by (auto simp: compress_older_messages_def safe_compaction_cutoff_def Let_def nat split: sum.splits)
  have c: "?start \<le> ?cut" "?cut \<le> length ms - 1" "?cut < length ms"
  proof -
    have "?start \<le> length ms - 1" by (simp add: prune_turn_age_def)
    moreover have last: "length ms - 1 < length ms" "\<not> is_tool (ms ! (length ms - 1))"
      using assms(3,4) by (simp_all add: last_conv_nth)
    ultimately show "?cut \<le> length ms - 1" by (rule tool_free_from_le)
    with last(1) show "?cut < length ms" by simp
    show "?start \<le> ?cut" using tool_free_from_bounds [of ?start ms] by simp
  qed
  have "paired out"
    unfolding out using c(3) tool_free_from_stop [OF c(3)]
    by (intro paired_tail [OF assms(2)]) (simp_all add: simple_message_def blank_message_def)
  moreover have "last out = last ms" using c(3) by (simp add: out)
  ultimately show ?thesis using c(1) False by (simp add: out)
qed

lemma pruned_keeps:
  assumes "paired ms" and "ms \<noteq> []"
  shows "paired (prune_old_tool_results ms)" and "prune_old_tool_results ms \<noteq> []" and "last (prune_old_tool_results ms) = last ms"
  using assms paired_shape [OF shape_pruned] pruned_last [OF assms(2)] pruned_length [of ms] by (simp, fastforce, simp)

lemma compact_paired:
  assumes "paired ms" and "ms \<noteq> []" and "\<not> is_tool (last ms)"
  shows "paired (fst (compact_messages chat ms)) \<and> last (fst (compact_messages chat ms)) = last ms"
  using compress_sound [OF _ pruned_keeps(1,2) [OF assms(1,2)]] pruned_keeps [OF assms(1,2)] assms
  by (auto simp: compact_messages_def Let_def split: sum.split)

lemma compact_bounded:
  assumes "paired ms" and "ms \<noteq> []" and "\<not> is_tool (last ms)"
    and "token_threshold \<le> estimate_tokens (prune_old_tool_results ms)" and "\<forall>p e. chat p \<noteq> Inl e"
  shows "length (fst (compact_messages chat ms)) \<le> prune_turn_age + 1"
proof (cases "compress_older_messages chat (prune_old_tool_results ms)")
  case (Inr out)
  with compress_sound [OF Inr pruned_keeps(1,2) [OF assms(1,2)]] pruned_keeps [OF assms(1,2)] assms show ?thesis
    using pruned_tokens [of ms] by (simp add: compact_messages_def Let_def)
qed (use assms in \<open>auto simp: compress_older_messages_def Let_def split: if_splits sum.splits\<close>)

text \<open>C17: Compaction keeps a history sound: no call loses its answers and no answer its call, whatever the
  summarising model replies; the newest message survives, and a history that is still too large after
  pruning is cut to a summary and at most twenty messages unless the model fails.\<close>

theorem compaction_sound:
  assumes "paired ms" and "ms \<noteq> []" and "\<not> is_tool (last ms)"
  shows "paired (fst (compact_messages chat ms)) \<and> last (fst (compact_messages chat ms)) = last ms \<and>
    (token_threshold \<le> estimate_tokens (prune_old_tool_results ms) \<longrightarrow> (\<forall>p e. chat p \<noteq> Inl e) \<longrightarrow>
     length (fst (compact_messages chat ms)) \<le> prune_turn_age + 1)"
  using compact_paired [OF assms] compact_bounded [OF assms] by blast

section \<open>Undo\<close>

lemma drop_assistants_all: "list_all is_assistant xs \<Longrightarrow> drop_assistants (xs @ ys) = drop_assistants ys"
  by (induction xs) simp_all

lemma drop_assistants_stop: "\<not> list_all is_assistant xs \<Longrightarrow>
    \<exists>m zs. drop_assistants (xs @ ys) = m # zs @ ys \<and> m \<in> set xs \<and> \<not> is_assistant m"
  by (induction xs) auto

text \<open>The command \<^verbatim>\<open>/undo\<close> without a snapshot takes back the last turn exactly when the turn called no tool; after
  a turn with a tool call it removes the answer only and leaves the user's message and the tool round.\<close>

theorem undo_takes_back_iff_no_tool:
  assumes "cm_role u = ''user''" and "body \<noteq> []" and "\<forall>m \<in> set body. is_assistant m \<or> is_tool m"
  shows "undo_cut (h @ u # body) = Some h \<longleftrightarrow> (\<forall>m \<in> set body. \<not> is_tool m)"
proof (cases "list_all is_assistant body")
  case True
  then have "\<forall>m \<in> set body. \<not> is_tool m" by (auto simp: list_all_iff)
  moreover have "undo_cut (h @ u # body) = Some h"
    using True assms(1,2) drop_assistants_all [of "rev body" "u # rev h"]
    by (cases body) (simp_all add: undo_cut_def)
  ultimately show ?thesis by simp
next
  case False
  then have tool: "\<exists>m \<in> set body. is_tool m" using assms(3) by (auto simp: list_all_iff)
  have "undo_cut (h @ u # body) \<noteq> Some h"
  proof
    assume "undo_cut (h @ u # body) = Some h"
    moreover obtain m zs where "drop_assistants (rev body @ u # rev h) = m # zs @ u # rev h" "cm_role m \<noteq> ''user''"
      using False assms(3) drop_assistants_stop [of "rev body" "u # rev h"] by (auto simp: list_all_rev)
    ultimately show False using assms(2) by (simp add: undo_cut_def)
  qed
  with tool show ?thesis by blast
qed

section \<open>Witnesses\<close>

theorem compaction_sound_witness:
  "paired (fst (compact_messages (\<lambda>p. Inr ''they said a'') (replicate 30 (simple_message ''user'' (replicate 12000 CHR ''a''))))) \<and>
   length (fst (compact_messages (\<lambda>p. Inr ''they said a'') (replicate 30 (simple_message ''user'' (replicate 12000 CHR ''a''))))) \<le> 21"
proof -
  let ?m = "simple_message ''user'' (replicate 12000 CHR ''a'')"
  have user: "\<not> is_tool ?m" "cm_calls ?m = []" "shape ?m = Calls []"
    by (simp_all add: simple_message_def blank_message_def shape_def)
  have p: "paired (replicate n ?m)" for n
  proof -
    have "calls_answered (replicate n (Calls []))" "anchored [] (replicate n (Calls []))" by (induction n) simp_all
    then show ?thesis by (simp add: paired_def user(3))
  qed
  have "prune_old_tool_results (replicate 30 ?m) = replicate 30 ?m"
    using user(1) by (simp add: prune_old_tool_results_def prune_turn_age_def prune_message_def Let_def flip: replicate_add)
  moreover have "message_tokens ?m = 3000" by (simp add: message_tokens_def simple_message_def blank_message_def)
  ultimately have "token_threshold \<le> estimate_tokens (prune_old_tool_results (replicate 30 ?m))"
    by (simp add: estimate_tokens_def sum_list_replicate token_threshold_def)
  then show ?thesis
    using compaction_sound [OF p [of 30], of "\<lambda>p. Inr ''they said a''"] user(1) by (simp add: prune_turn_age_def)
qed

theorem undo_takes_back_iff_no_tool_witness:
  "(undo_cut ([] @ simple_message ''user'' ''q'' # [calling [] [] [demo_call ''a''], answering ''a'' ''exec'' ''x'',
      simple_message ''assistant'' ''done'']) = Some []) \<longleftrightarrow>
    \<not> list_ex is_tool [calling [] [] [demo_call ''a''], answering ''a'' ''exec'' ''x'', simple_message ''assistant'' ''done'']"
  by (subst undo_takes_back_iff_no_tool) (simp_all add: message_defs)

end
