(* ===== verification/Session_Store.thy ===== *)
theory Session_Store
  imports Chat Users
begin

text \<open>
  The \<^verbatim>\<open>sessions\<close>, \<^verbatim>\<open>session_messages\<close> and \<^verbatim>\<open>session_events\<close>
  tables of \<^verbatim>\<open>internal/store/database.go\<close>, one definition per statement or transaction. The
  identity tables of \<open>Users\<close> are the first component of the database and carry the plan of driver
  errors. Stored messages are kept decoded; their JSON round trip keeps valid UTF-8 text. Of several
  rows that match a query without an order the first in the table is returned.
\<close>

section \<open>Rows\<close>

type_synonym session_message = chat_message

record session_row =
  sr_user :: string
  sr_agent :: string
  sr_key :: string
  sr_channel :: string
  sr_account :: string
  sr_chat :: string
  sr_project :: string
  sr_title :: string
  sr_messages :: "session_message list"
  sr_count :: nat
  sr_updated :: instant
  sr_chatter :: string

record message_row =
  mr_user :: string
  mr_agent :: string
  mr_key :: string
  mr_seq :: int
  mr_message :: session_message
  mr_chatter :: string

record event_row =
  er_user :: string
  er_agent :: string
  er_key :: string
  er_seq :: int
  er_type :: string
  er_data :: string
  er_created :: instant
  er_chatter :: string

record chat_db =
  ident_db :: id_db
  sessions_t :: "session_row list"
  archive_t :: "message_row list"
  events_t :: "event_row list"

type_synonym 'a chat_step = "(chat_db, user_error, 'a) stateful"

abbreviation chat_plan :: "chat_db \<Rightarrow> string option list" where
  "chat_plan db \<equiv> plan (ident_db db)"

definition on_ident :: "'a step \<Rightarrow> 'a chat_step" where
  "on_ident m db = (case m (ident_db db) of (r, i) \<Rightarrow> (r, db\<lparr>ident_db := i\<rparr>))"

definition sql :: "'a chat_step \<Rightarrow> 'a chat_step" where
  "sql f db = (case stmt (ok ()) (ident_db db) of
     (Inl e, i) \<Rightarrow> (Inl e, db\<lparr>ident_db := i\<rparr>)
   | (Inr _, i) \<Rightarrow> f (db\<lparr>ident_db := i\<rparr>))"

definition read_sql :: "(chat_db \<Rightarrow> user_error + 'a) \<Rightarrow> 'a chat_step" where
  "read_sql q = sql (\<lambda>db. (q db, db))"

definition write_sql :: "(chat_db \<Rightarrow> chat_db) \<Rightarrow> unit chat_step" where
  "write_sql f = sql (\<lambda>db. (Inr (), f db))"

definition chat_tx :: "'a chat_step \<Rightarrow> 'a chat_step" where
  "chat_tx body db = (case and_then (sql (ok ())) (\<lambda>_. and_then body (\<lambda>a. and_then (sql (ok ())) (\<lambda>_. ok a))) db of
     (Inl e, db') \<Rightarrow> (Inl e, db\<lparr>ident_db := (ident_db db)\<lparr>plan := chat_plan db'\<rparr>\<rparr>)
   | (Inr a, db') \<Rightarrow> (Inr a, db'))"

section \<open>The sessions table\<close>

definition is_row :: "string \<Rightarrow> string \<Rightarrow> string \<Rightarrow> session_row \<Rightarrow> bool" where
  "is_row uid agent key r = (sr_user r = uid \<and> sr_agent r = agent \<and> sr_key r = key)"

definition get_session :: "string \<Rightarrow> string \<Rightarrow> string \<Rightarrow> session_row chat_step" where
  "get_session uid agent key = read_sql (\<lambda>db. found (tbl_first (is_row uid agent key) (sessions_t db)))"

definition lookup_session_owner :: "string \<Rightarrow> string \<Rightarrow> string chat_step" where
  "lookup_session_owner agent key = read_sql (\<lambda>db.
     found (map_option sr_user (tbl_first (\<lambda>r. sr_agent r = agent \<and> sr_key r = key) (sessions_t db))))"

definition get_session_by_key :: "string \<Rightarrow> string \<Rightarrow> session_row chat_step" where
  "get_session_by_key agent key = read_sql (\<lambda>db.
     found (tbl_first (\<lambda>r. sr_agent r = agent \<and> sr_key r = key) (sessions_t db)))"

text \<open>What a save brings along; the triple and the project are written on insert only.\<close>

record session_save =
  ss_channel :: string
  ss_account :: string
  ss_chat :: string
  ss_project :: string
  ss_messages :: "session_message list"

definition upsert_session :: "instant \<Rightarrow> string \<Rightarrow> string \<Rightarrow> string \<Rightarrow> string \<Rightarrow> session_save
    \<Rightarrow> session_row list \<Rightarrow> session_row list" where
  "upsert_session now chatter uid agent key s rows =
     (if tbl_first (is_row uid agent key) rows = None
      then rows @ [\<lparr>sr_user = uid, sr_agent = agent, sr_key = key, sr_channel = ss_channel s,
        sr_account = ss_account s, sr_chat = ss_chat s, sr_project = ss_project s, sr_title = [],
        sr_messages = ss_messages s, sr_count = length (ss_messages s), sr_updated = now, sr_chatter = chatter\<rparr>]
      else tbl_update (is_row uid agent key) (\<lambda>r. r\<lparr>sr_messages := ss_messages s, sr_count := length (ss_messages s),
        sr_updated := now, sr_chatter := (if chatter \<noteq> [] then chatter else sr_chatter r)\<rparr>) rows)"

definition save_session :: "instant \<Rightarrow> string \<Rightarrow> string \<Rightarrow> string \<Rightarrow> string \<Rightarrow> session_save \<Rightarrow> unit chat_step" where
  "save_session now chatter uid agent key s =
     (if uid = [] then raise (Refused ''store: SaveSession requires user_id'')
      else write_sql (\<lambda>db. db\<lparr>sessions_t := upsert_session now chatter uid agent key s (sessions_t db)\<rparr>))"

definition newest_first :: "session_row list \<Rightarrow> session_row list" where
  "newest_first rows = sort_key (\<lambda>r. - sr_updated r) rows"

text \<open>The caller's account and those it owns.\<close>

definition family :: "string \<Rightarrow> chat_db \<Rightarrow> string list" where
  "family uid db = map u_id (filter (\<lambda>u. u_owner u = uid) (users_t (ident_db db)))"

definition list_sessions :: "string \<Rightarrow> string \<Rightarrow> session_row list chat_step" where
  "list_sessions uid agent = read_sql (\<lambda>db. Inr (newest_first (tbl_select
     (\<lambda>r. sr_agent r = agent \<and> (sr_user r = uid \<or> sr_user r \<in> set (family uid db))) (sessions_t db))))"

definition list_session_owner_pairs :: "(string \<times> string) list chat_step" where
  "list_session_owner_pairs = read_sql (\<lambda>db. Inr (remdups (map (\<lambda>r. (sr_user r, sr_agent r))
     (tbl_select (\<lambda>r. sr_user r \<noteq> [] \<and> sr_agent r \<noteq> []) (sessions_t db)))))"

text \<open>The statement has question marks for its parameters, which Postgres does not parse.\<close>

definition list_session_owner_pairs_by_agents :: "dialect \<Rightarrow> string list \<Rightarrow> (string \<times> string) list chat_step" where
  "list_session_owner_pairs_by_agents d agents =
     (if agents = [] then ok []
      else if d = Postgres then read_sql (\<lambda>db. Inl (Sql_Error ''syntax error''))
      else read_sql (\<lambda>db. Inr (remdups (map (\<lambda>r. (sr_user r, sr_agent r))
        (tbl_select (\<lambda>r. sr_user r \<noteq> [] \<and> sr_agent r \<noteq> [] \<and> sr_agent r \<in> set agents) (sessions_t db))))))"

text \<open>No list of agents is no restriction, the empty list no session.\<close>

definition list_sessions_paginated :: "string list option \<Rightarrow> nat \<Rightarrow> nat \<Rightarrow> (session_row list \<times> nat) chat_step" where
  "list_sessions_paginated agents offset limit =
     (let sel = (\<lambda>db. tbl_select (\<lambda>r. case agents of None \<Rightarrow> True | Some as \<Rightarrow> sr_agent r \<in> set as) (sessions_t db))
      in if agents = Some [] then ok ([], 0)
         else and_then (read_sql (\<lambda>db. Inr (length (sel db)))) (\<lambda>total.
           and_then (read_sql (\<lambda>db. Inr (take limit (drop offset (newest_first (sel db)))))) (\<lambda>page. ok (page, total))))"

definition lookup_session_triple :: "string \<Rightarrow> string \<Rightarrow> string \<Rightarrow> (string \<times> string \<times> string) chat_step" where
  "lookup_session_triple uid agent key = read_sql (\<lambda>db.
     found (map_option (\<lambda>r. (sr_channel r, sr_account r, sr_chat r)) (tbl_first (is_row uid agent key) (sessions_t db))))"

definition lookup_session_project :: "string \<Rightarrow> string \<Rightarrow> string \<Rightarrow> string chat_step" where
  "lookup_session_project uid agent key = read_sql (\<lambda>db.
     found (map_option sr_project (tbl_first (is_row uid agent key) (sessions_t db))))"

definition newest_key :: "session_row list \<Rightarrow> user_error + string" where
  "newest_key rows = (case newest_first rows of [] \<Rightarrow> Inl Not_Found | r # _ \<Rightarrow> Inr (sr_key r))"

definition of_triple :: "string \<Rightarrow> string \<Rightarrow> string \<times> string \<times> string \<Rightarrow> session_row \<Rightarrow> bool" where
  "of_triple uid agent t r = (sr_user r = uid \<and> sr_agent r = agent \<and> (sr_channel r, sr_account r, sr_chat r) = t)"

definition resolve_active_session_key :: "string \<Rightarrow> string \<Rightarrow> string \<times> string \<times> string \<Rightarrow> string chat_step" where
  "resolve_active_session_key uid agent t = (case t of (channel, account, chat) \<Rightarrow>
     attempt (read_sql (\<lambda>db. newest_key (tbl_select (of_triple uid agent t) (sessions_t db)))) (\<lambda>r. case r of
       Inr key \<Rightarrow> ok key
     | Inl _ \<Rightarrow>
         if channel \<noteq> [] \<and> channel \<noteq> ''web'' \<and> channel \<noteq> ''api'' \<and> channel \<noteq> ''shared'' then
           attempt (read_sql (\<lambda>db. newest_key (tbl_select (\<lambda>r. sr_agent r = agent \<and> sr_channel r = channel \<and> sr_chat r = chat
             \<and> list_ex (\<lambda>u. u_id u = sr_user r \<and> (u_id u = uid \<or> u_owner u = uid)) (users_t (ident_db db))) (sessions_t db))))
           (\<lambda>r. case r of Inr key \<Rightarrow> ok key | Inl _ \<Rightarrow> raise Not_Found)
         else raise Not_Found))"

definition of_archive :: "string \<Rightarrow> string \<Rightarrow> string \<Rightarrow> message_row \<Rightarrow> bool" where
  "of_archive uid agent key m = (mr_user m = uid \<and> mr_agent m = agent \<and> mr_key m = key)"

definition of_events :: "string \<Rightarrow> string \<Rightarrow> string \<Rightarrow> event_row \<Rightarrow> bool" where
  "of_events uid agent key e = (er_user e = uid \<and> er_agent e = agent \<and> er_key e = key)"

definition delete_session :: "string \<Rightarrow> string \<Rightarrow> string \<Rightarrow> unit chat_step" where
  "delete_session uid agent key =
     and_then (write_sql (\<lambda>db. db\<lparr>archive_t := tbl_delete (of_archive uid agent key) (archive_t db)\<rparr>)) (\<lambda>_.
     and_then (write_sql (\<lambda>db. db\<lparr>events_t := tbl_delete (of_events uid agent key) (events_t db)\<rparr>)) (\<lambda>_.
     write_sql (\<lambda>db. db\<lparr>sessions_t := tbl_delete (is_row uid agent key) (sessions_t db)\<rparr>)))"

definition rename_session :: "string \<Rightarrow> string \<Rightarrow> string \<Rightarrow> string \<Rightarrow> unit chat_step" where
  "rename_session uid agent key title = write_sql (\<lambda>db.
     db\<lparr>sessions_t := tbl_update (is_row uid agent key) (\<lambda>r. r\<lparr>sr_title := title\<rparr>) (sessions_t db)\<rparr>)"

definition move_session :: "string \<Rightarrow> string \<Rightarrow> string \<Rightarrow> string \<Rightarrow> unit chat_step" where
  "move_session uid agent key project = write_sql (\<lambda>db.
     db\<lparr>sessions_t := tbl_update (is_row uid agent key) (\<lambda>r. r\<lparr>sr_project := project\<rparr>) (sessions_t db)\<rparr>)"

section \<open>The archive and the events\<close>

definition next_seq :: "int list \<Rightarrow> int" where
  "next_seq seqs = (if seqs = [] then 0 else Max (set seqs) + 1)"

text \<open>A message without a time gets the present one (milliseconds).\<close>

definition timed :: "instant \<Rightarrow> session_message \<Rightarrow> session_message" where
  "timed now m = (if cm_time m = 0 then m\<lparr>cm_time := now div 1000000\<rparr> else m)"

definition append_session_message :: "instant \<Rightarrow> string \<Rightarrow> string \<Rightarrow> string \<Rightarrow> string \<Rightarrow> session_message \<Rightarrow> unit chat_step" where
  "append_session_message now chatter uid agent key m =
     (if uid = [] then raise (Refused ''store: AppendSessionMessage requires user_id'')
      else write_sql (\<lambda>db. db\<lparr>archive_t := archive_t db @
        [\<lparr>mr_user = uid, mr_agent = agent, mr_key = key,
          mr_seq = next_seq (map mr_seq (tbl_select (of_archive uid agent key) (archive_t db))),
          mr_message = timed now m, mr_chatter = chatter\<rparr>]\<rparr>))"

definition list_session_messages :: "string \<Rightarrow> string \<Rightarrow> string \<Rightarrow> session_message list chat_step" where
  "list_session_messages uid agent key = read_sql (\<lambda>db.
     Inr (map mr_message (sort_key mr_seq (tbl_select (of_archive uid agent key) (archive_t db)))))"

definition count_chatter_user_messages :: "string \<Rightarrow> string \<Rightarrow> nat chat_step" where
  "count_chatter_user_messages agent chatter =
     (if chatter = [] then ok 0
      else read_sql (\<lambda>db. Inr (tbl_affected (\<lambda>m. mr_agent m = agent \<and> mr_chatter m = chatter
        \<and> cm_role (mr_message m) = ''user'') (archive_t db))))"

definition next_event_seq :: "string \<Rightarrow> string \<Rightarrow> string \<Rightarrow> int chat_step" where
  "next_event_seq uid agent key = read_sql (\<lambda>db.
     Inr (next_seq (map er_seq (tbl_select (of_events uid agent key) (events_t db)))))"

text \<open>The insert checks the primary key.\<close>

definition insert_event :: "event_row \<Rightarrow> unit chat_step" where
  "insert_event e = sql (\<lambda>db.
     if tbl_first (\<lambda>r. of_events (er_user e) (er_agent e) (er_key e) r \<and> er_seq r = er_seq e) (events_t db) \<noteq> None
     then (Inl sql_dup, db) else (Inr (), db\<lparr>events_t := events_t db @ [e]\<rparr>))"

definition append_session_event :: "instant \<Rightarrow> string \<Rightarrow> string \<Rightarrow> string \<Rightarrow> string \<Rightarrow> string \<Rightarrow> string \<Rightarrow> int chat_step" where
  "append_session_event now chatter uid agent key ty data =
     (if uid = [] \<or> agent = [] \<or> key = [] then
        raise (Refused ''store: AppendSessionEvent requires user_id, agent_id, session_key'')
      else chat_tx (and_then (next_event_seq uid agent key) (\<lambda>seq.
        and_then (insert_event \<lparr>er_user = uid, er_agent = agent, er_key = key, er_seq = seq, er_type = ty,
          er_data = data, er_created = now, er_chatter = chatter\<rparr>) (\<lambda>_. ok seq))))"

definition list_session_events_since :: "string \<Rightarrow> string \<Rightarrow> string \<Rightarrow> int \<Rightarrow> event_row list chat_step" where
  "list_session_events_since uid agent key since = read_sql (\<lambda>db. Inr (sort_key er_seq
     (tbl_select (\<lambda>e. of_events uid agent key e \<and> er_seq e > since) (events_t db))))"

definition latest_session_event_seq :: "string \<Rightarrow> string \<Rightarrow> string \<Rightarrow> int chat_step" where
  "latest_session_event_seq uid agent key = read_sql (\<lambda>db.
     (let seqs = map er_seq (tbl_select (of_events uid agent key) (events_t db))
      in Inr (if seqs = [] then -1 else Max (set seqs))))"

section \<open>Laws of the statements\<close>

lemma sql_healthy [step_simps]: "chat_plan db = [] \<Longrightarrow> sql f db = f db"
  by (simp add: sql_def stmt_def ok_def)

lemma read_sql_healthy [step_simps]: "chat_plan db = [] \<Longrightarrow> read_sql q db = (q db, db)"
  by (simp add: read_sql_def step_simps)

lemma write_sql_healthy [step_simps]: "chat_plan db = [] \<Longrightarrow> write_sql f db = (Inr (), f db)"
  by (simp add: write_sql_def step_simps)

lemma chat_tx_healthy:
  assumes "chat_plan db = []" and "body db = (Inr a, db')" and "chat_plan db' = []"
  shows "chat_tx body db = (Inr a, db')"
  using assms by (simp add: chat_tx_def and_then_def ok_def step_simps)

definition event_seqs :: "string \<Rightarrow> string \<Rightarrow> string \<Rightarrow> chat_db \<Rightarrow> int list" where
  "event_seqs uid agent key db = map er_seq (tbl_select (of_events uid agent key) (events_t db))"

text \<open>The events of a session are numbered from 0 without gaps.\<close>

definition numbered :: "nat \<Rightarrow> int list \<Rightarrow> bool" where
  "numbered n seqs = (seqs = map int [0..<n])"

lemma next_seq_numbered: "numbered n seqs \<Longrightarrow> next_seq seqs = int n"
proof (cases n)
  case (Suc k)
  assume "numbered n seqs"
  then have "seqs \<noteq> []" "Max (set seqs) = int k"
    using Suc by (auto simp: numbered_def simp del: upt_Suc intro!: Max_eqI)
  then show ?thesis using Suc by (simp add: next_seq_def)
qed (simp add: numbered_def next_seq_def)

lemma numbered_snoc: "numbered n seqs \<Longrightarrow> numbered (Suc n) (seqs @ [int n])"
  by (simp add: numbered_def)

definition event_of :: "instant \<Rightarrow> string \<Rightarrow> string \<Rightarrow> string \<Rightarrow> string \<Rightarrow> nat \<Rightarrow> string \<Rightarrow> string \<Rightarrow> event_row" where
  "event_of now chatter uid agent key n ty data = \<lparr>er_user = uid, er_agent = agent, er_key = key, er_seq = int n,
     er_type = ty, er_data = data, er_created = now, er_chatter = chatter\<rparr>"

lemma sql_result:
  "sql f db = (r, db') \<Longrightarrow> (\<exists>e p. r = Inl (Sql_Error e) \<and> db' = db\<lparr>ident_db := (ident_db db)\<lparr>plan := p\<rparr>\<rparr>)
    \<or> (\<exists>p. f (db\<lparr>ident_db := (ident_db db)\<lparr>plan := p\<rparr>\<rparr>) = (r, db'))"
proof (cases "chat_plan db")
  case Nil
  moreover have "db = db\<lparr>ident_db := (ident_db db)\<lparr>plan := []\<rparr>\<rparr>" using Nil by simp
  moreover assume "sql f db = (r, db')"
  ultimately show ?thesis by (metis sql_healthy)
qed (auto simp: sql_def stmt_def ok_def split: option.splits)

lemma sql_ok_result: "sql (ok ()) db = (r, db') \<Longrightarrow> events_t db' = events_t db"
  by (auto simp: ok_def dest!: sql_result)

text \<open>A transaction fails and leaves the log, or its body has succeeded.\<close>

lemma chat_tx_result:
  assumes "chat_tx body db = (r, db')"
  shows "(\<exists>e. r = Inl e \<and> events_t db' = events_t db)
    \<or> (\<exists>a d d'. r = Inr a \<and> events_t d = events_t db \<and> body d = (Inr a, d') \<and> events_t db' = events_t d')"
proof -
  let ?m = "and_then (sql (ok ())) (\<lambda>_. and_then body (\<lambda>a. and_then (sql (ok ())) (\<lambda>_. ok a)))"
  obtain q d where m: "?m db = (q, d)" by fastforce
  show ?thesis
  proof (cases q)
    case (Inl e)
    then show ?thesis using assms m by (auto simp: chat_tx_def)
  next
    case (Inr a)
    then show ?thesis using assms m
      by (fastforce simp: chat_tx_def and_then_Inr ok_def dest!: sql_ok_result)
  qed
qed

lemma next_event_seq_result:
  "next_event_seq uid agent key db = (Inr s, db') \<Longrightarrow> s = next_seq (event_seqs uid agent key db) \<and> events_t db' = events_t db"
  by (auto simp: next_event_seq_def read_sql_def event_seqs_def dest!: sql_result)

lemma insert_event_result: "insert_event e db = (Inr (), db') \<Longrightarrow> events_t db' = events_t db @ [e]"
  by (auto simp: insert_event_def dest!: sql_result split: if_splits)

text \<open>Whatever the driver does: the event is stored under the next number, or the log is as before.\<close>

lemma append_event_result:
  assumes numbered: "numbered n (event_seqs uid agent key db)"
    and run: "append_session_event now chatter uid agent key ty data db = (r, db')"
  shows "(\<exists>e. r = Inl e \<and> events_t db' = events_t db)
    \<or> (r = Inr (int n) \<and> events_t db' = events_t db @ [event_of now chatter uid agent key n ty data])"
proof -
  define row where "row s = \<lparr>er_user = uid, er_agent = agent, er_key = key, er_seq = s, er_type = ty,
    er_data = data, er_created = now, er_chatter = chatter\<rparr>" for s
  define body where "body = and_then (next_event_seq uid agent key) (\<lambda>s. and_then (insert_event (row s)) (\<lambda>_. ok s))"
  have body: "s = int n \<and> events_t d' = events_t db @ [row (int n)]"
    if same: "events_t d = events_t db" and stored: "body d = (Inr s, d')" for d d' s
  proof -
    from stored obtain d1 where s: "next_event_seq uid agent key d = (Inr s, d1)"
      and ins: "insert_event (row s) d1 = (Inr (), d')"
      unfolding body_def and_then_Inr by (auto simp: ok_def)
    have "event_seqs uid agent key d = event_seqs uid agent key db" by (simp add: event_seqs_def same)
    then show ?thesis
      using next_event_seq_result [OF s] insert_event_result [OF ins] next_seq_numbered [OF numbered] same by simp
  qed
  show ?thesis
  proof (cases "uid = [] \<or> agent = [] \<or> key = []")
    case True
    then show ?thesis using run by (auto simp: append_session_event_def raise_def)
  next
    case False
    with run have "chat_tx body db = (r, db')"
      by (simp add: append_session_event_def body_def row_def)
    from chat_tx_result [OF this] show ?thesis
    proof (elim disjE exE conjE)
      fix s d d'
      assume r: "r = Inr s" "events_t db' = events_t d'" and "events_t d = events_t db" "body d = (Inr s, d')"
      from body [OF this(3,4)] r show ?thesis by (simp add: event_of_def row_def)
    qed blast
  qed
qed

lemma append_event_seqs:
  "event_seqs uid agent key (db\<lparr>events_t := events_t db @ [event_of now chatter uid agent key n ty data]\<rparr>)
    = event_seqs uid agent key db @ [int n]"
  by (simp add: event_seqs_def tbl_select_def event_of_def of_events_def)

lemma events_since:
  assumes "numbered n (event_seqs uid agent key db)"
    and "list_session_events_since uid agent key since db = (r, db')"
  shows "events_t db' = events_t db \<and> ((\<exists>e. r = Inl e)
    \<or> r = Inr (filter (\<lambda>e. er_seq e > since) (tbl_select (of_events uid agent key) (events_t db))))"
proof -
  let ?sel = "filter (\<lambda>e. er_seq e > since) (tbl_select (of_events uid agent key) (events_t db))"
  have "map er_seq ?sel = filter (\<lambda>s. s > since) (event_seqs uid agent key db)"
    by (simp add: event_seqs_def filter_map comp_def)
  moreover have "sorted (filter (\<lambda>s. s > since) (map int [0..<n]))"
    using sorted_filter [of id "map int [0..<n]"] by (simp add: sorted_iff_nth_mono)
  ultimately have "sorted (map er_seq ?sel)" using assms(1) by (simp add: numbered_def)
  then have "sort_key er_seq ?sel = ?sel" by (rule sort_key_id_if_sorted)
  moreover have "tbl_select (\<lambda>e. of_events uid agent key e \<and> er_seq e > since) (events_t db) = ?sel"
    by (simp add: tbl_select_def conj_commute)
  ultimately show ?thesis using assms(2)
    by (auto simp: list_session_events_since_def read_sql_def dest!: sql_result)
qed

text \<open>The empty database.\<close>

definition demo_chat_db :: chat_db where
  "demo_chat_db = \<lparr>ident_db = \<lparr>users_t = [], webs_t = [], keys_t = [], acl_t = [],
    agents_t = [], owned_t = [], configs_t = [], plan = []\<rparr>, sessions_t = [], archive_t = [], events_t = []\<rparr>"

end
