(* ===== verification/Event_Stream.thy ===== *)
theory Event_Stream
  imports Session_Store
begin

text \<open>
  Live chat events: \<^verbatim>\<open>internal/agent/event_hub.go\<close>, \<^verbatim>\<open>emitEvent\<close>
  of \<^verbatim>\<open>internal/agent/events.go\<close> and the resumable stream handler
  \<^verbatim>\<open>handleChatSubscribe\<close> of \<^verbatim>\<open>internal/setup/handlers.go\<close>.
  First the operations, then the machine in which turns emit while browser tabs join, replay the
  stored events, read live ones and leave, every channel operation a step of its own.
\<close>

section \<open>Events and channels\<close>

text \<open>The data of an event is a map from field names to encoded values, in key order.\<close>

record chat_event =
  ce_type :: string
  ce_data :: "(string \<times> string) list option"

record envelope =
  en_seq :: int
  en_event :: chat_event

record live_chan =
  ch_buf :: "envelope list"
  ch_closed :: bool

record event_hub =
  hub_subs :: "string \<Rightarrow> nat list"
  hub_chans :: "live_chan list"

definition new_event_hub :: event_hub where
  "new_event_hub = \<lparr>hub_subs = (\<lambda>_. []), hub_chans = []\<rparr>"

type_synonym stream_addr = "string \<times> string \<times> string"

definition hub_key :: "stream_addr \<Rightarrow> string" where
  "hub_key a = (case a of (uid, agent, key) \<Rightarrow> uid @ ''/'' @ agent @ ''/'' @ key)"

definition hub_subscribe :: "stream_addr \<Rightarrow> event_hub \<Rightarrow> nat \<times> event_hub" where
  "hub_subscribe a h = (let c = length (hub_chans h); k = hub_key a in
     (c, h\<lparr>hub_subs := (hub_subs h)(k := hub_subs h k @ [c]),
           hub_chans := hub_chans h @ [\<lparr>ch_buf = [], ch_closed = False\<rparr>]\<rparr>))"

definition hub_cleanup :: "stream_addr \<Rightarrow> nat \<Rightarrow> event_hub \<Rightarrow> event_hub" where
  "hub_cleanup a c h = (let k = hub_key a in
     if c \<in> set (hub_subs h k)
     then h\<lparr>hub_subs := (hub_subs h)(k := remove1 c (hub_subs h k)),
            hub_chans := (hub_chans h)[c := (hub_chans h ! c)\<lparr>ch_closed := True\<rparr>]\<rparr>
     else h)"

definition hub_targets :: "stream_addr \<Rightarrow> event_hub \<Rightarrow> nat list" where
  "hub_targets a h = hub_subs h (hub_key a)"

definition chan_room :: nat where "chan_room = 32"

definition chan_full :: "live_chan \<Rightarrow> bool" where
  "chan_full c = (chan_room \<le> length (ch_buf c))"

text \<open>The send that does not block: a full channel is skipped, a closed one panics (\<open>None\<close>).\<close>

definition hub_send :: "envelope \<Rightarrow> nat \<Rightarrow> event_hub \<Rightarrow> event_hub option" where
  "hub_send env c h = (let ch = hub_chans h ! c in
     if ch_closed ch then None
     else if chan_full ch then Some h
     else Some (h\<lparr>hub_chans := (hub_chans h)[c := ch\<lparr>ch_buf := ch_buf ch @ [env]\<rparr>]\<rparr>))"

fun hub_send_all :: "envelope \<Rightarrow> nat list \<Rightarrow> event_hub \<Rightarrow> event_hub option" where
  "hub_send_all env [] h = Some h"
| "hub_send_all env (c # cs) h = (case hub_send env c h of None \<Rightarrow> None | Some h' \<Rightarrow> hub_send_all env cs h')"

definition hub_publish :: "stream_addr \<Rightarrow> envelope \<Rightarrow> event_hub \<Rightarrow> event_hub option" where
  "hub_publish a env h = hub_send_all env (hub_targets a h) h"

section \<open>Emitting\<close>

text \<open>The encoding of an event's data for the table.\<close>

fun encode_fields :: "(string \<times> string) list \<Rightarrow> string" where
  "encode_fields [] = []"
| "encode_fields [(k, v)] = CHR 0x22 # k @ CHR 0x22 # CHR 0x3A # v"
| "encode_fields ((k, v) # rest) = CHR 0x22 # k @ CHR 0x22 # CHR 0x3A # v @ CHR 0x2C # encode_fields rest"

definition encode_data :: "(string \<times> string) list option \<Rightarrow> string" where
  "encode_data d = (case d of None \<Rightarrow> ''null'' | Some fs \<Rightarrow> ''{'' @ encode_fields fs @ ''}'')"

text \<open>What a turn's context carries; the fields say which handles are present.\<close>

record stream_ctx =
  sc_sink :: bool
  sc_hub :: bool
  sc_channel :: bool
  sc_addr :: stream_addr

definition event_persists :: "chat_event \<Rightarrow> bool" where
  "event_persists e = (ce_type e \<noteq> ''content_delta'')"

definition stream_addressed :: "stream_ctx \<Rightarrow> bool" where
  "stream_addressed s = (case sc_addr s of (uid, agent, key) \<Rightarrow> uid \<noteq> [] \<and> key \<noteq> [])"

definition emit_seq :: "instant \<Rightarrow> string \<Rightarrow> stream_ctx option \<Rightarrow> chat_event \<Rightarrow> chat_db \<Rightarrow> int \<times> chat_db" where
  "emit_seq now chatter sc e db = (case sc of None \<Rightarrow> (-1, db) | Some s \<Rightarrow>
     if event_persists e \<and> sc_sink s \<and> stream_addressed s then
       (case sc_addr s of (uid, agent, key) \<Rightarrow>
         (case append_session_event now chatter uid agent key (ce_type e) (encode_data (ce_data e)) db of
            (Inl _, db') \<Rightarrow> (-1, db') | (Inr n, db') \<Rightarrow> (n, db')))
     else (-1, db))"

text \<open>\<^verbatim>\<open>emitEvent\<close>: store, publish, and hand the event to the channel of the request
  or to the one of the older context key. \<open>None\<close> is the panic of a send on a closed channel.\<close>

definition emit_event :: "instant \<Rightarrow> string \<Rightarrow> stream_ctx option \<Rightarrow> bool \<Rightarrow> chat_event \<Rightarrow> chat_db \<Rightarrow> event_hub
    \<Rightarrow> (chat_db \<times> event_hub \<times> chat_event list) option" where
  "emit_event now chatter sc older e db h = (case emit_seq now chatter sc e db of (n, db') \<Rightarrow>
     (let env = \<lparr>en_seq = n, en_event = e\<rparr>;
          sent = (case sc of None \<Rightarrow> Some h
            | Some s \<Rightarrow> if sc_hub s \<and> stream_addressed s then hub_publish (sc_addr s) env h else Some h);
          forward = (case sc of None \<Rightarrow> older | Some s \<Rightarrow> sc_channel s \<or> older)
      in case sent of None \<Rightarrow> None | Some h' \<Rightarrow> Some (db', h', if forward then [e] else [])))"

section \<open>Reading\<close>

text \<open>A frame of the stream: its id line, and the sequence number, type and data of its body.\<close>

record frame =
  fr_id :: "int option"
  fr_seq :: int
  fr_type :: string
  fr_data :: "string option"

definition row_frame :: "event_row \<Rightarrow> frame" where
  "row_frame r = \<lparr>fr_id = Some (er_seq r), fr_seq = er_seq r, fr_type = er_type r,
     fr_data = (if er_data r = [] \<or> er_data r = ''null'' then None else Some (er_data r))\<rparr>"

definition env_frame :: "envelope \<Rightarrow> frame" where
  "env_frame e = \<lparr>fr_id = (if 0 \<le> en_seq e then Some (en_seq e) else None), fr_seq = en_seq e,
     fr_type = ce_type (en_event e), fr_data = map_option (\<lambda>d. encode_data (Some d)) (ce_data (en_event e))\<rparr>"

text \<open>The resume point: the header, then the query parameter, both already parsed.\<close>

definition resume_point :: "int option \<Rightarrow> int option \<Rightarrow> int" where
  "resume_point hdr since = (case since of Some s \<Rightarrow> s | None \<Rightarrow> (case hdr of Some s \<Rightarrow> s | None \<Rightarrow> -1))"

definition replay_rows :: "event_row list \<Rightarrow> int \<Rightarrow> int \<times> frame list" where
  "replay_rows rows since = (foldl (\<lambda>s r. if er_seq r > s then er_seq r else s) since rows, map row_frame rows)"

definition live_event :: "int \<Rightarrow> envelope \<Rightarrow> int \<times> frame list" where
  "live_event since e =
     (if ce_type (en_event e) = ''content_delta'' then (since, [])
      else if 0 \<le> en_seq e \<and> en_seq e \<le> since then (since, [])
      else if 0 \<le> en_seq e then (en_seq e, [env_frame e])
      else (since, [env_frame e]))"

section \<open>The machine\<close>

text \<open>A turn between two emissions; after the event has been stored; or with the channels still
  to send to. A tab that has subscribed; replayed; or left.\<close>

datatype emitter = Ready | Stored envelope | Sending envelope "nat list"

datatype tab_phase = Opening | Live | Gone

record tab =
  tb_chan :: nat
  tb_from :: int
  tb_since :: int
  tb_sent :: "frame list"
  tb_phase :: tab_phase

record sse =
  sse_db :: chat_db
  sse_hub :: event_hub
  sse_turns :: "emitter list"
  sse_tabs :: "tab list"

datatype sse_action = Emit nat instant string chat_event | Target nat | Send nat | Skip nat
  | Join int | Replay nat | Replay_Fails nat | Deliver nat | Leave nat

definition stream_of :: "stream_addr \<Rightarrow> stream_ctx" where
  "stream_of a = \<lparr>sc_sink = True, sc_hub = True, sc_channel = False, sc_addr = a\<rparr>"

abbreviation session_events :: "stream_addr \<Rightarrow> chat_db \<Rightarrow> event_row list" where
  "session_events a db \<equiv> (case a of (uid, agent, key) \<Rightarrow> tbl_select (of_events uid agent key) (events_t db))"

definition list_events :: "stream_addr \<Rightarrow> int \<Rightarrow> event_row list chat_step" where
  "list_events a since = (case a of (uid, agent, key) \<Rightarrow> list_session_events_since uid agent key since)"

abbreviation chan_at :: "sse \<Rightarrow> nat \<Rightarrow> live_chan" where
  "chan_at s c \<equiv> hub_chans (sse_hub s) ! c"

text \<open>The steps; \<open>None\<close> where the step cannot be taken, a send on a closed channel included.\<close>

fun sse_act :: "stream_addr \<Rightarrow> sse_action \<Rightarrow> sse \<Rightarrow> sse option" where
  "sse_act a (Emit i now chatter e) s =
     (if i < length (sse_turns s) \<and> sse_turns s ! i = Ready then
       (case emit_seq now chatter (Some (stream_of a)) e (sse_db s) of (n, db') \<Rightarrow>
         Some (s\<lparr>sse_db := db', sse_turns := (sse_turns s)[i := Stored \<lparr>en_seq = n, en_event = e\<rparr>]\<rparr>))
      else None)"
| "sse_act a (Target i) s =
     (if i < length (sse_turns s) then
       (case sse_turns s ! i of
          Stored env \<Rightarrow> Some (s\<lparr>sse_turns := (sse_turns s)[i := Sending env (hub_targets a (sse_hub s))]\<rparr>)
        | Sending env [] \<Rightarrow> Some (s\<lparr>sse_turns := (sse_turns s)[i := Ready]\<rparr>)
        | _ \<Rightarrow> None)
      else None)"
| "sse_act a (Send i) s =
     (if i < length (sse_turns s) then
       (case sse_turns s ! i of
          Sending env (c # cs) \<Rightarrow>
            (if chan_full (chan_at s c) then None
             else case hub_send env c (sse_hub s) of None \<Rightarrow> None
              | Some h' \<Rightarrow> Some (s\<lparr>sse_hub := h', sse_turns := (sse_turns s)[i := Sending env cs]\<rparr>))
        | _ \<Rightarrow> None)
      else None)"
| "sse_act a (Skip i) s =
     (if i < length (sse_turns s) then
       (case sse_turns s ! i of
          Sending env (c # cs) \<Rightarrow>
            (if chan_full (chan_at s c) \<and> hub_send env c (sse_hub s) \<noteq> None
             then Some (s\<lparr>sse_turns := (sse_turns s)[i := Sending env cs]\<rparr>) else None)
        | _ \<Rightarrow> None)
      else None)"
| "sse_act a (Join since) s =
     (case hub_subscribe a (sse_hub s) of (c, h') \<Rightarrow>
       Some (s\<lparr>sse_hub := h', sse_tabs := sse_tabs s @
         [\<lparr>tb_chan = c, tb_from = since, tb_since = since, tb_sent = [], tb_phase = Opening\<rparr>]\<rparr>))"
| "sse_act a (Replay j) s =
     (if j < length (sse_tabs s) \<and> tb_phase (sse_tabs s ! j) = Opening then
       (let t = sse_tabs s ! j in
        case list_events a (tb_since t) (sse_db s) of
          (Inl _, _) \<Rightarrow> None
        | (Inr rows, db') \<Rightarrow> (case replay_rows rows (tb_since t) of (since, fs) \<Rightarrow>
            Some (s\<lparr>sse_db := db', sse_tabs := (sse_tabs s)[j := t\<lparr>tb_since := since,
              tb_sent := tb_sent t @ fs, tb_phase := Live\<rparr>]\<rparr>)))
      else None)"
| "sse_act a (Replay_Fails j) s =
     (if j < length (sse_tabs s) \<and> tb_phase (sse_tabs s ! j) = Opening then
       (let t = sse_tabs s ! j in
        case list_events a (tb_since t) (sse_db s) of
          (Inl _, db') \<Rightarrow> Some (s\<lparr>sse_db := db', sse_tabs := (sse_tabs s)[j := t\<lparr>tb_phase := Live\<rparr>]\<rparr>)
        | (Inr _, _) \<Rightarrow> None)
      else None)"
| "sse_act a (Deliver j) s =
     (if j < length (sse_tabs s) \<and> tb_phase (sse_tabs s ! j) = Live then
       (let t = sse_tabs s ! j; ch = chan_at s (tb_chan t) in
        case ch_buf ch of [] \<Rightarrow> None
        | e # es \<Rightarrow> (case live_event (tb_since t) e of (since, fs) \<Rightarrow>
            Some (s\<lparr>sse_hub := (sse_hub s)\<lparr>hub_chans := (hub_chans (sse_hub s))[tb_chan t := ch\<lparr>ch_buf := es\<rparr>]\<rparr>,
                    sse_tabs := (sse_tabs s)[j := t\<lparr>tb_since := since, tb_sent := tb_sent t @ fs\<rparr>]\<rparr>)))
      else None)"
| "sse_act a (Leave j) s =
     (if j < length (sse_tabs s) \<and> tb_phase (sse_tabs s ! j) \<noteq> Gone then
       (let t = sse_tabs s ! j in
        Some (s\<lparr>sse_hub := hub_cleanup a (tb_chan t) (sse_hub s),
                sse_tabs := (sse_tabs s)[j := t\<lparr>tb_phase := Gone\<rparr>]\<rparr>))
      else None)"

text \<open>Runs whose actions satisfy a predicate.\<close>

inductive sse_reach :: "stream_addr \<Rightarrow> (sse_action \<Rightarrow> bool) \<Rightarrow> sse \<Rightarrow> sse \<Rightarrow> bool" for a :: stream_addr and ok_act :: "sse_action \<Rightarrow> bool" and s0 :: sse where
  start: "sse_reach a ok_act s0 s0"
| action: "sse_reach a ok_act s0 s \<Longrightarrow> ok_act act \<Longrightarrow> sse_act a act s = Some s' \<Longrightarrow> sse_reach a ok_act s0 s'"

text \<open>Nothing lost: no full channel and no failed replay.\<close>

fun lossless :: "sse_action \<Rightarrow> bool" where
  "lossless (Skip i) = False"
| "lossless (Replay_Fails j) = False"
| "lossless act = True"

definition sse_start :: "chat_db \<Rightarrow> nat \<Rightarrow> sse" where
  "sse_start db n = \<lparr>sse_db = db, sse_hub = new_event_hub, sse_turns = replicate n Ready, sse_tabs = []\<rparr>"

text \<open>A turn about to send to a channel that has been closed: the program stops.\<close>

definition sse_panics :: "sse \<Rightarrow> bool" where
  "sse_panics s = list_ex (\<lambda>e. case e of Sending env (c # cs) \<Rightarrow> ch_closed (chan_at s c) | _ \<Rightarrow> False) (sse_turns s)"

definition sse_run :: "stream_addr \<Rightarrow> sse_action list \<Rightarrow> sse \<Rightarrow> sse option" where
  "sse_run a acts s = foldl (\<lambda>r act. case r of None \<Rightarrow> None | Some s' \<Rightarrow> sse_act a act s') (Some s) acts"

section \<open>What a tab has seen\<close>

definition stored_frames :: "envelope list \<Rightarrow> frame list" where
  "stored_frames es = map env_frame (filter (\<lambda>e. 0 \<le> en_seq e) es)"

definition stored_sent :: "tab \<Rightarrow> frame list" where
  "stored_sent t = filter (\<lambda>f. 0 \<le> fr_seq f) (tb_sent t)"

fun pending :: "emitter \<Rightarrow> nat \<Rightarrow> envelope list" where
  "pending Ready c = []"
| "pending (Stored e) c = [e]"
| "pending (Sending e cs) c = (if c \<in> set cs then [e] else [])"

text \<open>The log as frames: the frame of number \<open>i\<close> at place \<open>i\<close>.\<close>

definition indexed :: "frame list \<Rightarrow> bool" where
  "indexed F = (\<forall>i < length F. fr_seq (F ! i) = int i)"

definition tab_ok :: "frame list \<Rightarrow> frame list \<Rightarrow> tab \<Rightarrow> bool" where
  "tab_ok F up t = (let from = nat (tb_from t + 1); upto = nat (tb_since t + 1) in
     case tb_phase t of
       Opening \<Rightarrow> tb_sent t = [] \<and> tb_since t = tb_from t \<and> (\<exists>m \<le> length F. up = drop m F)
     | Live \<Rightarrow> stored_sent t = drop from (take upto F) \<and> tb_from t \<le> tb_since t
         \<and> (upto \<le> length F \<or> tb_since t = tb_from t) \<and> (\<exists>m \<le> length F. m \<le> upto \<and> up = drop m F)
     | Gone \<Rightarrow> \<exists>m \<le> length F. stored_sent t = drop from (take m F))"

lemma stored_frames_simps [simp]:
  "stored_frames [] = []"
  "stored_frames (e # es) = (if 0 \<le> en_seq e then env_frame e # stored_frames es else stored_frames es)"
  "stored_frames (xs @ ys) = stored_frames xs @ stored_frames ys"
  by (simp_all add: stored_frames_def)

lemma tab_ok_grow:
  assumes "tab_ok F up t"
  shows "tab_ok (F @ [x]) (up @ [x]) t"
proof (cases "tb_phase t")
  case Opening
  then show ?thesis using assms by (auto simp: tab_ok_def Let_def) (metis append_self_conv diff_is_0_eq drop_0 drop_append le_SucI)
next
  case Live
  let ?upto = "nat (tb_since t + 1)" and ?start = "nat (tb_from t + 1)"
  have "drop ?start (take ?upto (F @ [x])) = drop ?start (take ?upto F)" if "?upto \<le> length F \<or> tb_since t = tb_from t"
    using that by auto
  moreover have "drop m F @ [x] = drop m (F @ [x])" if "m \<le> length F" for m using that by simp
  ultimately show ?thesis using assms Live by (auto simp: tab_ok_def Let_def intro!: le_SucI)
next
  case Gone
  with assms obtain m where "m \<le> length F" "stored_sent t = drop (nat (tb_from t + 1)) (take m F)"
    by (auto simp: tab_ok_def Let_def)
  then have "m \<le> length (F @ [x]) \<and> stored_sent t = drop (nat (tb_from t + 1)) (take m (F @ [x]))" by simp
  with Gone show ?thesis unfolding tab_ok_def Let_def by (simp del: take_append drop_append length_append) blast
qed

lemma tab_ok_cong:
  assumes "tab_ok F up t" and "tb_phase t \<noteq> Gone \<Longrightarrow> up' = up"
  shows "tab_ok F up' t"
  using assms by (cases "tb_phase t") (simp_all add: tab_ok_def)

lemma tab_ok_leave: "tab_ok F up t \<Longrightarrow> tab_ok F up' (t\<lparr>tb_phase := Gone\<rparr>)"
proof (cases "tb_phase t")
  case Live
  assume ok: "tab_ok F up t"
  let ?upto = "nat (tb_since t + 1)" and ?start = "nat (tb_from t + 1)"
  have "\<exists>m \<le> length F. drop ?start (take ?upto F) = drop ?start (take m F)"
    by (cases "?upto \<le> length F") (blast, metis nle_le take_all)
  then show ?thesis using ok Live by (simp add: tab_ok_def Let_def stored_sent_def)
qed (auto simp: tab_ok_def Let_def stored_sent_def intro: exI [of _ 0])

lemma tab_ok_deliver:
  assumes ok: "tab_ok F (stored_frames (e # es) @ rest) t" and live: "tb_phase t = Live" and "indexed F"
    and kept: "0 \<le> en_seq e \<longrightarrow> event_persists (en_event e)" and step: "live_event (tb_since t) e = (since, fs)"
  shows "tab_ok F (stored_frames es @ rest) (t\<lparr>tb_since := since, tb_sent := tb_sent t @ fs\<rparr>)"
proof (cases "0 \<le> en_seq e")
  case False
  with step have "since = tb_since t" "filter (\<lambda>f. 0 \<le> fr_seq f) fs = []"
    by (auto simp: live_event_def env_frame_def split: if_splits)
  then show ?thesis using ok live False by (simp add: tab_ok_def Let_def stored_sent_def)
next
  case True
  let ?upto = "nat (tb_since t + 1)"
  from ok live True obtain m where m: "m \<le> ?upto" "m \<le> length F" "env_frame e # stored_frames es @ rest = drop m F"
    by (auto simp: tab_ok_def Let_def)
  then have less: "m < length F" by (metis drop_all leI list.discI)
  then have head: "F ! m = env_frame e" and tail: "stored_frames es @ rest = drop (Suc m) F"
    using m(3) by (simp_all add: Cons_nth_drop_Suc [symmetric])
  then have seq: "en_seq e = int m" using \<open>indexed F\<close> less by (auto simp: indexed_def env_frame_def dest!: spec [of _ m])
  show ?thesis
  proof (cases "int m \<le> tb_since t")
    case True
    then have "since = tb_since t" "fs = []"
      using step seq kept by (auto simp: live_event_def split: if_splits)
    moreover have "Suc m \<le> ?upto" using True by linarith
    then have "\<exists>k \<le> length F. k \<le> ?upto \<and> stored_frames es @ rest = drop k F"
      using tail less by (intro exI [of _ "Suc m"]) simp
    ultimately show ?thesis using ok live by (auto simp: tab_ok_def Let_def stored_sent_def)
  next
    case False
    then have upto: "?upto = m" and "since = int m" "fs = [F ! m]"
      using step seq kept m(1) head by (auto simp: live_event_def event_persists_def split: if_splits)
    moreover have "fr_seq (F ! m) = int m" using head seq by (simp add: env_frame_def)
    moreover have "nat (tb_from t + 1) \<le> m" using ok live upto by (auto simp: tab_ok_def Let_def)
    moreover have "\<exists>k \<le> length F. k \<le> Suc m \<and> stored_frames es @ rest = drop k F"
      using tail less by (intro exI [of _ "Suc m"]) simp
    moreover have "stored_sent t = drop (nat (tb_from t + 1)) (take m F)" "tb_from t \<le> tb_since t"
      using ok live upto by (simp_all add: tab_ok_def Let_def)
    moreover have "nat (int m + 1) = Suc m" by simp
    ultimately show ?thesis using live less False
      by (simp add: tab_ok_def Let_def stored_sent_def take_Suc_conv_app_nth)
  qed
qed

lemma numbered_nth: "map f L = map int [0..<length L] \<Longrightarrow> i < length L \<Longrightarrow> f (L ! i) = int i"
  by (drule arg_cong [where f = "\<lambda>l. l ! i"]) simp

lemma numbered_length: "numbered n xs \<Longrightarrow> length xs = n"
  by (simp add: numbered_def)

lemma tab_ok_replay:
  assumes ok: "tab_ok F up t" and phase: "tb_phase t = Opening" and F: "F = map row_frame L"
    and numbered: "map er_seq L = map int [0..<length L]"
  shows "case replay_rows (filter (\<lambda>e. er_seq e > tb_since t) L) (tb_since t) of (since, fs) \<Rightarrow>
    tab_ok F up (t\<lparr>tb_since := since, tb_sent := tb_sent t @ fs, tb_phase := Live\<rparr>)"
proof -
  let ?from = "tb_from t" and ?n = "length L"
  have t: "tb_since t = ?from" "tb_sent t = []" and up: "\<exists>m \<le> ?n. up = drop m F"
    using ok phase F by (simp_all add: tab_ok_def Let_def)
  have seq: "er_seq (L ! i) = int i" if "i < ?n" for i
    using numbered that by (rule numbered_nth)
  have rows: "filter (\<lambda>e. er_seq e > ?from) L = drop (nat (?from + 1)) L"
  proof -
    let ?k = "nat (?from + 1)"
    have "filter (\<lambda>e. er_seq e > ?from) (take ?k L) = []"
      using seq by (auto simp: filter_empty_conv in_set_conv_nth)
    moreover have "filter (\<lambda>e. er_seq e > ?from) (drop ?k L) = drop ?k L"
      using seq by (auto simp: filter_id_conv in_set_conv_nth)
    ultimately show ?thesis
      using filter_append [of "\<lambda>e. er_seq e > ?from" "take ?k L" "drop ?k L"] by simp
  qed
  have fold: "foldl (\<lambda>s r. if er_seq r > s then er_seq r else s) s (drop k L) = (if k < ?n then int (?n - 1) else s)"
    if "s < int k" for s k
    using that
  proof (induction "?n - k" arbitrary: s k)
    case (Suc d)
    then have k: "k < ?n" by linarith
    then have "drop k L = L ! k # drop (Suc k) L" by (rule Cons_nth_drop_Suc [symmetric])
    with Suc.prems seq [OF k] have "foldl (\<lambda>s r. if er_seq r > s then er_seq r else s) s (drop k L)
        = foldl (\<lambda>s r. if er_seq r > s then er_seq r else s) (int k) (drop (Suc k) L)" by simp
    also have "\<dots> = int (?n - 1)" using Suc.hyps(1) [of "Suc k" "int k"] Suc.hyps(2) k by auto
    finally show ?case using k by simp
  qed simp
  let ?k = "nat (?from + 1)"
  have sent: "filter (\<lambda>f. 0 \<le> fr_seq f) (map row_frame (drop ?k L)) = drop ?k F"
    unfolding F drop_map filter_id_conv using seq by (auto simp: row_frame_def in_set_conv_nth)
  have since: "foldl (\<lambda>s r. if er_seq r > s then er_seq r else s) ?from (drop ?k L) = (if ?k < ?n then int (?n - 1) else ?from)"
    by (rule fold) linarith
  show ?thesis
  proof (cases "?k < ?n")
    case True
    then have "nat (int (?n - 1) + 1) = ?n" by simp
    with True up F t rows sent since show ?thesis
      by (simp add: replay_rows_def tab_ok_def Let_def stored_sent_def)
  next
    case False
    then have "drop ?k F = []" using F by simp
    with False up F t rows sent since show ?thesis
      by (auto simp add: replay_rows_def tab_ok_def Let_def stored_sent_def)
  qed
qed

section \<open>The invariant of one turn and its tabs\<close>

definition log_frames :: "stream_addr \<Rightarrow> sse \<Rightarrow> frame list" where
  "log_frames a s = map row_frame (session_events a (sse_db s))"

definition upcoming :: "sse \<Rightarrow> emitter \<Rightarrow> nat \<Rightarrow> frame list" where
  "upcoming s tr c = stored_frames (ch_buf (chan_at s c)) @ stored_frames (pending tr c)"

definition env_ok :: "envelope \<Rightarrow> bool" where
  "env_ok e = (0 \<le> en_seq e \<longrightarrow> event_persists (en_event e))"

fun turn_ok :: "frame list \<Rightarrow> nat \<Rightarrow> emitter \<Rightarrow> bool" where
  "turn_ok F n Ready = True"
| "turn_ok F n (Stored e) = (env_ok e \<and> (\<exists>m \<le> length F. stored_frames [e] = drop m F))"
| "turn_ok F n (Sending e cs) = (env_ok e \<and> distinct cs \<and> (\<forall>c \<in> set cs. c < n))"

definition chans_ok :: "stream_addr \<Rightarrow> sse \<Rightarrow> bool" where
  "chans_ok a s = (distinct (hub_targets a (sse_hub s))
     \<and> (\<forall>c \<in> set (hub_targets a (sse_hub s)). c < length (hub_chans (sse_hub s)))
     \<and> (\<forall>ch \<in> set (hub_chans (sse_hub s)). \<forall>e \<in> set (ch_buf ch). env_ok e)
     \<and> distinct (map tb_chan (sse_tabs s))
     \<and> (\<forall>t \<in> set (sse_tabs s). tb_chan t < length (hub_chans (sse_hub s))
          \<and> (tb_phase t \<noteq> Gone \<longrightarrow> tb_chan t \<in> set (hub_targets a (sse_hub s)))))"

definition log_ok :: "stream_addr \<Rightarrow> sse \<Rightarrow> bool" where
  "log_ok a s = (let L = session_events a (sse_db s) in map er_seq L = map int [0..<length L])"

definition sse_inv :: "stream_addr \<Rightarrow> sse \<Rightarrow> bool" where
  "sse_inv a s = (\<exists>tr. sse_turns s = [tr] \<and> log_ok a s \<and> chans_ok a s \<and> turn_ok (log_frames a s) (length (hub_chans (sse_hub s))) tr
     \<and> (\<forall>t \<in> set (sse_tabs s). tab_ok (log_frames a s) (upcoming s tr (tb_chan t)) t))"

lemma log_indexed: "log_ok a s \<Longrightarrow> indexed (log_frames a s)"
  using numbered_nth [of er_seq "session_events a (sse_db s)"]
  by (simp add: log_ok_def Let_def indexed_def log_frames_def row_frame_def)

lemma log_numbered:
  "log_ok (uid, agent, key) s \<longleftrightarrow> (\<exists>n. numbered n (event_seqs uid agent key (sse_db s)))"
proof
  assume "\<exists>n. numbered n (event_seqs uid agent key (sse_db s))"
  then obtain n where n: "numbered n (event_seqs uid agent key (sse_db s))" ..
  with numbered_length [OF n] show "log_ok (uid, agent, key) s"
    by (simp add: log_ok_def Let_def numbered_def event_seqs_def)
qed (auto simp: log_ok_def numbered_def event_seqs_def Let_def)

lemma encode_frame: "row_frame (event_of now chatter uid agent key n (ce_type e) (encode_data (ce_data e)))
    = env_frame \<lparr>en_seq = int n, en_event = e\<rparr>"
  by (cases "ce_data e") (simp_all add: row_frame_def env_frame_def event_of_def encode_data_def)

text \<open>Emitting: the log is as before and the event has no number, or it has grown by the event.\<close>

lemma emit_seq_log:
  assumes "log_ok a s" and "emit_seq now chatter (Some (stream_of a)) e (sse_db s) = (n, db')"
  shows "log_ok a (s\<lparr>sse_db := db'\<rparr>) \<and> env_ok \<lparr>en_seq = n, en_event = e\<rparr> \<and>
    log_frames a (s\<lparr>sse_db := db'\<rparr>) = log_frames a s @ stored_frames [\<lparr>en_seq = n, en_event = e\<rparr>]"
proof -
  obtain uid agent key where a: "a = (uid, agent, key)" by (cases a)
  let ?data = "encode_data (ce_data e)"
  let ?row = "\<lambda>k. event_of now chatter uid agent key k (ce_type e) ?data"
  obtain k where k: "numbered k (event_seqs uid agent key (sse_db s))" using assms(1) a log_numbered by auto
  obtain r d where run: "append_session_event now chatter uid agent key (ce_type e) ?data (sse_db s) = (r, d)" by fastforce
  consider "n = -1" "events_t db' = events_t (sse_db s)"
    | "event_persists e" "n = int k" "events_t db' = events_t (sse_db s) @ [?row k]"
    using assms(2) run append_event_result [OF k run]
    by (auto simp: emit_seq_def stream_of_def a split: if_splits sum.splits)
  then show ?thesis
  proof cases
    case 1
    then show ?thesis using assms(1) by (simp add: log_ok_def log_frames_def env_ok_def a)
  next
    case 2
    have sel: "session_events a db' = session_events a (sse_db s) @ [?row k]"
      using 2(3) by (simp add: a tbl_select_def event_of_def of_events_def)
    have "er_seq (?row k) = int k" by (simp add: event_of_def)
    moreover have "length (session_events a (sse_db s)) = k" 
      using numbered_length [OF k] a by (simp add: event_seqs_def)
    ultimately have "log_ok a (s\<lparr>sse_db := db'\<rparr>)" using assms(1) sel by (simp add: log_ok_def Let_def)
    then show ?thesis using 2 sel encode_frame by (simp add: env_ok_def log_frames_def)
  qed
qed

lemma sse_invI:
  assumes "sse_turns s = [tr]" "log_ok a s" "chans_ok a s"
    and "turn_ok (log_frames a s) (length (hub_chans (sse_hub s))) tr"
    and "\<And>t. t \<in> set (sse_tabs s) \<Longrightarrow> tab_ok (log_frames a s) (upcoming s tr (tb_chan t)) t"
  shows "sse_inv a s"
  using assms by (auto simp: sse_inv_def)

lemma sse_invE:
  assumes "sse_inv a s"
  obtains tr where "sse_turns s = [tr]" "log_ok a s" "chans_ok a s"
    and "turn_ok (log_frames a s) (length (hub_chans (sse_hub s))) tr"
    and "\<And>t. t \<in> set (sse_tabs s) \<Longrightarrow> tab_ok (log_frames a s) (upcoming s tr (tb_chan t)) t"
  using assms by (auto simp: sse_inv_def)

lemma chans_ok_cong: "chans_ok a (s\<lparr>sse_turns := tr\<rparr>) = chans_ok a s" "chans_ok a (s\<lparr>sse_db := db\<rparr>) = chans_ok a s"
  by (simp_all add: chans_ok_def)

lemma inv_emit:
  assumes "sse_inv a s" and "sse_act a (Emit i now chatter e) s = Some s'"
  shows "sse_inv a s'"
  using assms(1)
proof (rule sse_invE)
  fix tr
  assume inv: "sse_turns s = [tr]" "log_ok a s" "chans_ok a s"
    and tabs: "\<And>t. t \<in> set (sse_tabs s) \<Longrightarrow> tab_ok (log_frames a s) (upcoming s tr (tb_chan t)) t"
  obtain n db where emit: "emit_seq now chatter (Some (stream_of a)) e (sse_db s) = (n, db)" by fastforce
  let ?env = "\<lparr>en_seq = n, en_event = e\<rparr>"
  have tr: "tr = Ready" and s': "s' = s\<lparr>sse_db := db, sse_turns := [Stored ?env]\<rparr>"
    using assms(2) inv(1) emit by (auto split: if_splits)
  from emit_seq_log [OF inv(2) emit]
  have log: "log_ok a s'" and env: "env_ok ?env" and grown: "log_frames a s' = log_frames a s @ stored_frames [?env]"
    by (simp_all add: s' log_ok_def log_frames_def)
  show ?thesis
  proof (rule sse_invI)
    fix t assume "t \<in> set (sse_tabs s')"
    then have "tab_ok (log_frames a s) (upcoming s tr (tb_chan t)) t" using tabs by (simp add: s')
    then have "tab_ok (log_frames a s @ stored_frames [?env]) (upcoming s tr (tb_chan t) @ stored_frames [?env]) t"
      using tab_ok_grow by simp
    moreover have "upcoming s' (Stored ?env) (tb_chan t) = upcoming s tr (tb_chan t) @ stored_frames [?env]"
      by (simp add: upcoming_def s' tr)
    ultimately show "tab_ok (log_frames a s') (upcoming s' (Stored ?env) (tb_chan t)) t"
      unfolding grown by metis
  next
    have "\<exists>m \<le> length (log_frames a s'). stored_frames [?env] = drop m (log_frames a s')"
      by (rule exI [of _ "length (log_frames a s)"]) (simp add: grown)
    then show "turn_ok (log_frames a s') (length (hub_chans (sse_hub s'))) (Stored ?env)" using env by simp
  qed (use inv log in \<open>simp_all add: s' chans_ok_def\<close>)
qed

lemma inv_target:
  assumes "sse_inv a s" and "sse_act a (Target i) s = Some s'"
  shows "sse_inv a s'"
  using assms(1)
proof (rule sse_invE)
  fix tr
  assume inv: "sse_turns s = [tr]" "log_ok a s" "chans_ok a s"
    and turn: "turn_ok (log_frames a s) (length (hub_chans (sse_hub s))) tr"
    and tabs: "\<And>t. t \<in> set (sse_tabs s) \<Longrightarrow> tab_ok (log_frames a s) (upcoming s tr (tb_chan t)) t"
  obtain tr' where s': "s' = s\<lparr>sse_turns := [tr']\<rparr>"
    and tr': "(\<exists>e. tr = Stored e \<and> tr' = Sending e (hub_targets a (sse_hub s))) \<or> (\<exists>e. tr = Sending e [] \<and> tr' = Ready)"
    using assms(2) inv(1) by (auto split: if_splits emitter.splits list.splits)
  show ?thesis
  proof (rule sse_invI)
    fix t assume t: "t \<in> set (sse_tabs s')"
    have "tb_phase t \<noteq> Gone \<Longrightarrow> upcoming s' tr' (tb_chan t) = upcoming s tr (tb_chan t)"
      using tr' inv(3) t by (auto simp: upcoming_def s' chans_ok_def)
    moreover have "log_frames a s' = log_frames a s" by (simp add: s' log_frames_def)
    ultimately show "tab_ok (log_frames a s') (upcoming s' tr' (tb_chan t)) t"
      using tabs t by (auto simp: s' intro: tab_ok_cong)
  qed (use inv turn tr' in \<open>auto simp: s' chans_ok_def log_ok_def log_frames_def\<close>)
qed

lemma inv_send:
  assumes "sse_inv a s" and "sse_act a (Send i) s = Some s'"
  shows "sse_inv a s'"
  using assms(1)
proof (rule sse_invE)
  fix tr
  let ?chans = "hub_chans (sse_hub s)"
  assume inv: "sse_turns s = [tr]" "log_ok a s" "chans_ok a s"
    and turn: "turn_ok (log_frames a s) (length ?chans) tr"
    and tabs: "\<And>t. t \<in> set (sse_tabs s) \<Longrightarrow> tab_ok (log_frames a s) (upcoming s tr (tb_chan t)) t"
  obtain e c cs where tr: "tr = Sending e (c # cs)"
    and s': "s' = s\<lparr>sse_hub := (sse_hub s)\<lparr>hub_chans := ?chans[c := (?chans ! c)\<lparr>ch_buf := ch_buf (?chans ! c) @ [e]\<rparr>]\<rparr>,
      sse_turns := [Sending e cs]\<rparr>"
    using assms(2) inv(1) by (auto simp: hub_send_def Let_def split: if_splits emitter.splits list.splits)
  have c: "c < length ?chans" "c \<notin> set cs" and e: "env_ok e" using turn tr by auto
  have log: "log_frames a s' = log_frames a s" by (simp add: s' log_frames_def)
  have "env_ok x" if "ch \<in> set (hub_chans (sse_hub s'))" "x \<in> set (ch_buf ch)" for ch x
    using that inv(3) e c(1) set_update_subset_insert [of ?chans c] nth_mem [OF c(1)]
    by (fastforce simp: s' chans_ok_def)
  then have chans: "chans_ok a s'" using inv(3) by (simp add: s' chans_ok_def hub_targets_def)
  show ?thesis
  proof (rule sse_invI)
    fix t assume t: "t \<in> set (sse_tabs s')"
    have "upcoming s' (Sending e cs) (tb_chan t) = upcoming s tr (tb_chan t)"
      using c by (cases "tb_chan t = c") (auto simp: upcoming_def s' tr)
    then show "tab_ok (log_frames a s') (upcoming s' (Sending e cs) (tb_chan t)) t"
      using tabs t log by (simp add: s')
  qed (use inv turn tr chans in \<open>simp_all add: s' log_ok_def log_frames_def\<close>)
qed

lemma inv_join:
  assumes "sse_inv a s" and "sse_act a (Join since) s = Some s'"
  shows "sse_inv a s'"
  using assms(1)
proof (rule sse_invE)
  fix tr
  let ?chans = "hub_chans (sse_hub s)"
  let ?new = "\<lparr>tb_chan = length ?chans, tb_from = since, tb_since = since, tb_sent = [], tb_phase = Opening\<rparr>"
  assume inv: "sse_turns s = [tr]" "log_ok a s" "chans_ok a s"
    and turn: "turn_ok (log_frames a s) (length ?chans) tr"
    and tabs: "\<And>t. t \<in> set (sse_tabs s) \<Longrightarrow> tab_ok (log_frames a s) (upcoming s tr (tb_chan t)) t"
  have s': "sse_tabs s' = sse_tabs s @ [?new]" "sse_turns s' = [tr]" "sse_db s' = sse_db s"
    and hub: "hub_chans (sse_hub s') = ?chans @ [\<lparr>ch_buf = [], ch_closed = False\<rparr>]"
      "hub_targets a (sse_hub s') = hub_targets a (sse_hub s) @ [length ?chans]"
    using assms(2) inv(1) by (auto simp: hub_subscribe_def Let_def hub_targets_def)
  have log: "log_frames a s' = log_frames a s" by (simp add: s' log_frames_def)
  show ?thesis
  proof (rule sse_invI)
    fix t assume "t \<in> set (sse_tabs s')"
    then consider "t \<in> set (sse_tabs s)" | "t = ?new" using s' by auto
    then show "tab_ok (log_frames a s') (upcoming s' tr (tb_chan t)) t"
    proof cases
      case 1
      then have "upcoming s' tr (tb_chan t) = upcoming s tr (tb_chan t)"
        using inv(3) by (simp add: upcoming_def hub nth_append chans_ok_def)
      with 1 show ?thesis using tabs log by simp
    next
      case 2
      have "\<exists>m \<le> length (log_frames a s). upcoming s' tr (length ?chans) = drop m (log_frames a s)"
        using turn by (cases tr) (auto simp: upcoming_def hub intro: exI [of _ "length (log_frames a s)"])
      with 2 show ?thesis using log by (simp add: tab_ok_def)
    qed
  next
    show "turn_ok (log_frames a s') (length (hub_chans (sse_hub s'))) tr"
      using turn log hub by (cases tr) auto
    show "chans_ok a s'" using inv(3) by (auto simp: chans_ok_def hub s' intro: less_SucI)
  qed (use inv s' in \<open>simp_all add: log_ok_def\<close>)
qed

lemma tabs_update:
  assumes "t \<in> set (ts[j := t'])" and "\<And>k. k < length ts \<Longrightarrow> k \<noteq> j \<Longrightarrow> P (ts ! k)" and "j < length ts \<Longrightarrow> P t'"
  shows "P t"
proof -
  obtain i where "i < length ts" "t = ts[j := t'] ! i" using assms(1) by (auto simp: in_set_conv_nth)
  then show ?thesis using assms(2,3) by (cases "i = j") auto
qed

lemma map_tabs_update: "tb_chan t' = tb_chan (ts ! j) \<Longrightarrow> map tb_chan (ts[j := t']) = map tb_chan ts"
  by (metis list_update_id map_update)

text \<open>A step of one tab: the others keep their channel, as channels are not shared.\<close>

lemma chans_ok_tab:
  assumes "chans_ok a s" and "j < length (sse_tabs s)" and "tb_chan t' = tb_chan (sse_tabs s ! j)"
    and "tb_phase t' \<noteq> Gone \<Longrightarrow> tb_phase (sse_tabs s ! j) \<noteq> Gone"
  shows "chans_ok a (s\<lparr>sse_tabs := (sse_tabs s)[j := t']\<rparr>)"
proof -
  have "sse_tabs s ! j \<in> set (sse_tabs s)" using assms(2) by simp
  moreover have "set ((sse_tabs s)[j := t']) \<subseteq> insert t' (set (sse_tabs s))" by (rule set_update_subset_insert)
  ultimately show ?thesis using assms unfolding chans_ok_def by (auto simp: map_tabs_update dest!: subsetD)
qed

lemma other_chan:
  assumes "chans_ok a s" and "j < length (sse_tabs s)" and "k < length (sse_tabs s)" and "j \<noteq> k"
  shows "tb_chan (sse_tabs s ! k) \<noteq> tb_chan (sse_tabs s ! j)"
  using assms by (auto simp: chans_ok_def distinct_conv_nth)

lemma inv_replay:
  assumes "sse_inv a s" and "sse_act a (Replay j) s = Some s'"
  shows "sse_inv a s'"
  using assms(1)
proof (rule sse_invE)
  fix tr
  let ?L = "session_events a (sse_db s)" and ?t = "sse_tabs s ! j"
  assume inv: "sse_turns s = [tr]" "log_ok a s" "chans_ok a s"
    and turn: "turn_ok (log_frames a s) (length (hub_chans (sse_hub s))) tr"
    and tabs: "\<And>t. t \<in> set (sse_tabs s) \<Longrightarrow> tab_ok (log_frames a s) (upcoming s tr (tb_chan t)) t"
  obtain rows db since fs where j: "j < length (sse_tabs s)" "tb_phase ?t = Opening"
    and query: "list_events a (tb_since ?t) (sse_db s) = (Inr rows, db)"
    and rep: "replay_rows rows (tb_since ?t) = (since, fs)"
    and s': "s' = s\<lparr>sse_db := db, sse_tabs := (sse_tabs s)[j := ?t\<lparr>tb_since := since, tb_sent := tb_sent ?t @ fs, tb_phase := Live\<rparr>]\<rparr>"
    using assms(2) by (auto simp: Let_def split: if_splits prod.splits sum.splits)
  obtain uid agent key where a: "a = (uid, agent, key)" by (cases a)
  obtain n where n: "numbered n (event_seqs uid agent key (sse_db s))" using inv(2) a log_numbered by auto
  have rows: "rows = filter (\<lambda>e. er_seq e > tb_since ?t) ?L" and db: "events_t db = events_t (sse_db s)"
    using events_since [OF n query [unfolded list_events_def a prod.case]] a by auto
  have log: "log_frames a s' = log_frames a s" by (simp add: s' log_frames_def db a)
  have up: "upcoming s' tr c = upcoming s tr c" for c by (simp add: upcoming_def s')
  have "tab_ok (log_frames a s) (upcoming s tr (tb_chan ?t)) (?t\<lparr>tb_since := since, tb_sent := tb_sent ?t @ fs, tb_phase := Live\<rparr>)"
    using tab_ok_replay [of "log_frames a s" "upcoming s tr (tb_chan ?t)" ?t ?L] tabs j inv(2) rep
    by (simp add: log_frames_def rows log_ok_def Let_def)
  moreover have "chans_ok a s'"
    using chans_ok_tab [OF inv(3) j(1), of "?t\<lparr>tb_since := since, tb_sent := tb_sent ?t @ fs, tb_phase := Live\<rparr>"] j(2)
    by (simp add: s' chans_ok_def)
  moreover have "tab_ok (log_frames a s) (upcoming s tr (tb_chan t)) t" if "t \<in> set (sse_tabs s')" for t
    using that [unfolded s', simplified] by (rule tabs_update) (use tabs calculation(1) in auto)
  ultimately show ?thesis
    using inv(1,2) turn log up by (intro sse_invI [of _ tr]) (simp_all, simp_all add: s' log_ok_def db a)
qed

lemma inv_deliver:
  assumes "sse_inv a s" and "sse_act a (Deliver j) s = Some s'"
  shows "sse_inv a s'"
  using assms(1)
proof (rule sse_invE)
  fix tr
  let ?t = "sse_tabs s ! j" and ?chans = "hub_chans (sse_hub s)"
  let ?c = "tb_chan ?t"
  assume inv: "sse_turns s = [tr]" "log_ok a s" "chans_ok a s"
    and turn: "turn_ok (log_frames a s) (length (hub_chans (sse_hub s))) tr"
    and tabs: "\<And>t. t \<in> set (sse_tabs s) \<Longrightarrow> tab_ok (log_frames a s) (upcoming s tr (tb_chan t)) t"
  obtain e es since fs where j: "j < length (sse_tabs s)" "tb_phase ?t = Live"
    and buf: "ch_buf (?chans ! ?c) = e # es" and step: "live_event (tb_since ?t) e = (since, fs)"
    and s': "s' = s\<lparr>sse_hub := (sse_hub s)\<lparr>hub_chans := ?chans[?c := (?chans ! ?c)\<lparr>ch_buf := es\<rparr>]\<rparr>,
      sse_tabs := (sse_tabs s)[j := ?t\<lparr>tb_since := since, tb_sent := tb_sent ?t @ fs\<rparr>]\<rparr>"
    using assms(2) by (auto simp: Let_def split: if_splits prod.splits list.splits)
  let ?t' = "?t\<lparr>tb_since := since, tb_sent := tb_sent ?t @ fs\<rparr>"
  have c: "?c < length ?chans" using inv(3) j(1) by (simp add: chans_ok_def)
  then have bufs: "env_ok x" if "x \<in> set (e # es)" for x
    using inv(3) that nth_mem [OF c] buf unfolding chans_ok_def by metis
  have log: "log_frames a s' = log_frames a s" by (simp add: s' log_frames_def)
  have "tab_ok (log_frames a s) (stored_frames es @ stored_frames (pending tr ?c)) ?t'"
  proof (rule tab_ok_deliver [OF _ j(2) log_indexed [OF inv(2)] _ step])
    show "tab_ok (log_frames a s) (stored_frames (e # es) @ stored_frames (pending tr ?c)) ?t"
      using tabs [of ?t] j(1) unfolding upcoming_def buf by simp
  qed (use bufs [of e] in \<open>simp add: env_ok_def\<close>)
  then have this_tab: "tab_ok (log_frames a s') (upcoming s' tr (tb_chan ?t')) ?t'"
    unfolding log using c by (simp add: upcoming_def s')
  have others: "tab_ok (log_frames a s') (upcoming s' tr (tb_chan t)) t" if "t \<in> set (sse_tabs s')" for t
    using that [unfolded s', simplified]
  proof (rule tabs_update)
    fix k assume k: "k < length (sse_tabs s)" "k \<noteq> j"
    with other_chan [OF inv(3) j(1) k(1)] have "upcoming s' tr (tb_chan (sse_tabs s ! k)) = upcoming s tr (tb_chan (sse_tabs s ! k))"
      by (simp add: upcoming_def s')
    then show "tab_ok (log_frames a s') (upcoming s' tr (tb_chan (sse_tabs s ! k))) (sse_tabs s ! k)"
      using tabs k(1) log by simp
  qed (rule this_tab)
  have "env_ok x" if "ch \<in> set (hub_chans (sse_hub s'))" "x \<in> set (ch_buf ch)" for ch x
  proof -
    have "ch = (?chans ! ?c)\<lparr>ch_buf := es\<rparr> \<or> ch \<in> set ?chans"
      using that(1) set_update_subset_insert [of ?chans ?c] by (auto simp: s')
    then show ?thesis using that(2) inv(3) bufs by (auto simp: chans_ok_def)
  qed
  then have "chans_ok a s'"
    using chans_ok_tab [OF inv(3) j(1), of ?t'] by (simp add: s' chans_ok_def hub_targets_def)
  then show ?thesis
    using inv turn log others by (intro sse_invI [of _ tr]) (simp_all add: s' log_ok_def)
qed

lemma inv_leave:
  assumes "sse_inv a s" and "sse_act a (Leave j) s = Some s'"
  shows "sse_inv a s'"
  using assms(1)
proof (rule sse_invE)
  fix tr
  let ?t = "sse_tabs s ! j" and ?chans = "hub_chans (sse_hub s)"
  let ?c = "tb_chan ?t" and ?t' = "(sse_tabs s ! j)\<lparr>tb_phase := Gone\<rparr>"
  assume inv: "sse_turns s = [tr]" "log_ok a s" "chans_ok a s"
    and turn: "turn_ok (log_frames a s) (length (hub_chans (sse_hub s))) tr"
    and tabs: "\<And>t. t \<in> set (sse_tabs s) \<Longrightarrow> tab_ok (log_frames a s) (upcoming s tr (tb_chan t)) t"
  have j: "j < length (sse_tabs s)" "tb_phase ?t \<noteq> Gone"
    and s': "sse_turns s' = [tr]" "sse_db s' = sse_db s" "sse_tabs s' = (sse_tabs s)[j := ?t']"
    and hub: "sse_hub s' = hub_cleanup a ?c (sse_hub s)"
    using assms(2) inv(1) by (auto simp: Let_def split: if_splits)
  have c: "?c < length ?chans" "?c \<in> set (hub_targets a (sse_hub s))"
    using inv(3) j by (auto simp: chans_ok_def)
  have chans: "hub_chans (sse_hub s') = ?chans[?c := (?chans ! ?c)\<lparr>ch_closed := True\<rparr>]"
    and targets: "hub_targets a (sse_hub s') = remove1 ?c (hub_targets a (sse_hub s))"
    using c(2) by (simp_all add: hub hub_cleanup_def hub_targets_def Let_def)
  have bufs: "ch_buf (hub_chans (sse_hub s') ! k) = ch_buf (?chans ! k)" for k
    using c by (cases "k = ?c") (simp_all add: chans)
  have log: "log_frames a s' = log_frames a s" and up: "upcoming s' tr k = upcoming s tr k" for k
    by (simp_all add: log_frames_def upcoming_def s' bufs)
  have left: "tb_chan t < length ?chans \<and> (tb_phase t \<noteq> Gone \<longrightarrow> tb_chan t \<in> set (remove1 ?c (hub_targets a (sse_hub s))))"
    if "t \<in> set ((sse_tabs s)[j := ?t'])" for t
    using that
  proof (rule tabs_update)
    fix k assume k: "k < length (sse_tabs s)" "k \<noteq> j"
    then have "sse_tabs s ! k \<in> set (sse_tabs s)" by simp
    with inv(3) other_chan [OF inv(3) j(1) k(1)] k(2)
    show "tb_chan (sse_tabs s ! k) < length ?chans \<and>
      (tb_phase (sse_tabs s ! k) \<noteq> Gone \<longrightarrow> tb_chan (sse_tabs s ! k) \<in> set (remove1 ?c (hub_targets a (sse_hub s))))"
      by (auto simp: chans_ok_def in_set_remove1)
  qed (simp add: c(1))
  have env: "env_ok x" if "ch \<in> set (hub_chans (sse_hub s'))" "x \<in> set (ch_buf ch)" for ch x
  proof -
    obtain k where "k < length ?chans" "x \<in> set (ch_buf (?chans ! k))"
      using \<open>ch \<in> set (hub_chans (sse_hub s'))\<close> \<open>x \<in> set (ch_buf ch)\<close> bufs
      by (metis chans in_set_conv_nth length_list_update)
    then show ?thesis using inv(3) by (auto simp: chans_ok_def)
  qed
  have "chans_ok a s'"
    using inv(3) left env
    by (auto simp: chans_ok_def targets s' chans map_tabs_update distinct_remove1 dest: notin_set_remove1 dest!: bspec)
  moreover have "tab_ok (log_frames a s) (upcoming s tr (tb_chan t)) t" if "t \<in> set (sse_tabs s')" for t
    using that [unfolded s'] by (rule tabs_update) (use tabs j(1) tab_ok_leave [OF tabs [OF nth_mem]] in auto)
  ultimately show ?thesis
    using inv turn log by (intro sse_invI [of _ tr]) (auto simp: up s' log_ok_def chans)
qed

lemma sse_inv_step: "sse_inv a s \<Longrightarrow> lossless act \<Longrightarrow> sse_act a act s = Some s' \<Longrightarrow> sse_inv a s'"
  by (cases act) (auto intro: inv_emit inv_target inv_send inv_join inv_replay inv_deliver inv_leave
      simp del: sse_act.simps)

lemma sse_inv_reach: "sse_reach a lossless s0 s \<Longrightarrow> sse_inv a s0 \<Longrightarrow> sse_inv a s"
  by (induction rule: sse_reach.induct) (auto intro: sse_inv_step)

lemma sse_inv_start: "numbered n (event_seqs uid agent key db) \<Longrightarrow> sse_inv (uid, agent, key) (sse_start db 1)"
  by (rule sse_invI [of _ Ready])
    (auto simp: sse_start_def log_numbered chans_ok_def new_event_hub_def hub_targets_def)

text \<open>C2: one turn emits, tabs join at any point of the log and leave, no channel fills and no
  replay query fails. Then, in every state and for every tab, the stored events the tab has sent are
  a contiguous stretch of the session's log from its resume point on, each event once, in order and with the
  type and data of its row, whether it came from the table or from the channel; and a tab that
  is up to date with a quiet session has sent all of them.\<close>

theorem tabs_see_every_event:
  assumes "numbered n (event_seqs uid agent key db)"
    and "sse_reach (uid, agent, key) lossless (sse_start db 1) s" and "t \<in> set (sse_tabs s)"
  shows "\<exists>m. stored_sent t = map row_frame (drop (nat (tb_from t + 1)) (take m (session_events (uid, agent, key) (sse_db s)))) \<and>
    (tb_phase t = Live \<and> ch_buf (chan_at s (tb_chan t)) = [] \<and> sse_turns s = [Ready] \<longrightarrow>
      m = length (session_events (uid, agent, key) (sse_db s)))"
proof -
  let ?a = "(uid, agent, key)" and ?L = "session_events (uid, agent, key) (sse_db s)"
  have "sse_inv ?a s" using sse_inv_reach [OF assms(2) sse_inv_start [OF assms(1)]] .
  then obtain tr where tr: "sse_turns s = [tr]" and ok: "tab_ok (map row_frame ?L) (upcoming s tr (tb_chan t)) t"
    using assms(3) by (auto simp: sse_inv_def log_frames_def)
  show ?thesis
  proof (cases "tb_phase t")
    case Opening
    then show ?thesis using ok by (intro exI [of _ 0]) (simp add: tab_ok_def Let_def stored_sent_def)
  next
    case Live
    let ?upto = "nat (tb_since t + 1)" and ?from = "nat (tb_from t + 1)"
    have sent: "stored_sent t = map row_frame (drop ?from (take ?upto ?L))"
      using ok Live by (simp add: tab_ok_def Let_def drop_map take_map)
    have "drop ?from (take ?upto ?L) = drop ?from ?L" if "ch_buf (chan_at s (tb_chan t)) = []" "tr = Ready"
    proof -
      have "length ?L \<le> ?upto" using ok Live that by (auto simp: tab_ok_def Let_def upcoming_def)
      then show ?thesis by simp
    qed
    then show ?thesis using sent tr
      by (cases "ch_buf (chan_at s (tb_chan t)) = [] \<and> tr = Ready") (auto intro: exI [of _ ?upto] exI [of _ "length ?L"])
  next
    case Gone
    then show ?thesis using ok by (auto simp: tab_ok_def Let_def drop_map take_map)
  qed
qed

section \<open>Runs\<close>

lemma sse_run_snoc: "sse_run a (acts @ [act]) s = (case sse_run a acts s of None \<Rightarrow> None | Some s' \<Rightarrow> sse_act a act s')"
  by (simp add: sse_run_def)

lemma sse_run_reach: "sse_run a acts s0 = Some s \<Longrightarrow> list_all ok_act acts \<Longrightarrow> sse_reach a ok_act s0 s"
proof (induction acts arbitrary: s rule: rev_induct)
  case Nil
  then show ?case by (simp add: sse_run_def sse_reach.start)
next
  case (snoc act acts)
  then show ?case by (auto simp: sse_run_snoc intro: sse_reach.action split: option.splits)
qed

definition demo_event :: "string \<Rightarrow> chat_event" where
  "demo_event ty = \<lparr>ce_type = ty, ce_data = None\<rparr>"

lemmas stream_defs = sse_run_def sse_start_def hub_subscribe_def hub_targets_def hub_send_def chan_full_def
  chan_room_def new_event_hub_def Let_def demo_event_def live_event_def env_frame_def stored_sent_def event_persists_def

lemma emit_seq_healthy:
  assumes "chat_plan db = []" and "numbered n (event_seqs uid agent key db)" and "event_persists e"
    and "uid \<noteq> []" "agent \<noteq> []" "key \<noteq> []"
  shows "emit_seq now chatter (Some (stream_of (uid, agent, key))) e db
    = (int n, db\<lparr>events_t := events_t db @ [event_of now chatter uid agent key n (ce_type e) (encode_data (ce_data e))]\<rparr>)"
proof -
  let ?d = "encode_data (ce_data e)"
  let ?row = "event_of now chatter uid agent key n (ce_type e) ?d"
  have "int n \<notin> set (event_seqs uid agent key db)" using assms(2) by (auto simp: numbered_def)
  then have "\<forall>r \<in> set (events_t db). \<not> (of_events uid agent key r \<and> er_seq r = int n)"
    by (force simp: event_seqs_def tbl_select_def)
  then have "tbl_first (\<lambda>r. of_events uid agent key r \<and> er_seq r = int n) (events_t db) = None"
    by (simp add: tbl_first_None)
  moreover have "next_seq (map er_seq (tbl_select (of_events uid agent key) (events_t db))) = int n"
    using next_seq_numbered [OF assms(2)] by (simp add: event_seqs_def)
  ultimately have "append_session_event now chatter uid agent key (ce_type e) ?d db = (Inr (int n), db\<lparr>events_t := events_t db @ [?row]\<rparr>)"
    using assms unfolding append_session_event_def
    by (simp, intro chat_tx_healthy) (simp_all add: and_then_def ok_def next_event_seq_def insert_event_def step_simps event_of_def)
  then show ?thesis using assms by (simp add: emit_seq_def stream_of_def stream_addressed_def)
qed

text \<open>A tab that closes between the snapshot of the channels and the send makes the sender
  send on a closed channel: the program stops, whoever the session belongs to.\<close>

theorem closing_tab_stops_program: "\<exists>s. sse_reach a lossless (sse_start db 1) s \<and> sse_panics s"
proof -
  let ?acts = "[Join 0, Emit 0 now chatter (demo_event ''content_delta''), Target 0, Leave 0]"
  obtain s where s: "sse_run a ?acts (sse_start db 1) = Some s" "sse_panics s"
    by (simp add: stream_defs emit_seq_def hub_cleanup_def sse_panics_def)
  moreover have "list_all lossless ?acts" by simp
  ultimately show ?thesis using sse_run_reach by blast
qed

text \<open>C40: with two turns on one session the events may be published in the other order than they
  were stored in; a live tab then sends the later one and drops the earlier one for good, and
  its resume point is past it.\<close>

theorem two_turns_drop_event:
  assumes "chat_plan db = []" and "numbered n (event_seqs uid agent key db)"
    and "uid \<noteq> []" "agent \<noteq> []" "key \<noteq> []" and "event_persists e0" "event_persists e1"
  shows "\<exists>s t. sse_reach (uid, agent, key) lossless (sse_start db 2) s \<and> sse_turns s = [Ready, Ready] \<and>
    sse_tabs s = [t] \<and> tb_phase t = Live \<and> ch_buf (chan_at s (tb_chan t)) = [] \<and> tb_from t = int n - 1 \<and>
    map fr_seq (stored_sent t) = [int n + 1] \<and> tb_since t = int n + 1 \<and>
    event_seqs uid agent key (sse_db s) = event_seqs uid agent key db @ [int n, int n + 1]"
proof -
  let ?a = "(uid, agent, key)"
  let ?row = "\<lambda>k e. event_of 0 [] uid agent key k (ce_type e) (encode_data (ce_data e))"
  let ?db1 = "db\<lparr>events_t := events_t db @ [?row n e0]\<rparr>"
  let ?db2 = "?db1\<lparr>events_t := events_t ?db1 @ [?row (Suc n) e1]\<rparr>"
  let ?acts = "[Join (int n - 1), Replay 0, Emit 0 0 [] e0, Emit 1 0 [] e1, Target 1, Send 1, Target 1, Target 0, Send 0,
    Target 0, Deliver 0, Deliver 0]"
  have num1: "numbered (Suc n) (event_seqs uid agent key ?db1)"
    using assms(2) by (simp add: append_event_seqs numbered_snoc)
  have emits: "emit_seq 0 [] (Some (stream_of ?a)) e0 db = (int n, ?db1)"
    "emit_seq 0 [] (Some (stream_of ?a)) e1 ?db1 = (int (Suc n), ?db2)"
    using emit_seq_healthy [OF assms(1,2)] emit_seq_healthy [OF _ num1] assms by simp_all
  obtain r db' where q: "list_session_events_since uid agent key (int n - 1) db = (r, db')" by fastforce
  have "db' = db" "\<exists>rows. r = Inr rows"
    using q assms(1) by (auto simp: list_session_events_since_def step_simps)
  moreover have "filter (\<lambda>e. er_seq e > int n - 1) (tbl_select (of_events uid agent key) (events_t db)) = []"
  proof -
    have "map er_seq (filter (\<lambda>e. er_seq e > int n - 1) (tbl_select (of_events uid agent key) (events_t db)))
        = filter (\<lambda>s. s > int n - 1) (event_seqs uid agent key db)"
      by (simp add: event_seqs_def filter_map comp_def)
    also have "\<dots> = []" using assms(2) by (auto simp: numbered_def filter_empty_conv)
    finally show ?thesis by simp
  qed
  ultimately have "r = Inr []" using events_since [OF assms(2) q] by auto
  with \<open>db' = db\<close> have replay: "list_events ?a (int n - 1) db = (Inr [], db)" using q by (simp add: list_events_def)
  have "\<exists>s t. sse_run ?a ?acts (sse_start db 2) = Some s \<and> sse_turns s = [Ready, Ready] \<and>
    sse_tabs s = [t] \<and> tb_phase t = Live \<and> ch_buf (chan_at s (tb_chan t)) = [] \<and> tb_from t = int n - 1 \<and>
    map fr_seq (stored_sent t) = [int n + 1] \<and> tb_since t = int n + 1 \<and> sse_db s = ?db2"
    using assms(6,7) by (simp add: stream_defs emits replay replay_rows_def numeral_2_eq_2)
  moreover have "list_all lossless ?acts" by simp
  moreover have "event_seqs uid agent key ?db2 = event_seqs uid agent key db @ [int n, int n + 1]"
    by (simp only: append_event_seqs) simp
  ultimately show ?thesis using sse_run_reach by metis
qed

theorem two_turns_drop_event_witness:
  "\<exists>s t. sse_reach (''u'', ''a'', ''s'') lossless (sse_start demo_chat_db 2) s \<and> sse_turns s = [Ready, Ready] \<and>
    sse_tabs s = [t] \<and> tb_phase t = Live \<and> ch_buf (chan_at s (tb_chan t)) = [] \<and> tb_from t = int 0 - 1 \<and>
    map fr_seq (stored_sent t) = [int 0 + 1] \<and> tb_since t = int 0 + 1 \<and>
    event_seqs ''u'' ''a'' ''s'' (sse_db s) = event_seqs ''u'' ''a'' ''s'' demo_chat_db @ [int 0, int 0 + 1]"
  by (rule two_turns_drop_event [of _ 0 _ _ _ "demo_event ''content''" "demo_event ''done''"])
    (simp_all add: demo_chat_db_def numbered_def event_seqs_def tbl_select_def demo_event_def event_persists_def)

lemma demo_numbered: "numbered 0 (event_seqs uid agent key demo_chat_db)"
  by (simp add: demo_chat_db_def numbered_def event_seqs_def tbl_select_def)

theorem tabs_see_every_event_witness:
  "\<exists>s t m. sse_reach (''u'', ''a'', ''s'') lossless (sse_start demo_chat_db 1) s \<and> sse_tabs s = [t] \<and> tb_from t = -1 \<and>
    stored_sent t = map row_frame (drop (nat (tb_from t + 1)) (take m (session_events (''u'', ''a'', ''s'') (sse_db s)))) \<and>
    m = length (session_events (''u'', ''a'', ''s'') (sse_db s)) \<and> length (stored_sent t) = 2"
proof -
  let ?a = "(''u'', ''a'', ''s'')"
  let ?e = "demo_event ''content''"
  let ?acts = "[Emit 0 0 [] ?e, Target 0, Target 0, Join (-1), Emit 0 5 [] ?e, Replay 0, Target 0, Send 0, Target 0, Deliver 0]"
  let ?row = "\<lambda>now k. event_of now [] ''u'' ''a'' ''s'' k (ce_type ?e) (encode_data (ce_data ?e))"
  let ?db1 = "demo_chat_db\<lparr>events_t := events_t demo_chat_db @ [?row 0 0]\<rparr>"
  let ?db2 = "?db1\<lparr>events_t := events_t ?db1 @ [?row 5 (Suc 0)]\<rparr>"
  have plan: "chat_plan demo_chat_db = []" and ev: "event_persists ?e"
    by (simp_all add: demo_chat_db_def demo_event_def event_persists_def)
  have num1: "numbered (Suc 0) (event_seqs ''u'' ''a'' ''s'' ?db1)"
    unfolding append_event_seqs using numbered_snoc [OF demo_numbered] by simp
  have emits: "emit_seq 0 [] (Some (stream_of ?a)) ?e demo_chat_db = (int 0, ?db1)"
    "emit_seq 5 [] (Some (stream_of ?a)) ?e ?db1 = (int (Suc 0), ?db2)"
    using emit_seq_healthy [OF plan demo_numbered ev] emit_seq_healthy [OF _ num1 ev] plan by simp_all
  have rows: "session_events ?a ?db2 = [?row 0 0, ?row 5 (Suc 0)]"
    by (simp add: demo_chat_db_def tbl_select_def event_of_def of_events_def)
  have replay: "list_events ?a (-1) ?db2 = (Inr [?row 0 0, ?row 5 (Suc 0)], ?db2)"
    using plan by (simp add: list_events_def list_session_events_since_def step_simps)
      (simp add: demo_chat_db_def tbl_select_def event_of_def of_events_def)
  obtain s where run: "sse_run ?a ?acts (sse_start demo_chat_db 1) = Some s" and db: "sse_db s = ?db2"
    and quiet: "sse_turns s = [Ready]"
    and tabs: "\<exists>t. sse_tabs s = [t] \<and> tb_from t = -1 \<and> tb_phase t = Live \<and> ch_buf (chan_at s (tb_chan t)) = []"
    using emits replay ev
    by (simp add: stream_defs replay_rows_def event_of_def row_frame_def)
  have reach: "sse_reach ?a lossless (sse_start demo_chat_db 1) s"
    using run by (rule sse_run_reach) simp
  from tabs obtain t where t: "sse_tabs s = [t]" "tb_from t = -1" "tb_phase t = Live" "ch_buf (chan_at s (tb_chan t)) = []"
    by blast
  have in_tabs: "t \<in> set (sse_tabs s)" using t(1) by simp
  from tabs_see_every_event [OF demo_numbered reach in_tabs] obtain m where
    "stored_sent t = map row_frame (drop (nat (tb_from t + 1)) (take m (session_events ?a (sse_db s))))"
    "m = length (session_events ?a (sse_db s))"
    using t quiet by blast
  moreover from this have "length (stored_sent t) = 2" using t(2) db rows by simp
  ultimately show ?thesis using reach t by blast
qed

end
