(* ===== verification/Session.thy ===== *)
theory Session
  imports Session_Store Go_Paths History
begin

text \<open>
  Sessions, \<^verbatim>\<open>internal/session\<close>: the store adapter of one user
  (\<^verbatim>\<open>store_adapter.go\<close>), the session objects and the manager that hands them out
  (\<^verbatim>\<open>manager.go\<close>). A world is one process: the shared database, its session files, the
  allocated objects with the manager's index into them, and the adapter's owner cache. Failing
  file operations are left out; a random key is a parameter of the operation that mints one.
\<close>

section \<open>The world\<close>

record session =
  se_messages :: "chat_message list"
  se_consolidated :: int
  se_snapshot :: "chat_message list option"
  se_key :: string
  se_channel :: string
  se_account :: string
  se_chat :: string
  se_project :: string
  se_chatter :: string
  se_provider :: string
  se_model :: string
  se_depth :: nat
  se_steer :: "chat_message list"

text \<open>Without a store the manager keeps one file per session.\<close>

record sess_world =
  sw_db :: chat_db
  sw_files :: "string \<Rightarrow> chat_message list option"
  sw_titles :: "string \<Rightarrow> string option"
  sw_heap :: "session list"
  sw_index :: "string \<Rightarrow> nat option"
  sw_owners :: "string \<Rightarrow> string option"
  sw_user :: string
  sw_agent :: string
  sw_dir :: string
  sw_stored :: bool

type_synonym 'a sess_step = "(sess_world, user_error, 'a) stateful"

definition on_db :: "'a chat_step \<Rightarrow> 'a sess_step" where
  "on_db m w = (case m (sw_db w) of (r, d) \<Rightarrow> (r, w\<lparr>sw_db := d\<rparr>))"

definition look :: "(sess_world \<Rightarrow> 'a) \<Rightarrow> 'a sess_step" where
  "look f w = (Inr (f w), w)"

definition alter :: "(sess_world \<Rightarrow> sess_world) \<Rightarrow> unit sess_step" where
  "alter f w = (Inr (), f w)"

definition on_session :: "nat \<Rightarrow> (session \<Rightarrow> session) \<Rightarrow> unit sess_step" where
  "on_session h f = alter (\<lambda>w. w\<lparr>sw_heap := (sw_heap w)[h := f (sw_heap w ! h)]\<rparr>)"

text \<open>A step whose failure is dropped.\<close>

definition best_effort :: "unit sess_step \<Rightarrow> unit sess_step" where
  "best_effort m = attempt m (\<lambda>_. ok ())"

section \<open>The adapter\<close>

text \<open>The stored form of a message takes the time of the save; what is read back has no time, and in
  the working set no provider or model either.\<close>

definition to_stored :: "instant \<Rightarrow> chat_message \<Rightarrow> session_message" where
  "to_stored now m = m\<lparr>cm_time := now div 1000000\<rparr>"

definition from_archive :: "session_message \<Rightarrow> chat_message" where
  "from_archive m = m\<lparr>cm_time := 0\<rparr>"

definition from_stored :: "session_message \<Rightarrow> chat_message" where
  "from_stored m = m\<lparr>cm_time := 0, cm_provider := [], cm_model := []\<rparr>"

definition lookup_owner :: "string \<Rightarrow> string sess_step" where
  "lookup_owner key = and_then (look (\<lambda>w. (sw_user w, sw_agent w))) (\<lambda>(user, agent).
     attempt (on_db (lookup_session_owner agent key)) (\<lambda>r. case r of
       Inl _ \<Rightarrow> ok user
     | Inr owner \<Rightarrow>
         if owner = [] \<or> owner = user then ok user
         else attempt (on_db (on_ident (get_user owner))) (\<lambda>u. case u of
             Inl _ \<Rightarrow> ok user
           | Inr u \<Rightarrow> ok (if u_owner u = user then owner else user))))"

definition resolve_session_owner :: "string \<Rightarrow> string sess_step" where
  "resolve_session_owner key = and_then (look sw_owners) (\<lambda>cache. case cache key of
     Some owner \<Rightarrow> ok owner
   | None \<Rightarrow> and_then (lookup_owner key) (\<lambda>owner.
       and_then (alter (\<lambda>w. w\<lparr>sw_owners := (sw_owners w)(key := Some owner)\<rparr>)) (\<lambda>_. ok owner)))"

definition adapter_get_session :: "string \<Rightarrow> chat_message list sess_step" where
  "adapter_get_session key = and_then (resolve_session_owner key) (\<lambda>owner.
     and_then (look sw_agent) (\<lambda>agent.
     and_then (on_db (get_session owner agent key)) (\<lambda>r. ok (map from_stored (sr_messages r)))))"

definition adapter_save_session :: "instant \<Rightarrow> string \<Rightarrow> string \<Rightarrow> string \<Rightarrow> string \<Rightarrow> string \<Rightarrow> string
    \<Rightarrow> chat_message list \<Rightarrow> unit sess_step" where
  "adapter_save_session now chatter key channel account chat project ms =
     and_then (look (\<lambda>w. (sw_user w, sw_agent w))) (\<lambda>(user, agent).
       on_db (save_session now chatter user agent key \<lparr>ss_channel = channel, ss_account = account, ss_chat = chat,
         ss_project = project, ss_messages = map (to_stored now) ms\<rparr>))"

definition not_found_as :: "'a \<Rightarrow> 'a sess_step \<Rightarrow> 'a sess_step" where
  "not_found_as a m = attempt m (\<lambda>r. case r of Inr b \<Rightarrow> ok b | Inl e \<Rightarrow> if e = Not_Found then ok a else raise e)"

definition adapter_resolve_active :: "string \<Rightarrow> string \<Rightarrow> string \<Rightarrow> string sess_step" where
  "adapter_resolve_active channel account chat = and_then (look (\<lambda>w. (sw_user w, sw_agent w))) (\<lambda>(user, agent).
     not_found_as [] (on_db (resolve_active_session_key user agent (channel, account, chat))))"

definition adapter_lookup_triple :: "string \<Rightarrow> (string \<times> string \<times> string) sess_step" where
  "adapter_lookup_triple key = and_then (look (\<lambda>w. (sw_user w, sw_agent w))) (\<lambda>(user, agent).
     not_found_as ([], [], []) (on_db (lookup_session_triple user agent key)))"

definition adapter_lookup_project :: "string \<Rightarrow> string sess_step" where
  "adapter_lookup_project key = and_then (look (\<lambda>w. (sw_user w, sw_agent w))) (\<lambda>(user, agent).
     not_found_as [] (on_db (lookup_session_project user agent key)))"

definition adapter_append_message :: "instant \<Rightarrow> string \<Rightarrow> string \<Rightarrow> chat_message \<Rightarrow> unit sess_step" where
  "adapter_append_message now chatter key m = and_then (look (\<lambda>w. (sw_user w, sw_agent w))) (\<lambda>(user, agent).
     on_db (append_session_message now chatter user agent key (to_stored now m)))"

definition adapter_list_messages :: "string \<Rightarrow> chat_message list sess_step" where
  "adapter_list_messages key = and_then (resolve_session_owner key) (\<lambda>owner.
     and_then (look sw_agent) (\<lambda>agent.
     and_then (on_db (list_session_messages owner agent key)) (\<lambda>ms. ok (map from_archive ms))))"

definition adapter_delete_session :: "string \<Rightarrow> unit sess_step" where
  "adapter_delete_session key = and_then (look (\<lambda>w. (sw_user w, sw_agent w))) (\<lambda>(user, agent).
     on_db (delete_session user agent key))"

definition adapter_rename_session :: "string \<Rightarrow> string \<Rightarrow> unit sess_step" where
  "adapter_rename_session key title = and_then (look (\<lambda>w. (sw_user w, sw_agent w))) (\<lambda>(user, agent).
     on_db (rename_session user agent key title))"

definition adapter_move_session :: "string \<Rightarrow> string \<Rightarrow> unit sess_step" where
  "adapter_move_session key project = and_then (look (\<lambda>w. (sw_user w, sw_agent w))) (\<lambda>(user, agent).
     on_db (move_session user agent key project))"

section \<open>Session objects\<close>

definition session_file :: "sess_world \<Rightarrow> string \<Rightarrow> string" where
  "session_file w key = path_join [sw_dir w, key @ ''.jsonl'']"

definition persist_session :: "instant \<Rightarrow> nat \<Rightarrow> unit sess_step" where
  "persist_session now h = and_then (look (\<lambda>w. sw_heap w ! h)) (\<lambda>s.
     best_effort (adapter_save_session now (se_chatter s) (se_key s) (se_channel s) (se_account s) (se_chat s)
       (se_project s) (se_messages s)))"

definition append_to_file :: "nat \<Rightarrow> chat_message \<Rightarrow> unit sess_step" where
  "append_to_file h m = alter (\<lambda>w. let p = session_file w (se_key (sw_heap w ! h)) in
     w\<lparr>sw_files := (sw_files w)(p := Some ((case sw_files w p of None \<Rightarrow> [] | Some ms \<Rightarrow> ms) @ [m]))\<rparr>)"

definition rewrite_file :: "nat \<Rightarrow> unit sess_step" where
  "rewrite_file h = alter (\<lambda>w. let p = session_file w (se_key (sw_heap w ! h)) in
     w\<lparr>sw_files := (sw_files w)(p := Some (se_messages (sw_heap w ! h)))\<rparr>)"

text \<open>What \<^verbatim>\<open>Append\<close> fills in.\<close>

definition stamp_message :: "instant \<Rightarrow> session \<Rightarrow> chat_message \<Rightarrow> chat_message" where
  "stamp_message now s m =
     (let m1 = (if cm_time m = 0 then m\<lparr>cm_time := now div 1000000\<rparr> else m)
      in if is_assistant m1 \<and> cm_provider m1 = [] \<and> se_provider s \<noteq> []
         then m1\<lparr>cm_provider := se_provider s, cm_model := se_model s\<rparr> else m1)"

definition append_message :: "instant \<Rightarrow> nat \<Rightarrow> chat_message \<Rightarrow> unit sess_step" where
  "append_message now h m = and_then (look (\<lambda>w. (sw_heap w ! h, sw_stored w))) (\<lambda>(s, stored).
     let m' = stamp_message now s m in
     and_then (on_session h (\<lambda>s. s\<lparr>se_messages := se_messages s @ [m']\<rparr>)) (\<lambda>_.
     if stored then and_then (persist_session now h) (\<lambda>_.
       best_effort (adapter_append_message now (se_chatter s) (se_key s) m'))
     else append_to_file h m'))"

definition archived_messages :: "nat \<Rightarrow> chat_message list sess_step" where
  "archived_messages h = and_then (look (\<lambda>w. (sw_heap w ! h, sw_stored w))) (\<lambda>(s, stored).
     if \<not> stored then ok (se_messages s)
     else attempt (adapter_list_messages (se_key s)) (\<lambda>r. case r of
         Inl _ \<Rightarrow> ok (se_messages s)
       | Inr ms \<Rightarrow> ok (if ms = [] then se_messages s else ms)))"

definition replace_messages :: "instant \<Rightarrow> nat \<Rightarrow> chat_message list \<Rightarrow> unit sess_step" where
  "replace_messages now h ms = and_then (on_session h (\<lambda>s. s\<lparr>se_messages := ms, se_consolidated := 0\<rparr>)) (\<lambda>_.
     and_then (look sw_stored) (\<lambda>stored. if stored then persist_session now h else rewrite_file h))"

definition clear_session :: "nat \<Rightarrow> unit sess_step" where
  "clear_session h = and_then (on_session h (\<lambda>s. s\<lparr>se_messages := [], se_consolidated := 0\<rparr>)) (\<lambda>_.
     and_then (look (\<lambda>w. (se_key (sw_heap w ! h), sw_stored w))) (\<lambda>(key, stored).
     if stored then best_effort (adapter_delete_session key)
     else alter (\<lambda>w. w\<lparr>sw_files := (sw_files w)(session_file w key := None)\<rparr>)))"

definition take_snapshot :: "nat \<Rightarrow> unit sess_step" where
  "take_snapshot h = on_session h (\<lambda>s. s\<lparr>se_snapshot := Some (se_messages s)\<rparr>)"

definition undo_session :: "nat \<Rightarrow> bool sess_step" where
  "undo_session h = and_then (look (\<lambda>w. se_snapshot (sw_heap w ! h))) (\<lambda>snap. case snap of
     None \<Rightarrow> ok False
   | Some ms \<Rightarrow>
       and_then (on_session h (\<lambda>s. s\<lparr>se_messages := ms, se_snapshot := None, se_consolidated := 0\<rparr>)) (\<lambda>_.
       and_then (rewrite_file h) (\<lambda>_. ok True)))"

definition set_chatter :: "nat \<Rightarrow> string \<Rightarrow> unit sess_step" where
  "set_chatter h uid = on_session h (\<lambda>s. s\<lparr>se_chatter := uid\<rparr>)"

definition set_provider_model :: "nat \<Rightarrow> string \<Rightarrow> string \<Rightarrow> unit sess_step" where
  "set_provider_model h prov mdl = on_session h (\<lambda>s. s\<lparr>se_provider := prov, se_model := mdl\<rparr>)"

definition unconsolidated_count :: "session \<Rightarrow> int" where
  "unconsolidated_count s = int (length (se_messages s)) - se_consolidated s"

definition mark_consolidated :: "nat \<Rightarrow> int \<Rightarrow> unit sess_step" where
  "mark_consolidated h i = on_session h (\<lambda>s. s\<lparr>se_consolidated := i\<rparr>)"

section \<open>Steering\<close>

definition begin_turn :: "session \<Rightarrow> session" where
  "begin_turn s = s\<lparr>se_depth := Suc (se_depth s)\<rparr>"

definition end_turn :: "session \<Rightarrow> chat_message list \<times> session" where
  "end_turn s = (let s1 = s\<lparr>se_depth := se_depth s - 1\<rparr> in
     if se_depth s1 > 0 \<or> se_steer s1 = [] then ([], s1) else (se_steer s1, s1\<lparr>se_steer := []\<rparr>))"

definition push_steer_if_active :: "chat_message \<Rightarrow> session \<Rightarrow> bool \<times> session" where
  "push_steer_if_active m s = (if se_depth s = 0 then (False, s) else (True, s\<lparr>se_steer := se_steer s @ [m]\<rparr>))"

definition drain_steer :: "session \<Rightarrow> chat_message list \<times> session" where
  "drain_steer s = (if se_steer s = [] then ([], s) else (se_steer s, s\<lparr>se_steer := []\<rparr>))"

section \<open>The manager\<close>

definition key_alphabet :: string where
  "key_alphabet = ''0123456789abcdefghijklmnopqrstuvwxyz''"

text \<open>From the time in milliseconds and six random bytes.\<close>

definition generate_session_key :: "int \<Rightarrow> nat list \<Rightarrow> string" where
  "generate_session_key ms rand = ''s-'' @ show_int ms @ ''-'' @ map (\<lambda>b. key_alphabet ! (b mod length key_alphabet)) rand"

text \<open>\<open>fresh\<close> is the key that would be minted.\<close>

definition resolve_or_mint_key :: "string \<Rightarrow> string \<Rightarrow> string \<Rightarrow> string \<Rightarrow> string sess_step" where
  "resolve_or_mint_key fresh channel account chat =
     (let mint = (if channel = ''web'' \<and> chat \<noteq> [] then chat else fresh) in
      and_then (look sw_stored) (\<lambda>stored.
        if stored then attempt (adapter_resolve_active channel account chat) (\<lambda>r. case r of
            Inr k \<Rightarrow> ok (if k \<noteq> [] then k else mint)
          | Inl _ \<Rightarrow> ok mint)
        else ok mint))"

definition new_session :: "string \<Rightarrow> string \<Rightarrow> string \<Rightarrow> string \<Rightarrow> string \<Rightarrow> session" where
  "new_session key channel account chat project = \<lparr>se_messages = [], se_consolidated = 0, se_snapshot = None, se_key = key,
     se_channel = channel, se_account = account, se_chat = chat, se_project = project, se_chatter = [], se_provider = [],
     se_model = [], se_depth = 0, se_steer = []\<rparr>"

definition allocate :: "session \<Rightarrow> nat sess_step" where
  "allocate s w = (Inr (length (sw_heap w)),
     w\<lparr>sw_heap := sw_heap w @ [s], sw_index := (sw_index w)(se_key s := Some (length (sw_heap w)))\<rparr>)"

definition late_bind :: "string \<Rightarrow> string \<Rightarrow> string \<Rightarrow> string \<Rightarrow> session \<Rightarrow> session" where
  "late_bind channel account chat project s =
     (let s1 = (if se_channel s = [] \<and> channel \<noteq> [] then s\<lparr>se_channel := channel, se_account := account, se_chat := chat\<rparr> else s)
      in if se_project s1 = [] \<and> project \<noteq> [] then s1\<lparr>se_project := project\<rparr> else s1)"

text \<open>A cached object is given what the store has now, whatever its messages are; a new one is
  loaded.\<close>

definition reload_cached :: "nat \<Rightarrow> string \<Rightarrow> unit sess_step" where
  "reload_cached h key = attempt (adapter_get_session key) (\<lambda>r. case r of
     Inl _ \<Rightarrow> ok () | Inr ms \<Rightarrow> on_session h (\<lambda>s. s\<lparr>se_messages := ms\<rparr>))"

definition load_messages :: "string \<Rightarrow> chat_message list sess_step" where
  "load_messages key = and_then (look (\<lambda>w. (sw_stored w, sw_files w (session_file w key)))) (\<lambda>(stored, kept).
     if stored then attempt (adapter_get_session key) (\<lambda>r. case r of Inl _ \<Rightarrow> ok [] | Inr ms \<Rightarrow> ok ms)
     else ok (case kept of None \<Rightarrow> [] | Some ms \<Rightarrow> ms))"

definition get_by_key :: "string \<Rightarrow> string \<Rightarrow> string \<Rightarrow> string \<Rightarrow> string \<Rightarrow> nat sess_step" where
  "get_by_key key channel account chat project =
     and_then (look (\<lambda>w. (sw_index w key, sw_stored w))) (\<lambda>(cached, stored). case cached of
       Some h \<Rightarrow>
         and_then (if stored then reload_cached h key else ok ()) (\<lambda>_.
         and_then (if channel \<noteq> [] \<or> project \<noteq> [] then on_session h (late_bind channel account chat project) else ok ())
           (\<lambda>_. ok h))
     | None \<Rightarrow> and_then (load_messages key) (\<lambda>ms.
         allocate ((new_session key channel account chat project)\<lparr>se_messages := ms\<rparr>)))"

definition get_active :: "string \<Rightarrow> string \<Rightarrow> string \<Rightarrow> string \<Rightarrow> string \<Rightarrow> nat sess_step" where
  "get_active fresh channel account chat project =
     and_then (resolve_or_mint_key fresh channel account chat) (\<lambda>key. get_by_key key channel account chat project)"

definition session_exists :: "string \<Rightarrow> bool sess_step" where
  "session_exists key = and_then (look sw_stored) (\<lambda>stored.
     if \<not> stored then ok True
     else attempt (adapter_get_session key) (\<lambda>r. ok (case r of Inl _ \<Rightarrow> False | Inr _ \<Rightarrow> True)))"

definition manager_lookup_project :: "string \<Rightarrow> string sess_step" where
  "manager_lookup_project key = and_then (look sw_stored) (\<lambda>stored.
     if \<not> stored \<or> key = [] then ok []
     else attempt (adapter_lookup_project key) (\<lambda>r. ok (case r of Inl _ \<Rightarrow> [] | Inr p \<Rightarrow> p)))"

definition manager_lookup_triple :: "string \<Rightarrow> (string \<times> string \<times> string) sess_step" where
  "manager_lookup_triple key = and_then (look sw_stored) (\<lambda>stored.
     if stored then adapter_lookup_triple key else ok ([], [], []))"

definition resolve_session_key :: "string \<Rightarrow> string sess_step" where
  "resolve_session_key sid =
     (if sid = [] then ok []
      else and_then (session_exists sid) (\<lambda>there.
        if there then ok sid
        else and_then (look sw_stored) (\<lambda>stored.
          if stored then attempt (adapter_resolve_active ''web'' [] sid) (\<lambda>r. case r of
              Inr k \<Rightarrow> ok (if k \<noteq> [] then k else sid)
            | Inl _ \<Rightarrow> ok sid)
          else ok sid)))"

definition open_new_session :: "instant \<Rightarrow> string \<Rightarrow> string \<Rightarrow> string \<Rightarrow> string \<Rightarrow> string sess_step" where
  "open_new_session now fresh channel account chat = and_then (look sw_stored) (\<lambda>stored.
     and_then (if stored then best_effort (adapter_save_session now [] fresh channel account chat [] []) else ok ()) (\<lambda>_.
     and_then (allocate (new_session fresh channel account chat [])) (\<lambda>_. ok fresh)))"

definition forget :: "string \<Rightarrow> unit sess_step" where
  "forget key = alter (\<lambda>w. w\<lparr>sw_index := (sw_index w)(key := None)\<rparr>)"

definition resolve_web_session_key :: "string \<Rightarrow> string sess_step" where
  "resolve_web_session_key sid = and_then (look sw_stored) (\<lambda>stored.
     if stored then attempt (adapter_resolve_active ''web'' [] sid) (\<lambda>r. case r of
         Inr k \<Rightarrow> ok (if k \<noteq> [] then k else ''web_'' @ sid)
       | Inl _ \<Rightarrow> ok (''web_'' @ sid))
     else ok (''web_'' @ sid))"

definition safe_session_id :: "string \<Rightarrow> string" where
  "safe_session_id sid = replace_all_str (replace_all_str sid ''/'' ''_'') ''..'' ''_''"

definition web_file :: "sess_world \<Rightarrow> string \<Rightarrow> string \<Rightarrow> string" where
  "web_file w sid ext = path_join [sw_dir w, ''web_'' @ safe_session_id sid @ ext]"

definition delete_web_chat :: "string \<Rightarrow> unit sess_step" where
  "delete_web_chat sid = and_then (resolve_web_session_key sid) (\<lambda>key.
     and_then (forget key) (\<lambda>_. and_then (look sw_stored) (\<lambda>stored.
     if stored then adapter_delete_session key
     else and_then (look (\<lambda>w. (web_file w sid ''.jsonl'', web_file w sid ''.meta.json''))) (\<lambda>(p, q).
       and_then (alter (\<lambda>w. w\<lparr>sw_titles := (sw_titles w)(q := None)\<rparr>)) (\<lambda>_.
       and_then (look (\<lambda>w. sw_files w p)) (\<lambda>kept.
         if kept = None then raise (Refused ''no such file'')
         else alter (\<lambda>w. w\<lparr>sw_files := (sw_files w)(p := None)\<rparr>)))))))"

definition rename_web_chat :: "string \<Rightarrow> string \<Rightarrow> unit sess_step" where
  "rename_web_chat sid title = and_then (look sw_stored) (\<lambda>stored.
     if stored then and_then (resolve_web_session_key sid) (\<lambda>key. adapter_rename_session key title)
     else alter (\<lambda>w. w\<lparr>sw_titles := (sw_titles w)(web_file w sid ''.meta.json'' := Some title)\<rparr>))"

definition delete_session_by_id :: "string \<Rightarrow> unit sess_step" where
  "delete_session_by_id sid = and_then (resolve_session_key sid) (\<lambda>key.
     and_then (forget key) (\<lambda>_. and_then (look sw_stored) (\<lambda>stored.
     if stored then adapter_delete_session key else delete_web_chat sid)))"

definition rename_session_by_id :: "string \<Rightarrow> string \<Rightarrow> unit sess_step" where
  "rename_session_by_id sid title = and_then (resolve_session_key sid) (\<lambda>key. and_then (look sw_stored) (\<lambda>stored.
     if stored then adapter_rename_session key title else rename_web_chat sid title))"

definition move_session_by_id :: "string \<Rightarrow> string \<Rightarrow> unit sess_step" where
  "move_session_by_id sid project = and_then (resolve_session_key sid) (\<lambda>key.
     and_then (look (\<lambda>w. (sw_index w key, sw_stored w))) (\<lambda>(cached, stored).
     and_then (case cached of None \<Rightarrow> ok () | Some h \<Rightarrow> on_session h (\<lambda>s. s\<lparr>se_project := project\<rparr>)) (\<lambda>_.
     if stored then adapter_move_session key project else ok ())))"

section \<open>Listings\<close>

record listed_session =
  ws_id :: string
  ws_channel :: string
  ws_account :: string
  ws_chat :: string
  ws_project :: string
  ws_title :: string
  ws_preview :: string
  ws_updated :: int
  ws_thumbnail :: string
  ws_chatter :: string

fun trim_cutset :: "string \<Rightarrow> string" where
  "trim_cutset [] = []"
| "trim_cutset (c # s) = (if c \<in> {CHR '' '', CHR 0x09, CHR 0x0D, CHR 0x0A} then trim_cutset s else c # s)"

lemma trim_cutset_length: "length (trim_cutset s) \<le> length s"
  by (induction s) auto

lemma cut_str_shorter: "cut_str sep s = Some (u, v) \<Longrightarrow> sep \<noteq> [] \<Longrightarrow> length v < length s"
  using cut_str_Some by fastforce

text \<open>Leading \<^verbatim>\<open>[Attached: ...]\<close> tags, one or more.\<close>

function strip_attached_prefix :: "string \<Rightarrow> string" where
  "strip_attached_prefix s =
     (if \<not> has_prefix s ''[Attached:'' then s
      else case cut_str '']'' s of None \<Rightarrow> s | Some (_, after) \<Rightarrow> strip_attached_prefix (trim_cutset after))"
  by pat_completeness auto
termination
proof (relation "measure length")
  fix s x u v
  assume "cut_str '']'' s = Some x" "(u, v) = x"
  then have "length v < length s" using cut_str_shorter [of "'']''" s u v] by simp
  then show "(trim_cutset v, s) \<in> measure length" using trim_cutset_length [of v] by simp
qed simp

declare strip_attached_prefix.simps [simp del]

definition text_content :: "chat_message \<Rightarrow> string" where
  "text_content m = strip_attached_prefix (if cm_content m \<noteq> [] then cm_content m
     else join_with newline (map cp_text (filter (\<lambda>p. cp_type p = ''text'' \<and> cp_text p \<noteq> []) (cm_parts m))))"

definition user_image :: "chat_message \<Rightarrow> string" where
  "user_image m = (case find (\<lambda>p. cp_type p = ''image_url'' \<and> (case cp_image p of None \<Rightarrow> False | Some (url, _) \<Rightarrow> url \<noteq> []))
       (cm_parts m) of
     None \<Rightarrow> [] | Some p \<Rightarrow> (case cp_image p of None \<Rightarrow> [] | Some (url, _) \<Rightarrow> url))"

definition extract_objective :: "string \<Rightarrow> string" where
  "extract_objective s = (case cut_str ''<objective>'' s of None \<Rightarrow> []
   | Some (_, rest) \<Rightarrow> (case cut_str ''</objective>'' rest of None \<Rightarrow> [] | Some (inner, _) \<Rightarrow> trim_space inner))"

text \<open>The first user message with a text or an image.\<close>

definition preview_message :: "chat_message list \<Rightarrow> chat_message option" where
  "preview_message ms = find (\<lambda>m. cm_role m = ''user'' \<and> (text_content m \<noteq> [] \<or> user_image m \<noteq> [])) ms"

definition preview_text :: "chat_message \<Rightarrow> string" where
  "preview_text m =
     (let plain = text_content m; goal = extract_objective plain;
          shown = (if cm_origin m \<noteq> [] \<and> goal \<noteq> [] then goal else plain);
          whole = (if shown = [] then ''[image]'' else shown)
      in if length whole > 100 then take 100 whole @ ''...'' else whole)"

definition channel_of_row :: "session_row \<Rightarrow> string" where
  "channel_of_row r = (if sr_channel r \<noteq> [] then sr_channel r
     else case cut_str ''_'' (sr_key r) of None \<Rightarrow> [] | Some (u, _) \<Rightarrow> u)"

definition build_web_session :: "session_row \<Rightarrow> listed_session option sess_step" where
  "build_web_session r = and_then (look (\<lambda>w. (sw_user w, sw_agent w))) (\<lambda>(user, agent).
     let owner = (if sr_user r = [] then user else sr_user r) in
     attempt (on_db (list_session_messages owner agent (sr_key r))) (\<lambda>a.
     attempt (case a of Inr (m # ms) \<Rightarrow> ok (m # ms)
         | _ \<Rightarrow> and_then (on_db (get_session owner agent (sr_key r))) (\<lambda>row. ok (sr_messages row))) (\<lambda>source.
     ok (case preview_message (case source of Inl _ \<Rightarrow> [] | Inr ms \<Rightarrow> ms) of
       None \<Rightarrow> None
     | Some m \<Rightarrow> Some \<lparr>ws_id = sr_key r, ws_channel = channel_of_row r, ws_account = sr_account r, ws_chat = sr_chat r,
         ws_project = sr_project r, ws_title = (if sr_title r = [] then preview_text m else sr_title r),
         ws_preview = preview_text m, ws_updated = sr_updated r div 1000000, ws_thumbnail = user_image m,
         ws_chatter = sr_chatter r\<rparr>))))"

fun build_web_sessions :: "session_row list \<Rightarrow> listed_session list sess_step" where
  "build_web_sessions [] = ok []"
| "build_web_sessions (r # rs) = and_then (build_web_session r) (\<lambda>s. and_then (build_web_sessions rs) (\<lambda>ss.
     ok (case s of None \<Rightarrow> ss | Some x \<Rightarrow> x # ss)))"

definition adapter_list_web_sessions :: "listed_session list sess_step" where
  "adapter_list_web_sessions = and_then (look (\<lambda>w. (sw_user w, sw_agent w))) (\<lambda>(user, agent).
     and_then (on_db (list_sessions user agent)) build_web_sessions)"

section \<open>Laws of the steps\<close>

named_theorems sess_simps "rewrite rules for steps of the session world"

lemma look_step [sess_simps]: "and_then (look f) g w = g (f w) w"
  by (simp add: look_def and_then_def)

lemma alter_step [sess_simps]: "and_then (alter f) g w = g () (f w)"
  by (simp add: alter_def and_then_def)

lemma ok_step [sess_simps]: "and_then (ok x) g w = g x w"
  by (simp add: ok_def and_then_def)

lemma attempt_ok_step [sess_simps]: "attempt (ok x) k w = k (Inr x) w"
  by (simp add: ok_def attempt_def)

lemma best_effort_step [sess_simps]: "and_then (best_effort m) g w = g () (snd (m w))"
  by (simp add: best_effort_def attempt_def and_then_def ok_def split: prod.splits)

lemma best_effort_last [sess_simps]: "best_effort m w = (Inr (), snd (m w))"
  by (simp add: best_effort_def attempt_def ok_def split: prod.splits)

lemma on_session_step [sess_simps]:
  "and_then (on_session h f) g w = g () (w\<lparr>sw_heap := (sw_heap w)[h := f (sw_heap w ! h)]\<rparr>)"
  by (simp add: on_session_def sess_simps)

lemma on_db_step [sess_simps]: "m (sw_db w) = (r, d) \<Longrightarrow> on_db m w = (r, w\<lparr>sw_db := d\<rparr>)"
  by (simp add: on_db_def)

lemma allocate_step [sess_simps]: "and_then (allocate s) g w = g (length (sw_heap w))
    (w\<lparr>sw_heap := sw_heap w @ [s], sw_index := (sw_index w)(se_key s := Some (length (sw_heap w)))\<rparr>)"
  by (simp add: allocate_def and_then_def)

section \<open>Steering loses nothing\<close>

datatype steer_op = Begin_Turn | End_Turn | Push chat_message | Drain

text \<open>The messages taken from the user, the messages handed to a turn, and the session.\<close>

fun steer_step :: "steer_op \<Rightarrow> chat_message list \<times> chat_message list \<times> session
    \<Rightarrow> chat_message list \<times> chat_message list \<times> session" where
  "steer_step Begin_Turn (acc, del, s) = (acc, del, begin_turn s)"
| "steer_step End_Turn (acc, del, s) = (case end_turn s of (ms, s') \<Rightarrow> (acc, del @ ms, s'))"
| "steer_step (Push m) (acc, del, s) = (case push_steer_if_active m s of (taken, s') \<Rightarrow> (if taken then acc @ [m] else acc, del, s'))"
| "steer_step Drain (acc, del, s) = (case drain_steer s of (ms, s') \<Rightarrow> (acc, del @ ms, s'))"

definition steer_run :: "steer_op list \<Rightarrow> session \<Rightarrow> chat_message list \<times> chat_message list \<times> session" where
  "steer_run ops s = fold steer_step ops ([], [], s)"

fun steer_inv :: "chat_message list \<times> chat_message list \<times> session \<Rightarrow> bool" where
  "steer_inv (acc, del, s) = (acc = del @ se_steer s \<and> (se_depth s = 0 \<longrightarrow> se_steer s = []))"

lemma steer_inv_step: "steer_inv st \<Longrightarrow> steer_inv (steer_step op st)"
  by (cases st; cases op)
    (auto simp: begin_turn_def end_turn_def push_steer_if_active_def drain_steer_def Let_def)

text \<open>C12: whatever the order in which turns begin, end and drain while messages are steered
  in: the messages accepted are those handed to turns followed by those still held, in the
  order they came, and once no turn is in flight none is held.\<close>

theorem steering_conserved:
  "case steer_run ops (new_session key channel account chat project) of (accepted, delivered, s) \<Rightarrow>
    accepted = delivered @ se_steer s \<and> (0 < se_depth s \<or> se_steer s = [])"
proof -
  have "steer_inv (fold steer_step ops st)" if "steer_inv st" for st
    using that by (induction ops arbitrary: st) (simp_all add: steer_inv_step)
  from this [of "([], [], new_session key channel account chat project)"]
  show ?thesis by (auto simp: steer_run_def new_session_def split: prod.splits)
qed

section \<open>What another replica reads\<close>

text \<open>The rows of a key that the user alone owns.\<close>

definition owned_key :: "sess_world \<Rightarrow> string \<Rightarrow> bool" where
  "owned_key w key = (\<forall>r \<in> set (sessions_t (sw_db w)). sr_agent r = sw_agent w \<and> sr_key r = key \<longrightarrow> sr_user r = sw_user w)"

abbreviation healthy :: "sess_world \<Rightarrow> bool" where
  "healthy w \<equiv> chat_plan (sw_db w) = []"

lemma from_to_stored: "from_stored (to_stored now m) = m\<lparr>cm_time := 0, cm_provider := [], cm_model := []\<rparr>"
  by (simp add: from_stored_def to_stored_def)

lemma lookup_owner_own:
  assumes "healthy w" and "owned_key w key"
  shows "lookup_owner key w = (Inr (sw_user w), w)"
proof (cases "tbl_first (\<lambda>r. sr_agent r = sw_agent w \<and> sr_key r = key) (sessions_t (sw_db w))")
  case None
  then show ?thesis using assms(1)
    by (simp add: lookup_owner_def sess_simps lookup_session_owner_def step_simps attempt_def on_db_def found_def ok_def)
next
  case (Some r)
  then have "sr_user r = sw_user w" using assms(2) tbl_first_SomeD [OF Some] by (simp add: owned_key_def)
  with Some show ?thesis using assms(1)
    by (simp add: lookup_owner_def sess_simps lookup_session_owner_def step_simps attempt_def on_db_def found_def ok_def)
qed

lemma resolve_owner_own:
  assumes "healthy w" and "owned_key w key" and "sw_owners w key \<in> {None, Some (sw_user w)}"
  shows "\<exists>c. resolve_session_owner key w = (Inr (sw_user w), w\<lparr>sw_owners := c\<rparr>)"
proof (cases "sw_owners w key")
  case None
  then show ?thesis using lookup_owner_own [OF assms(1,2)]
    by (intro exI [of _ "(sw_owners w)(key \<mapsto> sw_user w)"])
      (simp add: resolve_session_owner_def and_then_def look_def alter_def ok_def)
next
  case (Some u)
  then show ?thesis using assms(3)
    by (intro exI [of _ "sw_owners w"]) (simp add: resolve_session_owner_def and_then_def look_def ok_def)
qed

lemma get_session_found:
  assumes "chat_plan db = []" and "tbl_first (is_row uid agent key) (sessions_t db) = Some r"
  shows "get_session uid agent key db = (Inr r, db)"
  using assms by (simp add: get_session_def step_simps found_def)

lemma adapter_get_as:
  assumes "healthy w" and "resolve_session_owner key w = (Inr owner, w\<lparr>sw_owners := c\<rparr>)"
    and "tbl_first (is_row owner (sw_agent w) key) (sessions_t (sw_db w)) = Some r"
  shows "adapter_get_session key w = (Inr (map from_stored (sr_messages r)), w\<lparr>sw_owners := c\<rparr>)"
  using get_session_found [OF assms(1,3)]
  by (simp add: adapter_get_session_def assms(2) and_then_def look_def on_db_def ok_def)

lemma adapter_get_own:
  assumes "healthy w" and "owned_key w key" and "sw_owners w key \<in> {None, Some (sw_user w)}"
    and "tbl_first (is_row (sw_user w) (sw_agent w) key) (sessions_t (sw_db w)) = Some r"
  shows "\<exists>c. adapter_get_session key w = (Inr (map from_stored (sr_messages r)), w\<lparr>sw_owners := c\<rparr>)"
  using resolve_owner_own [OF assms(1-3)] adapter_get_as [OF assms(1)] assms(4) by blast

lemma tbl_first_updated: "(\<And>r. q r \<Longrightarrow> q (f r)) \<Longrightarrow> tbl_first q (tbl_update q f rows) = map_option f (tbl_first q rows)"
  by (induction rows) (simp_all add: tbl_update_def tbl_first_def)

lemma upsert_first:
  "\<exists>r. tbl_first (is_row uid agent key) (upsert_session now chatter uid agent key s rows) = Some r
    \<and> sr_messages r = ss_messages s"
proof (cases "tbl_first (is_row uid agent key) rows")
  case None
  then show ?thesis by (simp add: upsert_session_def tbl_first_append tbl_first_Cons is_row_def)
next
  case (Some r)
  have "tbl_first (is_row uid agent key) (tbl_update (is_row uid agent key) f rows) = Some (f r)"
    if "\<And>r. is_row uid agent key r \<Longrightarrow> is_row uid agent key (f r)" for f
    using tbl_first_updated [where q = "is_row uid agent key" and f = f, OF that] Some by simp
  with Some show ?thesis by (simp add: upsert_session_def is_row_def)
qed

lemma upsert_rows: "r \<in> set (upsert_session now chatter uid agent key s rows) \<Longrightarrow>
    (\<exists>r0 \<in> set rows. sr_user r = sr_user r0 \<and> sr_agent r = sr_agent r0 \<and> sr_key r = sr_key r0) \<or> is_row uid agent key r"
  by (auto simp: upsert_session_def tbl_update_def is_row_def split: if_splits)

text \<open>An append of a session the user alone owns, on a database that answers.\<close>

lemma append_message_stored:
  fixes now :: instant and m :: chat_message
  assumes "healthy w" and "sw_stored w" and "sw_user w \<noteq> []" and "h < length (sw_heap w)"
  defines "s \<equiv> sw_heap w ! h"
  defines "ms \<equiv> se_messages s @ [stamp_message now s m]"
  defines "row \<equiv> \<lparr>mr_user = sw_user w, mr_agent = sw_agent w, mr_key = se_key s,
      mr_seq = next_seq (map mr_seq (tbl_select (of_archive (sw_user w) (sw_agent w) (se_key s)) (archive_t (sw_db w)))),
      mr_message = timed now (to_stored now (stamp_message now s m)), mr_chatter = se_chatter s\<rparr>"
  shows "append_message now h m w = (Inr (), w\<lparr>sw_heap := (sw_heap w)[h := s\<lparr>se_messages := ms\<rparr>],
    sw_db := (sw_db w)\<lparr>sessions_t := upsert_session now (se_chatter s) (sw_user w) (sw_agent w) (se_key s)
      \<lparr>ss_channel = se_channel s, ss_account = se_account s, ss_chat = se_chat s, ss_project = se_project s,
       ss_messages = map (to_stored now) ms\<rparr> (sessions_t (sw_db w)),
      archive_t := archive_t (sw_db w) @ [row]\<rparr>\<rparr>)"
  using assms
  by (simp add: append_message_def sess_simps Let_def persist_session_def adapter_save_session_def on_db_def
      save_session_def adapter_append_message_def append_session_message_def step_simps)

text \<open>Getting a session by its key gives an object with what the adapter answers.\<close>

lemma get_by_key_cached:
  assumes "sw_stored w" and "adapter_get_session key w = (Inr ms, w\<lparr>sw_owners := c\<rparr>)"
    and "sw_index w key = Some k" and "k < length (sw_heap w)"
  shows "\<exists>w'. get_by_key key channel account chat project w = (Inr k, w') \<and> k < length (sw_heap w') \<and>
    se_messages (sw_heap w' ! k) = ms \<and> se_key (sw_heap w' ! k) = se_key (sw_heap w ! k) \<and> sw_db w' = sw_db w"
proof -
  have "attempt (adapter_get_session key) f w = f (Inr ms) (w\<lparr>sw_owners := c\<rparr>)" for f :: "user_error + chat_message list \<Rightarrow> unit sess_step"
    using assms(2) by (simp add: attempt_def)
  then have "reload_cached k key w = (Inr (), w\<lparr>sw_owners := c, sw_heap := (sw_heap w)[k := (sw_heap w ! k)\<lparr>se_messages := ms\<rparr>]\<rparr>)"
    by (simp add: reload_cached_def on_session_def alter_def)
  then show ?thesis using assms
    by (cases "channel \<noteq> [] \<or> project \<noteq> []")
      (auto simp add: get_by_key_def look_step and_then_pair on_session_step ok_step ok_def late_bind_def Let_def)
qed

lemma get_by_key_loads:
  assumes "sw_stored w" and "adapter_get_session key w = (Inr ms, w\<lparr>sw_owners := c\<rparr>)"
    and "\<And>k. sw_index w key = Some k \<Longrightarrow> k < length (sw_heap w)"
  shows "\<exists>k w'. get_by_key key channel account chat project w = (Inr k, w') \<and>
    k < length (sw_heap w') \<and> se_messages (sw_heap w' ! k) = ms \<and> sw_db w' = sw_db w"
proof (cases "sw_index w key")
  case None
  then show ?thesis using assms(1,2)
    by (simp add: get_by_key_def sess_simps load_messages_def and_then_def attempt_def look_def ok_def allocate_def)
next
  case (Some k)
  show ?thesis using get_by_key_cached [OF assms(1,2) Some assms(3) [OF Some]] by blast
qed


text \<open>Undo restores the snapshot in memory only; with a store, the next time the session is got its
  messages are again those of the table.\<close>

theorem undo_not_stored:
  assumes "healthy w" and "sw_stored w" and "owned_key w (se_key (sw_heap w ! h))"
    and "sw_owners w (se_key (sw_heap w ! h)) \<in> {None, Some (sw_user w)}"
    and "h < length (sw_heap w)" and "sw_index w (se_key (sw_heap w ! h)) = Some h"
    and "se_snapshot (sw_heap w ! h) = Some ms"
    and "tbl_first (is_row (sw_user w) (sw_agent w) (se_key (sw_heap w ! h))) (sessions_t (sw_db w)) = Some r"
  shows "\<exists>w1 k w2. undo_session h w = (Inr True, w1) \<and> se_messages (sw_heap w1 ! h) = ms \<and>
    get_by_key (se_key (sw_heap w ! h)) channel account chat project w1 = (Inr k, w2) \<and>
    se_messages (sw_heap w2 ! k) = map from_stored (sr_messages r)"
proof -
  let ?key = "se_key (sw_heap w ! h)"
  obtain w1 where w1: "undo_session h w = (Inr True, w1)"
    and same: "sw_db w1 = sw_db w" "sw_stored w1 = sw_stored w" "sw_user w1 = sw_user w" "sw_agent w1 = sw_agent w"
      "sw_owners w1 = sw_owners w" "sw_index w1 = sw_index w" "length (sw_heap w1) = length (sw_heap w)"
    and undone: "se_messages (sw_heap w1 ! h) = ms"
    using assms(5,7) by (simp add: undo_session_def sess_simps rewrite_file_def Let_def ok_def)
  obtain c where "adapter_get_session ?key w1 = (Inr (map from_stored (sr_messages r)), w1\<lparr>sw_owners := c\<rparr>)"
    using adapter_get_own [of w1 ?key r] assms(1,3,4,8) same by (auto simp: owned_key_def)
  from get_by_key_loads [OF _ this] assms(2,5,6) same w1 undone show ?thesis by fastforce
qed

lemma tbl_first_narrow: "tbl_first p rows = Some r \<Longrightarrow> q r \<Longrightarrow> (\<And>x. q x \<Longrightarrow> p x) \<Longrightarrow> tbl_first q rows = Some r"
  by (induction rows) (auto simp: tbl_first_def split: if_splits)

lemma upsert_other:
  assumes "tbl_first (\<lambda>x. sr_agent x = agent \<and> sr_key x = key) rows = Some r" and "sr_user r \<noteq> user"
  shows "tbl_first (\<lambda>x. sr_agent x = agent \<and> sr_key x = key) (upsert_session now chatter user agent key s rows) = Some r"
proof -
  have "tbl_first (\<lambda>x. sr_agent x = agent \<and> sr_key x = key) (tbl_update (is_row user agent key) f rows) = Some r"
    if "\<And>x. sr_agent (f x) = sr_agent x \<and> sr_key (f x) = sr_key x" for f
    using assms by (induction rows) (auto simp: that tbl_update_def tbl_first_def is_row_def split: if_splits)
  then show ?thesis using assms(1) by (simp add: upsert_session_def tbl_first_append)
qed

text \<open>An account owns the session of one of its end users.\<close>

definition child_session :: "sess_world \<Rightarrow> string \<Rightarrow> session_row \<Rightarrow> bool" where
  "child_session w key r = (tbl_first (\<lambda>x. sr_agent x = sw_agent w \<and> sr_key x = key) (sessions_t (sw_db w)) = Some r
     \<and> sr_user r \<noteq> [] \<and> sr_user r \<noteq> sw_user w
     \<and> (case tbl_first (\<lambda>u. u_id u = sr_user r) (users_t (ident_db (sw_db w))) of None \<Rightarrow> False | Some u \<Rightarrow> u_owner u = sw_user w))"

lemma lookup_owner_child:
  assumes "healthy w" and "child_session w key r"
  shows "lookup_owner key w = (Inr (sr_user r), w)"
proof -
  obtain u where "tbl_first (\<lambda>u. u_id u = sr_user r) (users_t (ident_db (sw_db w))) = Some u" "u_owner u = sw_user w"
    using assms(2) by (auto simp: child_session_def split: option.splits)
  then show ?thesis using assms
    by (simp add: lookup_owner_def look_step lookup_session_owner_def child_session_def step_simps attempt_def on_db_def
        found_def ok_def on_ident_def get_user_def)
qed

lemma adapter_get_child:
  assumes "healthy w" and "child_session w key r" and "sw_owners w key \<in> {None, Some (sr_user r)}"
  shows "\<exists>c. c key = Some (sr_user r) \<and> adapter_get_session key w = (Inr (map from_stored (sr_messages r)), w\<lparr>sw_owners := c\<rparr>)"
proof -
  have "tbl_first (is_row (sr_user r) (sw_agent w) key) (sessions_t (sw_db w)) = Some r"
  proof (rule tbl_first_narrow)
    show "tbl_first (\<lambda>x. sr_agent x = sw_agent w \<and> sr_key x = key) (sessions_t (sw_db w)) = Some r"
      using assms(2) by (simp add: child_session_def)
    from tbl_first_SomeD [OF this] show "is_row (sr_user r) (sw_agent w) key r" by (simp add: is_row_def)
  qed (simp add: is_row_def)
  note get = adapter_get_as [OF assms(1) _ this]
  show ?thesis
  proof (cases "sw_owners w key")
    case None
    then have "resolve_session_owner key w = (Inr (sr_user r), w\<lparr>sw_owners := (sw_owners w)(key \<mapsto> sr_user r)\<rparr>)"
      using lookup_owner_child [OF assms(1,2)] by (simp add: resolve_session_owner_def and_then_def look_def alter_def ok_def)
    then show ?thesis using get by (intro exI [of _ "(sw_owners w)(key \<mapsto> sr_user r)"]) simp
  next
    case (Some o')
    then have "resolve_session_owner key w = (Inr (sr_user r), w\<lparr>sw_owners := sw_owners w\<rparr>)"
      using assms(3) by (simp add: resolve_session_owner_def and_then_def look_def ok_def)
    then show ?thesis using get [of "sw_owners w"] Some assms(3) by (intro exI [of _ "sw_owners w"]) simp
  qed
qed


lemma sort_key_last_least:
  "(\<And>y. y \<in> set xs \<Longrightarrow> f x < f y) \<Longrightarrow> sort_key f (xs @ [x]) = x # sort_key f xs"
  for f :: "'a \<Rightarrow> int"
proof (induction xs)
  case (Cons a xs)
  then have "\<not> f a \<le> f x" by (simp add: not_le)
  with Cons show ?case by simp
qed simp

text \<open>C38: a new session opened for a conversation, later than every update of the older ones, is the
  one that the next message of the conversation goes to.\<close>

theorem opened_session_is_active:
  assumes "healthy w" and "sw_stored w" and "sw_user w \<noteq> []" and "fresh \<noteq> []" and "sw_owners w fresh = None"
    and unused: "\<forall>r \<in> set (sessions_t (sw_db w)). sr_key r \<noteq> fresh"
    and later: "\<forall>r \<in> set (sessions_t (sw_db w)). sr_updated r < now"
  shows "\<exists>w1 h w2. open_new_session now fresh channel account chat w = (Inr fresh, w1) \<and>
    get_active minted channel account chat project w1 = (Inr h, w2) \<and> se_key (sw_heap w2 ! h) = fresh"
proof -
  let ?rows = "sessions_t (sw_db w)" and ?u = "sw_user w" and ?a = "sw_agent w"
  let ?new = "\<lparr>sr_user = ?u, sr_agent = ?a, sr_key = fresh, sr_channel = channel, sr_account = account, sr_chat = chat,
    sr_project = [], sr_title = [], sr_messages = [], sr_count = 0, sr_updated = now, sr_chatter = []\<rparr>"
  let ?h = "length (sw_heap w)"
  have none: "tbl_first (is_row ?u ?a fresh) ?rows = None"
    using unused by (auto simp: tbl_first_None is_row_def)
  define w1 where "w1 = w\<lparr>sw_db := (sw_db w)\<lparr>sessions_t := ?rows @ [?new]\<rparr>,
    sw_heap := sw_heap w @ [new_session fresh channel account chat []], sw_index := (sw_index w)(fresh := Some ?h)\<rparr>"
  have opened: "open_new_session now fresh channel account chat w = (Inr fresh, w1)"
    using assms(1-3) none unfolding w1_def
    by (simp add: open_new_session_def sess_simps adapter_save_session_def on_db_def save_session_def step_simps
        upsert_session_def ok_def new_session_def)
  have w1: "healthy w1" "sw_stored w1" "sessions_t (sw_db w1) = ?rows @ [?new]" "sw_user w1 = ?u" "sw_agent w1 = ?a"
    "sw_index w1 fresh = Some ?h" "?h < length (sw_heap w1)" "se_key (sw_heap w1 ! ?h) = fresh" "sw_owners w1 fresh = None"
    using assms(1,2,5) by (simp_all add: w1_def new_session_def)
  have "newest_first (tbl_select (of_triple ?u ?a (channel, account, chat)) (?rows @ [?new]))
      = ?new # newest_first (tbl_select (of_triple ?u ?a (channel, account, chat)) ?rows)"
    using later by (simp add: newest_first_def tbl_select_def of_triple_def) (rule sort_key_last_least, auto)
  then have "newest_key (tbl_select (of_triple ?u ?a (channel, account, chat)) (sessions_t (sw_db w1))) = Inr fresh"
    by (simp add: newest_key_def w1(3))
  then have "adapter_resolve_active channel account chat w1 = (Inr fresh, w1)"
    using w1(1) by (simp add: adapter_resolve_active_def look_step not_found_as_def on_db_def resolve_active_session_key_def
        attempt_def step_simps w1(4,5) ok_def)
  then have active: "resolve_or_mint_key minted channel account chat w1 = (Inr fresh, w1)"
    using w1(2) assms(4) by (simp add: resolve_or_mint_key_def look_step Let_def attempt_def ok_def)
  have "owned_key w1 fresh" using unused by (auto simp: owned_key_def w1)
  moreover have "tbl_first (is_row (sw_user w1) (sw_agent w1) fresh) (sessions_t (sw_db w1)) = Some ?new"
    using none by (simp add: w1 tbl_first_append tbl_first_Cons is_row_def)
  ultimately obtain c where "adapter_get_session fresh w1 = (Inr (map from_stored []), w1\<lparr>sw_owners := c\<rparr>)"
    using adapter_get_own [OF w1(1)] w1(9) by fastforce
  from get_by_key_cached [OF w1(2) this w1(6,7)] w1(8)
  obtain w2 where "get_by_key fresh channel account chat project w1 = (Inr ?h, w2)" "se_key (sw_heap w2 ! ?h) = fresh"
    by blast
  with opened active show ?thesis by (auto simp: get_active_def and_then_def)
qed

section \<open>Witnesses\<close>

definition demo_session_row :: "string \<Rightarrow> string \<Rightarrow> session_row" where
  "demo_session_row uid key = \<lparr>sr_user = uid, sr_agent = ''a'', sr_key = key, sr_channel = ''tg'', sr_account = ''b'', sr_chat = ''c'',
     sr_project = [], sr_title = [], sr_messages = [simple_message ''user'' ''old''], sr_count = 1, sr_updated = 5, sr_chatter = []\<rparr>"

definition demo_child :: user_rec where
  "demo_child = \<lparr>u_id = ''v'', u_name = [], u_email = [], u_hash = [], u_display = [], u_role = [], u_status = [], u_key = [],
     u_external = [], u_owner = ''u'', u_avatar = [], u_quota = 0, u_created = None, u_updated = 0\<rparr>"

definition demo_world :: "session_row list \<Rightarrow> session list \<Rightarrow> sess_world" where
  "demo_world rows heap = \<lparr>sw_db = demo_chat_db\<lparr>sessions_t := rows, ident_db := (ident_db demo_chat_db)\<lparr>users_t := [demo_child]\<rparr>\<rparr>,
     sw_files = (\<lambda>_. None), sw_titles = (\<lambda>_. None), sw_heap = heap,
     sw_index = (if heap = [] then (\<lambda>_. None) else [''k'' \<mapsto> 0]), sw_owners = (\<lambda>_. None),
     sw_user = ''u'', sw_agent = ''a'', sw_dir = [], sw_stored = True\<rparr>"

definition demo_session :: session where
  "demo_session = (new_session ''k'' ''tg'' ''b'' ''c'' [])\<lparr>se_messages := [simple_message ''user'' ''old''],
     se_snapshot := Some []\<rparr>"

lemmas demo_world_defs = demo_world_def demo_chat_db_def demo_session_def demo_session_row_def demo_child_def new_session_def


theorem undo_not_stored_witness:
  "\<exists>w1 k w2. undo_session 0 (demo_world [demo_session_row ''u'' ''k''] [demo_session]) = (Inr True, w1) \<and>
    se_messages (sw_heap w1 ! 0) = [] \<and>
    get_by_key ''k'' [] [] [] [] w1 = (Inr k, w2) \<and> map cm_content (se_messages (sw_heap w2 ! k)) = [''old'']"
proof -
  let ?w = "demo_world [demo_session_row ''u'' ''k''] [demo_session]"
  have key: "se_key (sw_heap ?w ! 0) = ''k''" by (simp add: demo_world_defs)
  have "\<exists>w1 k w2. undo_session 0 ?w = (Inr True, w1) \<and> se_messages (sw_heap w1 ! 0) = [] \<and>
    get_by_key (se_key (sw_heap ?w ! 0)) [] [] [] [] w1 = (Inr k, w2) \<and>
    se_messages (sw_heap w2 ! k) = map from_stored (sr_messages (demo_session_row ''u'' ''k''))"
    by (rule undo_not_stored) (simp_all add: demo_world_defs owned_key_def tbl_first_Cons is_row_def)
  then show ?thesis unfolding key by (fastforce simp: demo_session_row_def from_stored_def simple_message_def)
qed


theorem opened_session_is_active_witness:
  "\<exists>w1 h w2. open_new_session 9 ''n'' ''tg'' ''b'' ''c'' (demo_world [demo_session_row ''u'' ''k''] []) = (Inr ''n'', w1) \<and>
    get_active ''z'' ''tg'' ''b'' ''c'' [] w1 = (Inr h, w2) \<and> se_key (sw_heap w2 ! h) = ''n''"
  by (rule opened_session_is_active) (simp_all add: demo_world_defs)

end
