(* ===== verification/Turn.thy ===== *)
theory Turn
  imports Session Usage
begin

text \<open>
  A turn of the agent, \<^verbatim>\<open>HandleMessage\<close> of \<^verbatim>\<open>internal/agent/loop.go\<close>: the
  loop of model calls and tool rounds with its loop detection, failure counting, steering and
  forced final delivery, and what its deferred functions leave of the session. The model service,
  the tool runner and the arrival of steering messages are an environment, indexed by the number
  of the call; so are the parts of the program that prepare the prompt. Hooks, media files and the
  full-text index are left out, and one clock reading serves a whole turn.
\<close>

section \<open>Replies of the model\<close>

record response =
  rs_content :: string
  rs_calls :: "tool_call list"
  rs_thinking :: string
  rs_usage :: tokens
  rs_raw :: "param option"

record stream_chunk =
  sk_content :: string
  sk_calls :: "tool_call list"
  sk_done :: bool
  sk_thinking :: string
  sk_signature :: string
  sk_usage :: tokens
  sk_raw :: "param option"

definition no_tokens :: tokens where
  "no_tokens = \<lparr>tk_input = 0, tk_output = 0, tk_cache_read = 0, tk_cache_creation = 0\<rparr>"

text \<open>The streamed chunks folded into a response, with the deltas shown on the way.\<close>

definition stream_step :: "stream_chunk \<Rightarrow> response \<times> string \<times> string list \<Rightarrow> response \<times> string \<times> string list" where
  "stream_step c st = (case st of (r, sig, deltas) \<Rightarrow>
     let r1 = r\<lparr>rs_content := rs_content r @ sk_content c\<rparr>;
         deltas' = (if sk_content c \<noteq> [] then deltas @ [sk_content c] else deltas);
         u = sk_usage c
     in if \<not> sk_done c then (r1, sig, deltas')
        else (r1\<lparr>rs_calls := sk_calls c,
                rs_thinking := (if sk_thinking c \<noteq> [] then sk_thinking c else rs_thinking r1),
                rs_raw := (if sk_raw c \<noteq> None then sk_raw c else rs_raw r1),
                rs_usage := (if tk_input u > 0 \<or> tk_output u > 0 \<or> tk_cache_read u > 0 \<or> tk_cache_creation u > 0
                  then u else rs_usage r1)\<rparr>,
              (if sk_signature c \<noteq> [] then sk_signature c else sig), deltas'))"

definition stream_to_response :: "bool \<Rightarrow> stream_chunk list \<Rightarrow> string option \<Rightarrow> (string + response) \<times> string list" where
  "stream_to_response emit_deltas chunks failure =
     (case fold stream_step chunks (\<lparr>rs_content = [], rs_calls = [], rs_thinking = [], rs_usage = no_tokens, rs_raw = None\<rparr>, [], []) of
        (r, sig, deltas) \<Rightarrow>
          ((case failure of Some e \<Rightarrow> Inl e
            | None \<Rightarrow> Inr (if rs_raw r = None \<and> rs_thinking r \<noteq> []
                then r\<lparr>rs_raw := Some (Param_Object [(''signature'', Param_Text sig), (''thinking'', Param_Text (rs_thinking r)),
                  (''type'', Param_Text ''thinking'')])\<rparr> else r)),
           if emit_deltas then deltas else []))"

text \<open>Up to three attempts; a context error ends them, and so does a context that ends while waiting.\<close>

definition llm_retry_attempts :: nat where "llm_retry_attempts = 3"

fun llm_retry_from :: "(string \<Rightarrow> bool) \<Rightarrow> (nat \<Rightarrow> string option) \<Rightarrow> (nat \<Rightarrow> string + 'a) \<Rightarrow> nat \<Rightarrow> nat \<Rightarrow> string + 'a" where
  "llm_retry_from terminal cancelled f k 0 = f k"
| "llm_retry_from terminal cancelled f k (Suc n) = (case f k of
     Inr a \<Rightarrow> Inr a
   | Inl e \<Rightarrow> if terminal e then Inl e
       else (case cancelled k of Some c \<Rightarrow> Inl (e @ newline @ c)
         | None \<Rightarrow> llm_retry_from terminal cancelled f (Suc k) n))"

definition llm_retry :: "(string \<Rightarrow> bool) \<Rightarrow> (nat \<Rightarrow> string option) \<Rightarrow> (nat \<Rightarrow> string + 'a) \<Rightarrow> string + 'a" where
  "llm_retry terminal cancelled f = llm_retry_from terminal cancelled f 1 (llm_retry_attempts - 1)"

text \<open>Tool calls found in the text; \<open>recover\<close> is the parser of \<^verbatim>\<open>recoverToolCallsFromContent\<close>.\<close>

definition maybe_recover :: "(string \<Rightarrow> tool_call list \<times> string) \<Rightarrow> response \<Rightarrow> response" where
  "maybe_recover recover r =
     (if rs_calls r \<noteq> [] \<or> rs_content r = [] then r
      else case recover (rs_content r) of (calls, residual) \<Rightarrow>
        if calls = [] then (if residual \<noteq> rs_content r then r\<lparr>rs_content := residual, rs_raw := None\<rparr> else r)
        else r\<lparr>rs_calls := calls, rs_content := residual, rs_raw := None\<rparr>)"

definition scrub_leaked :: "(string \<Rightarrow> tool_call list \<times> string) \<Rightarrow> string \<Rightarrow> string" where
  "scrub_leaked recover s = (case recover s of (calls, residual) \<Rightarrow>
     if calls \<noteq> [] \<or> residual \<noteq> s then trim_space residual else s)"

section \<open>Tool results\<close>

record tool_result =
  tr_id :: string
  tr_name :: string
  tr_text :: string
  tr_error :: "string option"

text \<open>What the tool runner answers: the id, the result (an error flag, its message and the texts of its
  content blocks), and an error of its own.\<close>

record sdk_response =
  sr_id :: string
  sr_result :: "(bool \<times> string \<times> string list) option"
  sr_error :: "string option"

definition no_response_text :: string where
  "no_response_text = ''tool execution did not return a result (sandbox or executor failure '' @
     map char_of [226 :: nat, 128, 148] @ '' check gateway logs)''"

definition analyze_note :: string where
  "analyze_note = ''[Analyze the error above and try a different approach.]''"

definition bridge_result :: "sdk_response list \<Rightarrow> tool_call \<Rightarrow> tool_result" where
  "bridge_result rs c = (case find (\<lambda>r. sr_id r = tc_id c) (rev rs) of
     None \<Rightarrow> \<lparr>tr_id = tc_id c, tr_name = tc_name c, tr_text = no_response_text,
       tr_error = Some (''no response from executor for tool_use '' @ tc_id c)\<rparr>
   | Some r \<Rightarrow> (case sr_result r of
       Some (True, message, texts) \<Rightarrow>
         (let e = (if message = [] \<and> texts \<noteq> [] then hd texts else message)
          in \<lparr>tr_id = sr_id r, tr_name = tc_name c, tr_text = e @ newline @ analyze_note, tr_error = Some e\<rparr>)
     | Some (False, message, texts) \<Rightarrow>
         \<lparr>tr_id = sr_id r, tr_name = tc_name c, tr_text = join_with newline (filter (\<lambda>s. s \<noteq> []) texts), tr_error = sr_error r\<rparr>
     | None \<Rightarrow> \<lparr>tr_id = sr_id r, tr_name = tc_name c, tr_text = [], tr_error = sr_error r\<rparr>))"

definition bridge_results :: "sdk_response list \<Rightarrow> tool_call list \<Rightarrow> tool_result list" where
  "bridge_results rs calls = map (bridge_result rs) calls"

definition deferred_result :: "nat \<Rightarrow> nat \<Rightarrow> tool_call \<Rightarrow> tool_result" where
  "deferred_result cap emitted c = \<lparr>tr_id = tc_id c, tr_name = tc_name c,
     tr_text = ''Deferred '' @ map char_of [226 :: nat, 128, 148] @ '' this turn's parallel-tool cap is '' @ show_nat cap @
       '', and you emitted '' @ show_nat emitted @ ''. Re-issue this exact call next round if you still need it; you'll have the other tools' results to inform the decision then.'',
     tr_error = None\<rparr>"

text \<open>The backstop for missing results, keyed by id.\<close>

definition pad_results :: "tool_call list \<Rightarrow> tool_result list \<Rightarrow> tool_result list" where
  "pad_results calls rs = (if length rs < length calls
     then map (\<lambda>c. case find (\<lambda>r. tr_id r = tc_id c) (rev rs) of Some r \<Rightarrow> r
       | None \<Rightarrow> \<lparr>tr_id = tc_id c, tr_name = tc_name c, tr_text = ''tool execution did not return a result'',
           tr_error = Some (''missing executor response for '' @ tc_id c)\<rparr>) calls
     else rs)"

definition round_results :: "nat \<Rightarrow> (tool_call list \<Rightarrow> sdk_response list) \<Rightarrow> tool_call list \<Rightarrow> tool_result list" where
  "round_results cap run calls =
     (let n = (if 0 < cap \<and> cap < length calls then cap else length calls)
      in pad_results calls (bridge_results (run (take n calls)) (take n calls)
           @ map (deferred_result cap (length calls)) (drop n calls)))"

definition meta_sandbox_prefix :: string where
  "meta_sandbox_prefix = [CHR 0x1F] @ ''FC_META:sandbox'' @ [CHR 0x1F] @ newline"

definition extract_tool_meta :: "string \<Rightarrow> string \<times> (string \<times> param) list" where
  "extract_tool_meta s = (if has_prefix s meta_sandbox_prefix
     then (trim_prefix s meta_sandbox_prefix, [(''sandbox'', Param_Bool True)]) else (s, []))"

definition is_failed_tool_result :: "string option \<Rightarrow> string \<Rightarrow> bool" where
  "is_failed_tool_result err content = (err \<noteq> None \<or> (let c = trim_space content in
     has_prefix c ''HTTP 4'' \<or> has_prefix c ''HTTP 5'' \<or> contains c analyze_note))"

definition first_non_empty_line :: "string \<Rightarrow> string" where
  "first_non_empty_line s = (case filter (\<lambda>l. l \<noteq> []) (map trim_space (split_char (CHR 0x0A) s)) of
     [] \<Rightarrow> []
   | l # _ \<Rightarrow> if length l > 120 then take 120 l @ map char_of [226 :: nat, 128, 166] else l)"

section \<open>The state of a turn\<close>

datatype turn_event =
  Ev_Content string "(string \<times> param) list" | Ev_Call string string string
  | Ev_Result string string string "(string \<times> param) list" | Ev_Steer string | Ev_Error string | Ev_Done | Ev_Pending

text \<open>The environment: what is configured, and what the services answer. \<open>te_chat\<close> is the outcome of
  the n-th model call, retries included, for a prompt and with or without tools; \<open>te_pushes\<close> are
  the steering messages that arrive before the n-th time the loop looks for them, \<open>te_late\<close> those
  that arrive before the turn is over.\<close>

record turn_env =
  te_max :: nat
  te_parallel :: nat
  te_now :: instant
  te_model :: "string option"
  te_system :: "chat_message list"
  te_meta :: "(string \<times> param) list"
  te_view :: "chat_message list \<Rightarrow> chat_message list"
  te_scrub :: "chat_message list \<Rightarrow> chat_message list"
  te_summary :: "chat_message list \<Rightarrow> string + string"
  te_chat :: "nat \<Rightarrow> chat_message list \<Rightarrow> bool \<Rightarrow> string + response"
  te_recover :: "string \<Rightarrow> tool_call list \<times> string"
  te_run :: "nat \<Rightarrow> tool_call list \<Rightarrow> sdk_response list"
  te_hash :: "string \<Rightarrow> string"
  te_pushes :: "nat \<Rightarrow> chat_message list"
  te_late :: "chat_message list"

record turn =
  tn_session :: session
  tn_messages :: "chat_message list"
  tn_sig :: "string \<times> string"
  tn_repeat :: nat
  tn_tools :: nat
  tn_failed :: nat
  tn_parts :: "string list"
  tn_events :: "turn_event list"
  tn_metered :: "tokens list"
  tn_failures :: "((string \<times> string) \<times> string) list"
  tn_asks :: nat
  tn_drains :: nat

definition note_message :: "instant \<Rightarrow> chat_message \<Rightarrow> session \<Rightarrow> session" where
  "note_message now m s = s\<lparr>se_messages := se_messages s @ [stamp_message now s m]\<rparr>"

definition noted :: "turn_env \<Rightarrow> chat_message \<Rightarrow> turn \<Rightarrow> turn" where
  "noted env m t = t\<lparr>tn_session := note_message (te_now env) m (tn_session t)\<rparr>"

definition show_event :: "turn_event \<Rightarrow> turn \<Rightarrow> turn" where
  "show_event e t = t\<lparr>tn_events := tn_events t @ [e]\<rparr>"

definition send_on :: "chat_message \<Rightarrow> turn \<Rightarrow> turn" where
  "send_on m t = t\<lparr>tn_messages := tn_messages t @ [m]\<rparr>"

definition arrive :: "chat_message list \<Rightarrow> session \<Rightarrow> session" where
  "arrive ms s = fold (\<lambda>m s. snd (push_steer_if_active m s)) ms s"

definition drained :: "turn_env \<Rightarrow> turn \<Rightarrow> chat_message list \<times> turn" where
  "drained env t = (case drain_steer (arrive (te_pushes env (tn_drains t)) (tn_session t)) of
     (ms, s) \<Rightarrow> (ms, t\<lparr>tn_session := s, tn_drains := Suc (tn_drains t)\<rparr>))"

definition append_steer :: "turn_env \<Rightarrow> chat_message list \<Rightarrow> turn \<Rightarrow> turn" where
  "append_steer env ms t = fold (\<lambda>m t. show_event (Ev_Steer (cm_content m)) (send_on m (noted env m t))) ms t"

definition metered :: "response \<Rightarrow> turn \<Rightarrow> turn" where
  "metered r t = t\<lparr>tn_metered := tn_metered t @ [rs_usage r]\<rparr>"

text \<open>Loop detection: the name and the hash of the arguments, against the call before.\<close>

fun loop_check :: "(string \<Rightarrow> string) \<Rightarrow> tool_call list \<Rightarrow> (string \<times> string) \<times> nat \<Rightarrow> bool \<times> (string \<times> string) \<times> nat" where
  "loop_check hash [] (sig, n) = (False, sig, n)"
| "loop_check hash (c # cs) (sig, n) =
     (let this_sig = (tc_name c, hash (tc_args c)); n' = (if this_sig = sig then Suc n else 1)
      in if 3 \<le> n' then (True, this_sig, n') else loop_check hash cs (this_sig, n'))"

definition loop_warning :: chat_message where
  "loop_warning = simple_message ''system'' ''Loop detected: you called the same tool with the same arguments 3 times. Please try a different approach.''"

definition stop_tools_nudge :: "nat \<Rightarrow> chat_message" where
  "stop_tools_nudge n = simple_message ''system'' (''The last '' @ show_nat n @
     '' rounds of tool calls all failed (HTTP errors or empty results). Stop calling tools and answer the user directly with what you know '' @
     map char_of [226 :: nat, 128, 148] @ '' explain that authoritative sources weren't reachable and provide your best-effort response based on training knowledge, clearly marked as unverified.'')"

definition failed_rounds_limit :: nat where "failed_rounds_limit = 3"

definition assistant_message :: "turn_env \<Rightarrow> response \<Rightarrow> chat_message" where
  "assistant_message env r = (simple_message ''assistant'' (rs_content r))\<lparr>cm_calls := rs_calls r, cm_thinking := rs_thinking r,
     cm_meta := te_meta env, cm_time := te_now env div 1000000, cm_raw := rs_raw r\<rparr>"

definition tool_message :: "tool_call \<Rightarrow> tool_result \<Rightarrow> chat_message" where
  "tool_message c r = (case extract_tool_meta (tr_text r) of (content, meta) \<Rightarrow>
     (answering (tc_id c) (tr_name r) content)\<lparr>cm_meta := meta\<rparr>)"

definition split_marker :: string where "split_marker = ''<|split|>''"

definition join_reply_parts :: "string list \<Rightarrow> string" where
  "join_reply_parts parts = join_with split_marker (filter (\<lambda>p. trim_space p \<noteq> []) parts)"

section \<open>A round\<close>

datatype round = Next turn | Looped turn | Finish string turn | Crash turn

definition summary_of_failure :: "string \<Rightarrow> string \<Rightarrow> string" where
  "summary_of_failure e content = (if e = [] \<or> e = ''<nil>'' then first_non_empty_line content else e)"

definition record_failure :: "turn_env \<Rightarrow> string \<Rightarrow> string \<Rightarrow> string \<Rightarrow> turn \<Rightarrow> turn" where
  "record_failure env name args summary t =
     (if summary = [] then t else t\<lparr>tn_failures := tn_failures t @ [((name, te_hash env args), summary)]\<rparr>)"

text \<open>A result that counts as failed although the tool gave no error has its missing error asked for its
  text: \<open>None\<close>.\<close>

definition result_failed :: "tool_call \<Rightarrow> tool_result \<Rightarrow> bool" where
  "result_failed c r = is_failed_tool_result (tr_error r) (cm_content (tool_message c r))"

definition judge_result :: "turn_env \<Rightarrow> tool_call \<Rightarrow> tool_result \<Rightarrow> turn \<Rightarrow> turn option" where
  "judge_result env c r t =
     (if \<not> result_failed c r then Some t
      else case tr_error r of
          None \<Rightarrow> None
        | Some e \<Rightarrow> Some (record_failure env (tr_name r) (tc_args c) (summary_of_failure e (cm_content (tool_message c r))) t))"

definition take_result :: "turn_env \<Rightarrow> tool_call \<Rightarrow> tool_result \<Rightarrow> turn \<Rightarrow> turn" where
  "take_result env c r t = (let m = tool_message c r in
     show_event (Ev_Result (tc_id c) (tr_name r) (cm_content m) (cm_meta m)) (send_on m (noted env m t)))"

text \<open>The results one by one, with whether all have failed so far.\<close>

fun process_results :: "turn_env \<Rightarrow> (tool_result \<times> tool_call) list \<Rightarrow> bool \<Rightarrow> turn \<Rightarrow> turn \<times> bool option" where
  "process_results env [] all_failed t = (t, Some all_failed)"
| "process_results env ((r, c) # rs) all_failed t =
     (case judge_result env c r (t\<lparr>tn_tools := Suc (tn_tools t)\<rparr>) of
        None \<Rightarrow> (t\<lparr>tn_tools := Suc (tn_tools t)\<rparr>, None)
      | Some t1 \<Rightarrow> process_results env rs (all_failed \<and> result_failed c r) (take_result env c r t1))"

definition empty_reply :: string where "empty_reply = ''model returned an empty response''"
definition error_reply :: string where "error_reply = ''Sorry, I encountered an error processing your request.''"

definition no_provider_reply :: "string \<Rightarrow> string" where
  "no_provider_reply model = ''Agent is not configured with a usable LLM provider. Check that cfg.Providers contains the prefix referenced by model `'' @ model @ ''`.''"

definition answer_round :: "turn_env \<Rightarrow> response \<Rightarrow> turn \<Rightarrow> round" where
  "answer_round env r t =
     (if trim_space (rs_content r) = []
      then Finish empty_reply (show_event Ev_Done (show_event (Ev_Error empty_reply) t))
      else let asst = assistant_message env r;
               t1 = show_event (Ev_Content (rs_content r) (te_meta env)) (noted env asst t);
               t2 = t1\<lparr>tn_parts := tn_parts t1 @ [rs_content r]\<rparr>
           in case drained env t2 of (ms, t3) \<Rightarrow>
             if ms \<noteq> [] then Next (append_steer env ms (if rs_content r \<noteq> [] then send_on asst t3 else t3))
             else Finish (join_reply_parts (tn_parts t3)) (show_event Ev_Done t3))"

definition tool_round :: "turn_env \<Rightarrow> response \<Rightarrow> turn \<Rightarrow> round" where
  "tool_round env r t =
     (let t1 = (if rs_content r \<noteq> [] then (show_event (Ev_Content (rs_content r) (te_meta env)) t)\<lparr>tn_parts := tn_parts t @ [rs_content r]\<rparr> else t);
          t2 = fold (\<lambda>c. show_event (Ev_Call (tc_id c) (tc_name c) (tc_args c))) (rs_calls r) t1;
          asst = assistant_message env r; t3 = send_on asst (noted env asst t2)
      in case loop_check (te_hash env) (rs_calls r) (tn_sig t3, tn_repeat t3) of (looped, sig, n) \<Rightarrow>
        (let t4 = t3\<lparr>tn_sig := sig, tn_repeat := n\<rparr>
         in if looped then Looped (send_on loop_warning (noted env loop_warning t4))
            else (let results = round_results (te_parallel env) (te_run env (tn_asks t4)) (rs_calls r)
                  in case process_results env (zip results (rs_calls r)) (results \<noteq> []) t4 of
                       (t5, None) \<Rightarrow> Crash t5
                     | (t5, Some all_failed) \<Rightarrow>
                         (case drained env (t5\<lparr>tn_failed := (if all_failed then Suc (tn_failed t5) else 0)\<rparr>) of
                            (ms, t6) \<Rightarrow> Next (append_steer env ms t6)))))"

definition ask :: "turn_env \<Rightarrow> chat_message list \<Rightarrow> bool \<Rightarrow> turn \<Rightarrow> (string + response) \<times> turn" where
  "ask env ms tools t = (te_chat env (tn_asks t) ms tools, t\<lparr>tn_asks := Suc (tn_asks t)\<rparr>)"

definition react_round :: "turn_env \<Rightarrow> turn \<Rightarrow> round" where
  "react_round env t = (case te_model env of
     Some model \<Rightarrow> Finish (no_provider_reply model)
       (show_event Ev_Done (show_event (Ev_Error (no_provider_reply model)) t))
   | None \<Rightarrow>
       (let stop = (failed_rounds_limit \<le> tn_failed t);
            prompt = te_scrub env (tn_messages t) @ (if stop then [stop_tools_nudge (tn_failed t)] else [])
        in case ask env prompt (\<not> stop) t of
             (Inl e, t1) \<Rightarrow> Finish error_reply (show_event Ev_Done (show_event (Ev_Error e) t1))
           | (Inr r, t1) \<Rightarrow>
               (let t2 = metered r t1; r' = maybe_recover (te_recover env) r
                in if rs_calls r' = [] then answer_round env r' t2 else tool_round env r' t2)))"

section \<open>The turn\<close>

datatype ending = Answered string | Loop_Found | Cap_Reached | Crashed

fun react :: "turn_env \<Rightarrow> nat \<Rightarrow> turn \<Rightarrow> ending \<times> turn" where
  "react env 0 t = (Cap_Reached, t)"
| "react env (Suc n) t = (case react_round env t of
     Next t' \<Rightarrow> react env n t'
   | Looped t' \<Rightarrow> (Loop_Found, t')
   | Finish reply t' \<Rightarrow> (Answered reply, t')
   | Crash t' \<Rightarrow> (Crashed, t'))"

definition cap_nudge :: "nat \<Rightarrow> chat_message" where
  "cap_nudge n = simple_message ''system'' (''You've used all '' @ show_nat n @ '' tool-call iterations available for this turn. Tools are now disabled for this final response '' @
     map char_of [226 :: nat, 128, 148] @ '' do not attempt to call any. Synthesize what you've already gathered into the most complete deliverable you can: if the user asked for a structured artifact (table, list, ICP summary, email drafts, etc.), produce it now from the existing tool results. For any fields you couldn't resolve, mark them as 'unknown' / 'not found' / 'partial' rather than dropping rows or skipping the structure '' @
     map char_of [226 :: nat, 128, 148] @ '' give the user something usable plus an honest note about what's missing. Do not apologize without delivering content.'')"

definition cap_reply :: "nat \<Rightarrow> string" where
  "cap_reply n = ''I've reached the maximum number of tool iterations ('' @ show_nat n @
     '') and couldn't synthesize a final response. The work above represents what I gathered before hitting the limit.''"

definition merge_metadata :: "(string \<times> param) list \<Rightarrow> (string \<times> param) list \<Rightarrow> (string \<times> param) list" where
  "merge_metadata base extra = filter (\<lambda>(k, v). k \<notin> fst ` set extra) base @ extra"

definition iteration_cap_metadata :: "nat \<Rightarrow> (string \<times> param) list" where
  "iteration_cap_metadata n = [(''iterationCapReached'', Param_Bool True), (''iterationCapValue'', Param_Num (show_nat n))]"

text \<open>One more call, without tools, whatever ended the loop.\<close>

definition final_delivery :: "turn_env \<Rightarrow> turn \<Rightarrow> string \<times> turn" where
  "final_delivery env t =
     (case ask env (te_scrub env (tn_messages t @ [cap_nudge (te_max env)])) False t of (outcome, t1) \<Rightarrow>
       (let got = (case outcome of Inl e \<Rightarrow> ([], t1) | Inr r \<Rightarrow> (scrub_leaked (te_recover env) (rs_content r), metered r t1));
            content = (if fst got = [] then cap_reply (te_max env) else fst got);
            meta = merge_metadata (iteration_cap_metadata (te_max env)) (te_meta env);
            m = (simple_message ''assistant'' content)\<lparr>cm_meta := meta, cm_time := te_now env div 1000000\<rparr>;
            t2 = show_event (Ev_Content content meta) (noted env m (snd got));
            t3 = show_event Ev_Done (t2\<lparr>tn_parts := tn_parts t2 @ [content]\<rparr>)
        in (join_reply_parts (tn_parts t3), t3)))"

definition start_turn :: "turn_env \<Rightarrow> inbound_message \<Rightarrow> session \<Rightarrow> turn" where
  "start_turn env msg s0 =
     (let s1 = note_message (te_now env) (build_user_message msg) (begin_turn s0);
          compacted = compact_messages (te_summary env) (se_messages s1);
          s2 = (if snd compacted then s1\<lparr>se_messages := fst compacted, se_consolidated := 0\<rparr> else s1)
      in \<lparr>tn_session = s2, tn_messages = te_system env @ te_view env (fst compacted), tn_sig = ([], replicate 32 (CHR 0x00)),
          tn_repeat = 0, tn_tools = 0, tn_failed = 0, tn_parts = [], tn_events = [], tn_metered = [], tn_failures = [],
          tn_asks = 0, tn_drains = 0\<rparr>)"

text \<open>The deferred functions, which run on a crash too: padding, then the end of the turn.\<close>

definition settle :: "turn_env \<Rightarrow> session \<Rightarrow> session" where
  "settle env s =
     (let s1 = fold (note_message (te_now env)) (pad_orphans (se_messages s)) s
      in case end_turn (arrive (te_late env) s1) of (leftover, s2) \<Rightarrow> fold (note_message (te_now env)) leftover s2)"

text \<open>No reply is the end of the process.\<close>

definition agent_turn :: "turn_env \<Rightarrow> inbound_message \<Rightarrow> session \<Rightarrow> ending \<times> string option \<times> turn" where
  "agent_turn env msg s0 = (case react env (te_max env) (start_turn env msg s0) of (e, t) \<Rightarrow>
     (case (case e of Answered reply \<Rightarrow> (Some reply, t) | Crashed \<Rightarrow> (None, t)
            | _ \<Rightarrow> (case final_delivery env t of (reply, t') \<Rightarrow> (Some reply, t'))) of
        (reply, t') \<Rightarrow> (e, reply, t'\<lparr>tn_session := settle env (tn_session t')\<rparr>)))"

text \<open>What comes before: a slash command, the quota and plan mode may answer instead. \<open>planned\<close> is the
  reply of plan mode when the message asks for it and no goal is active.\<close>

datatype handled = By_Slash string bool | By_Quota string | By_Plan string | By_Turn "ending \<times> string option \<times> turn"

definition handle_message :: "(string \<times> bool) option \<Rightarrow> string \<Rightarrow> string option \<Rightarrow> turn_env \<Rightarrow> inbound_message \<Rightarrow> session
    \<Rightarrow> handled \<times> turn_event list" where
  "handle_message slash rejection planned env msg s = (case slash of
     Some (reply, queued) \<Rightarrow> (By_Slash reply queued, (if reply \<noteq> [] then [Ev_Content reply []] else []) @ [if queued then Ev_Pending else Ev_Done])
   | None \<Rightarrow> if rejection \<noteq> [] then (By_Quota rejection, [Ev_Content rejection [], Ev_Done])
       else (case planned of Some reply \<Rightarrow> (By_Plan reply, [])
         | None \<Rightarrow> (By_Turn (agent_turn env msg s), tn_events (snd (snd (agent_turn env msg s))))))"

section \<open>How much a turn does\<close>

lemmas turn_steps = noted_def show_event_def send_on_def metered_def ask_def

lemma append_steer_counts [simp]: "tn_asks (append_steer env ms t) = tn_asks t \<and> tn_tools (append_steer env ms t) = tn_tools t"
  by (induction ms arbitrary: t) (simp_all add: append_steer_def turn_steps)

lemma drained_counts [simp]: "tn_asks (snd (drained env t)) = tn_asks t"
  by (simp add: drained_def split: prod.splits)

lemma judge_session:
  assumes "judge_result env c r t = Some t'"
  shows "tn_asks t' = tn_asks t" and "tn_session t' = tn_session t" and "tn_drains t' = tn_drains t"
  using assms by (auto simp: judge_result_def record_failure_def split: if_splits option.splits)

lemma process_asks: "process_results env rs f t = (t', x) \<Longrightarrow> tn_asks t' = tn_asks t"
proof (induction rs arbitrary: f t)
  case (Cons rc rs)
  obtain r c where "rc = (r, c)" by (cases rc)
  with Cons show ?case
    by (fastforce simp: take_result_def Let_def turn_steps dest: judge_session split: option.splits)
qed simp

lemma fold_show_asks [simp]: "tn_asks (fold (\<lambda>c. show_event (f c)) cs t) = tn_asks t"
  by (induction cs arbitrary: t) (simp_all add: turn_steps)

definition round_turn :: "round \<Rightarrow> turn" where
  "round_turn r = (case r of Next t \<Rightarrow> t | Looped t \<Rightarrow> t | Finish s t \<Rightarrow> t | Crash t \<Rightarrow> t)"

lemma drained_asks: "drained env t = (ms, t') \<Longrightarrow> tn_asks t' = tn_asks t"
  using drained_counts [of env t] by simp

lemma answer_asks: "tn_asks (round_turn (answer_round env r t)) = tn_asks t"
  by (auto simp: answer_round_def Let_def round_turn_def turn_steps split: prod.splits dest!: drained_asks)

lemma tool_asks: "tn_asks (round_turn (tool_round env r t)) = tn_asks t"
  by (auto simp: tool_round_def Let_def round_turn_def turn_steps split: prod.splits option.splits if_splits
      dest!: drained_asks process_asks)

lemma round_asks: "tn_asks (round_turn (react_round env t)) \<le> Suc (tn_asks t)"
  by (auto simp: react_round_def ask_def Let_def answer_asks tool_asks metered_def split: option.splits sum.splits)
    (simp_all add: round_turn_def turn_steps)

lemma react_asks: "tn_asks (snd (react env n t)) \<le> tn_asks t + n"
proof (induction n arbitrary: t)
  case (Suc n)
  have "tn_asks (round_turn (react_round env t)) \<le> Suc (tn_asks t)" by (rule round_asks)
  then show ?case using Suc by (cases "react_round env t") (auto simp: round_turn_def intro: order_trans [OF Suc])
qed simp


end
