(* ===== verification/Turn_Laws.thy ===== *)
theory Turn_Laws
  imports Turn
begin

text \<open>
  What a turn leaves in the session's history: the pairing of calls and answers that the next request
  needs, kept by every ending but loop detection; and the two ways in which a turn spoils more than
  its own reply, the dangling answers after loop detection and the crash on a result that looks like
  an HTTP error.
\<close>

section \<open>The session of a turn\<close>

text \<open>A turn is modelled on the session object alone; this is what each of its appends does to that object,
  whatever the store or the file system answers.\<close>

lemma on_db_heap: "sw_heap (snd (on_db q w)) = sw_heap w"
  by (simp add: on_db_def split: prod.split)

lemma best_effort_heap: "sw_heap (snd (m w)) = sw_heap w \<Longrightarrow> sw_heap (snd (best_effort m w)) = sw_heap w"
  by (auto simp: best_effort_def attempt_def ok_def split: prod.split sum.split)

lemma and_then_heap:
  assumes "sw_heap (snd (m w)) = h" and "\<And>a w'. m w = (Inr a, w') \<Longrightarrow> sw_heap (snd (k a w')) = h"
  shows "sw_heap (snd (and_then m k w)) = h"
  using assms by (auto simp: and_then_def split: prod.split sum.split)

lemma save_heap: "sw_heap (snd (adapter_save_session now c k ch a cc p ms w)) = sw_heap w"
  by (simp add: adapter_save_session_def on_db_heap sess_simps)

lemma archive_heap: "sw_heap (snd (adapter_append_message now c k m w)) = sw_heap w"
  by (simp add: adapter_append_message_def on_db_heap sess_simps)

lemma best_effort_ok: "fst (best_effort m w) = Inr ()"
  by (simp add: best_effort_def attempt_def ok_def split: prod.split)

lemma append_notes:
  assumes "h < length (sw_heap w)"
  shows "sw_heap (snd (append_message now h m w)) = (sw_heap w)[h := note_message now m (sw_heap w ! h)]"
proof -
  define w1 where "w1 = w\<lparr>sw_heap := (sw_heap w)[h := note_message now m (sw_heap w ! h)]\<rparr>"
  have saved: "sw_heap (snd (persist_session now h w1)) = sw_heap w1"
    by (simp add: persist_session_def sess_simps best_effort_heap save_heap)
  have "append_message now h m w = (if sw_stored w then and_then (persist_session now h) (\<lambda>_.
       best_effort (adapter_append_message now (se_chatter (sw_heap w ! h)) (se_key (sw_heap w ! h)) (stamp_message now (sw_heap w ! h) m))) w1
     else append_to_file h (stamp_message now (sw_heap w ! h) m) w1)"
    by (simp add: append_message_def sess_simps Let_def w1_def note_message_def)
  moreover have "sw_heap (snd (and_then (persist_session now h) (\<lambda>_. best_effort (adapter_append_message now c k m')) w1)) = sw_heap w1" for c k m'
    using saved by (intro and_then_heap best_effort_heap) (auto simp: archive_heap best_effort_heap)
  moreover have "sw_heap (snd (append_to_file h m' w1)) = sw_heap w1" for m'
    by (simp add: append_to_file_def alter_def Let_def)
  ultimately show ?thesis by (simp add: w1_def)
qed
section \<open>Histories in pieces\<close>

named_theorems history_simps "what one message adds to a history"

lemma calls_answered_append: "calls_answered (xs @ Calls ids # ys) = (calls_answered xs \<and> calls_answered (Calls ids # ys))"
proof (induction xs)
  case (Cons x xs)
  then show ?case by (cases x) (auto simp: answers_append)
qed simp

lemma anchored_append: "anchored due (xs @ Calls ids # ys) = (anchored due xs \<and> anchored ids ys)"
  by (induction due xs rule: anchored.induct) auto

lemma anchored_answers: "anchored due (map Answer is) = (set is \<subseteq> set due)"
  by (induction "is") auto

lemma answers_map [simp]: "answers (map Answer is) = is"
  by (induction "is") simp_all

lemma calls_answered_answers: "calls_answered (map Answer is)"
  by (induction "is") simp_all

text \<open>A message of the user, and an assistant message whose calls carry ids.\<close>

definition from_user :: "chat_message \<Rightarrow> bool" where
  "from_user m = (cm_role m = ''user'')"

definition keyed :: "chat_message \<Rightarrow> bool" where
  "keyed m = ([] \<notin> set (map tc_id (cm_calls m)))"

definition quiet :: "chat_message \<Rightarrow> bool" where
  "quiet m = (shape m = Calls [] \<and> cm_calls m = [])"

definition sound :: "chat_message list \<Rightarrow> bool" where
  "sound ms = (paired ms \<and> (\<forall>m \<in> set ms. is_assistant m \<longrightarrow> keyed m))"

lemma stamp_shape [simp]:
  "shape (stamp_message now s m) = shape m" "cm_calls (stamp_message now s m) = cm_calls m"
  "cm_role (stamp_message now s m) = cm_role m" "cm_raw (stamp_message now s m) = cm_raw m" "cm_call_id (stamp_message now s m) = cm_call_id m"
  by (simp_all add: stamp_message_def Let_def shape_def assistant_call_ids_def)

lemma stamp_keyed [simp]: "keyed (stamp_message now s m) = keyed m"
  by (simp add: keyed_def)

lemma sound_snoc:
  assumes "sound xs" and "shape m = Calls []" and "is_assistant m \<longrightarrow> keyed m"
  shows "sound (xs @ [m])"
  using assms calls_answered_append [of "map shape xs" "[]" "[]"] anchored_append [of "[]" "map shape xs" "[]" "[]"]
  by (auto simp: sound_def paired_def)

lemma sound_exchange:
  assumes "sound xs" and "is_assistant m" and "keyed m" and "shape m = Calls ids"
    and "map shape as = map Answer is" and "set is = set ids"
  shows "sound (xs @ m # as)"
proof -
  have "\<not> is_assistant a" if "a \<in> set as" for a
  proof -
    have "shape a \<in> set (map Answer is)" using that assms(5) by (metis image_eqI list.set_map)
    then show ?thesis by (auto simp: shape_def split: if_splits)
  qed
  then show ?thesis
    using assms calls_answered_append [of "map shape xs" ids "map Answer is"] anchored_append [of "[]" "map shape xs" ids "map Answer is"]
    by (auto simp: sound_def paired_def calls_answered_answers anchored_answers)
qed

section \<open>Padding\<close>

lemma last_calling_snoc:
  "last_calling (ms @ [m]) = (if is_assistant m \<and> cm_calls m \<noteq> [] then Some (length ms) else last_calling ms)"
proof -
  have "find (\<lambda>i. is_assistant ((ms @ [m]) ! i) \<and> cm_calls ((ms @ [m]) ! i) \<noteq> []) (rev [0..<length ms]) = last_calling ms"
    unfolding last_calling_def by (intro find_cong) (auto simp: nth_append)
  then show ?thesis by (simp add: last_calling_def)
qed

lemma last_calling_at:
  assumes "is_assistant m" and "cm_calls m \<noteq> []" and "\<forall>a \<in> set as. cm_calls a = []"
  shows "last_calling (xs @ m # as) = Some (length xs)"
  using assms(3)
proof (induction as rule: rev_induct)
  case Nil
  then show ?case using assms by (simp add: last_calling_snoc)
next
  case (snoc a as)
  then show ?case using last_calling_snoc [of "xs @ m # as" a] by simp
qed

lemma last_callingD:
  assumes "last_calling ms = Some i"
  shows "i < length ms \<and> is_assistant (ms ! i) \<and> cm_calls (ms ! i) \<noteq> []"
  using assms by (auto simp: last_calling_def find_Some_iff rev_nth)

lemma sound_pads_nothing:
  assumes "sound ms"
  shows "pad_orphans ms = []"
proof (cases "last_calling ms")
  case (Some i)
  define m where "m = ms ! i"
  define rest where "rest = drop (Suc i) ms"
  from last_callingD [OF Some] have i: "i < length ms" "is_assistant m" "cm_calls m \<noteq> []" by (simp_all add: m_def)
  then have ms: "ms = take i ms @ m # rest" unfolding m_def rest_def by (intro id_take_nth_drop)
  have shape: "shape m = Calls (map tc_id (cm_calls m))" using i by (simp add: shape_def assistant_call_ids_def)
  have "calls_answered (map shape (take i ms) @ Calls (map tc_id (cm_calls m)) # map shape rest)"
  proof -
    have "calls_answered (map shape ms)" using assms by (simp add: sound_def paired_def)
    then show ?thesis by (subst (asm) ms) (simp add: shape)
  qed
  then have answered: "set (map tc_id (cm_calls m)) \<subseteq> set (map cm_call_id (tool_run rest))"
    by (simp only: calls_answered_append calls_answered.simps answers_shape)
  have "keyed m" using assms i(1,2) by (simp add: sound_def m_def)
  have "tc_id c \<in> set (map cm_call_id (filter (\<lambda>m. is_tool m \<and> cm_call_id m \<noteq> []) rest))" if "c \<in> set (cm_calls m)" for c
  proof -
    from that answered have "tc_id c \<in> set (map cm_call_id (tool_run rest))" by (metis image_eqI list.set_map subsetD)
    then obtain a where "a \<in> set (tool_run rest)" "cm_call_id a = tc_id c" by (metis (no_types) in_set_conv_nth length_map nth_map nth_mem)
    moreover from that \<open>keyed m\<close> have "tc_id c \<noteq> []" by (force simp: keyed_def)
    ultimately show ?thesis unfolding tool_run_def using set_takeWhileD [of a is_tool rest] by (auto intro!: image_eqI [of _ _ a])
  qed
  then have "filter (\<lambda>c. tc_id c \<notin> set (map cm_call_id (filter (\<lambda>m. is_tool m \<and> cm_call_id m \<noteq> []) rest))) (cm_calls m) = []"
    by (simp only: filter_empty_conv) blast
  then show ?thesis using Some by (simp add: pad_orphans_def Let_def m_def rest_def)
qed (simp add: pad_orphans_def)

text \<open>A round that stopped half-way: answers to some of the last calls.\<close>

definition broken_off :: "chat_message list \<Rightarrow> bool" where
  "broken_off ms = (\<exists>xs m as is. ms = xs @ m # as \<and> sound xs \<and> is_assistant m \<and> cm_calls m \<noteq> [] \<and> keyed m \<and>
     map shape as = map Answer is \<and> set is \<subseteq> set (map tc_id (cm_calls m)) \<and> (\<forall>a \<in> set as. cm_calls a = []))"

lemma stopped_shape: "map shape (map stopped_result cs) = map Answer (map tc_id cs)"
  by (simp add: stopped_result_def answering_def simple_message_def shape_def)

lemma shape_answers_ids:
  assumes "map shape as = map Answer is"
  shows "map cm_call_id (filter (\<lambda>m. is_tool m \<and> cm_call_id m \<noteq> []) as) = filter (\<lambda>i. i \<noteq> []) is"
  using assms
proof (induction as arbitrary: "is")
  case (Cons a as)
  then show ?case by (cases "is") (auto simp: shape_def split: if_splits)
qed simp

lemma padding_completes:
  assumes "broken_off ms"
  shows "sound (ms @ pad_orphans ms)"
proof -
  from assms obtain xs m as "is" where ms: "ms = xs @ m # as" and m: "sound xs" "is_assistant m" "cm_calls m \<noteq> []" "keyed m"
    and as: "map shape as = map Answer is" "set is \<subseteq> set (map tc_id (cm_calls m))" "\<forall>a \<in> set as. cm_calls a = []"
    unfolding broken_off_def by blast
  define open_calls where "open_calls = filter (\<lambda>c. tc_id c \<notin> set (filter (\<lambda>i. i \<noteq> []) is)) (cm_calls m)"
  have pads: "pad_orphans ms = map stopped_result open_calls"
    unfolding ms pad_orphans_def last_calling_at [OF m(2,3) as(3)]
    using shape_answers_ids [OF as(1)] by (simp add: Let_def open_calls_def)
  have "shape m = Calls (map tc_id (cm_calls m))" using m by (simp add: shape_def assistant_call_ids_def)
  moreover have "map shape (as @ map stopped_result open_calls) = map Answer (is @ map tc_id open_calls)"
    unfolding map_append stopped_shape as(1) by (rule refl)
  moreover have "set (is @ map tc_id open_calls) = set (map tc_id (cm_calls m))"
    using as(2) m(4) by (auto simp: open_calls_def keyed_def)
  ultimately have "sound (xs @ m # (as @ map stopped_result open_calls))" by (rule sound_exchange [OF m(1,2,4)])
  moreover have "ms @ pad_orphans ms = xs @ m # (as @ map stopped_result open_calls)" unfolding pads by (simp add: ms)
  ultimately show ?thesis by (simp only:)
qed

section \<open>What the pieces of a turn add\<close>

definition sound_session :: "session \<Rightarrow> bool" where
  "sound_session s = (sound (se_messages s) \<and> (\<forall>m \<in> set (se_steer s). from_user m))"

lemma from_user_shape: "from_user m \<Longrightarrow> shape m = Calls [] \<and> \<not> is_assistant m"
  by (auto simp: from_user_def shape_def)

lemma note_steer [simp]: "se_steer (note_message now m s) = se_steer s"
  by (simp add: note_message_def)

lemma note_sound:
  "sound_session s \<Longrightarrow> shape m = Calls [] \<Longrightarrow> (is_assistant m \<longrightarrow> keyed m) \<Longrightarrow> sound_session (note_message now m s)"
  by (simp add: sound_session_def note_message_def sound_snoc)

lemma note_user: "sound_session s \<Longrightarrow> from_user m \<Longrightarrow> sound_session (note_message now m s)"
  by (intro note_sound) (simp_all add: from_user_shape)

lemma note_users:
  "sound_session s \<Longrightarrow> \<forall>m \<in> set ms. from_user m \<Longrightarrow> sound_session (fold (note_message now) ms s)"
  by (induction ms arbitrary: s) (simp_all add: note_user)

lemma push_sound: "sound_session s \<Longrightarrow> from_user m \<Longrightarrow> sound_session (snd (push_steer_if_active m s))"
  by (simp add: push_steer_if_active_def sound_session_def)

lemma arrive_sound: "sound_session s \<Longrightarrow> \<forall>m \<in> set ms. from_user m \<Longrightarrow> sound_session (arrive ms s)"
  by (induction ms arbitrary: s) (simp_all add: arrive_def push_sound)

lemma append_steer_sound:
  "sound_session (tn_session t) \<Longrightarrow> \<forall>m \<in> set ms. from_user m \<Longrightarrow> sound_session (tn_session (append_steer env ms t))"
  by (induction ms arbitrary: t) (simp_all add: append_steer_def turn_steps note_user)

lemma drained_sound:
  assumes "drained env t = (ms, t')" and "sound_session (tn_session t)" and "\<forall>m \<in> set (te_pushes env (tn_drains t)). from_user m"
  shows "sound_session (tn_session t') \<and> (\<forall>m \<in> set ms. from_user m)"
  using arrive_sound [OF assms(2,3)] assms(1)
  by (auto simp: drained_def drain_steer_def sound_session_def split: if_splits)

lemma steered_round_sound:
  assumes "drained env t = (ms, t')" and "sound_session (tn_session t)" and "\<forall>n. \<forall>m \<in> set (te_pushes env n). from_user m"
  shows "sound_session (tn_session (append_steer env ms t'))"
  using append_steer_sound drained_sound [OF assms(1,2)] assms(3) by blast

lemma fold_show_session [simp]: "tn_session (fold (\<lambda>c. show_event (f c)) cs t) = tn_session t"
  by (induction cs arbitrary: t) (simp_all add: turn_steps)

lemma tool_message_shape [simp]: "shape (tool_message c r) = Answer (tc_id c)" "cm_calls (tool_message c r) = []"
  by (simp_all add: tool_message_def answering_def simple_message_def blank_message_def shape_def split: prod.split)

text \<open>The results handled before a crash, or all of them.\<close>

definition answered_by :: "chat_message list \<Rightarrow> tool_call list \<Rightarrow> bool" where
  "answered_by as cs = (map shape as = map Answer (map tc_id cs) \<and> (\<forall>a \<in> set as. cm_calls a = []))"

lemma process_results_adds:
  assumes "process_results env rs f t = (t', x)"
  shows "\<exists>k as. se_messages (tn_session t') = se_messages (tn_session t) @ as \<and> se_steer (tn_session t') = se_steer (tn_session t) \<and>
    answered_by as (map snd (take k rs)) \<and> (x \<noteq> None \<longrightarrow> k = length rs)"
  using assms
proof (induction rs arbitrary: f t)
  case Nil
  then show ?case by (simp add: answered_by_def)
next
  case (Cons rc rs)
  obtain r c where rc: "rc = (r, c)" by (cases rc)
  show ?case
  proof (cases "judge_result env c r (t\<lparr>tn_tools := Suc (tn_tools t)\<rparr>)")
    case None
    then have "t' = t\<lparr>tn_tools := Suc (tn_tools t)\<rparr> \<and> x = None" using Cons.prems by (simp add: rc)
    then show ?thesis by (intro exI [of _ 0] exI [of _ "[]"]) (simp add: answered_by_def)
  next
    case (Some t1)
    then have "process_results env rs (f \<and> result_failed c r) (take_result env c r t1) = (t', x)"
      using Cons.prems by (simp add: rc)
    from Cons.IH [OF this] obtain k as where
      a: "se_messages (tn_session t') = se_messages (tn_session (take_result env c r t1)) @ as"
        "se_steer (tn_session t') = se_steer (tn_session (take_result env c r t1))"
        "answered_by as (map snd (take k rs))" "x \<noteq> None \<longrightarrow> k = length rs" by blast
    moreover have "tn_session (take_result env c r t1) = note_message (te_now env) (tool_message c r) (tn_session t)"
      using judge_session(2) [OF Some] by (simp add: take_result_def Let_def turn_steps)
    ultimately show ?thesis
      by (intro exI [of _ "Suc k"] exI [of _ "stamp_message (te_now env) (tn_session t) (tool_message c r) # as"])
        (simp add: rc note_message_def answered_by_def)
  qed
qed

lemma round_results_length: "length (round_results cap run calls) = length calls"
  by (auto simp: round_results_def Let_def pad_results_def bridge_results_def)

section \<open>The rounds\<close>

text \<open>Replies as the services give them: every call has an id, and raw JSON brings no calls of its own.\<close>

definition regular_reply :: "response \<Rightarrow> bool" where
  "regular_reply r = ([] \<notin> set (map tc_id (rs_calls r)) \<and>
     (rs_calls r = [] \<longrightarrow> (case rs_raw r of None \<Rightarrow> True | Some v \<Rightarrow> raw_call_ids v = [])))"

lemma assistant_message_facts [simp]:
  "is_assistant (assistant_message env r)" "cm_calls (assistant_message env r) = rs_calls r"
  by (simp_all add: assistant_message_def simple_message_def)

lemma assistant_message_keyed: "regular_reply r \<Longrightarrow> keyed (assistant_message env r)"
  by (simp add: keyed_def regular_reply_def)

lemma assistant_message_shape: "regular_reply r \<Longrightarrow> shape (assistant_message env r) = Calls (map tc_id (rs_calls r))"
  by (auto simp: shape_def assistant_call_ids_def regular_reply_def assistant_message_def simple_message_def split: option.splits)

text \<open>How a round leaves the session.\<close>

definition round_sound :: "round \<Rightarrow> bool" where
  "round_sound r = (case r of Looped t \<Rightarrow> True
     | Crash t \<Rightarrow> broken_off (se_messages (tn_session t)) \<and> (\<forall>m \<in> set (se_steer (tn_session t)). from_user m)
     | Next t \<Rightarrow> sound_session (tn_session t) | Finish s t \<Rightarrow> sound_session (tn_session t))"

lemma answer_round_sound:
  assumes "sound_session (tn_session t)" and "regular_reply r" and "rs_calls r = []"
    and "\<forall>n. \<forall>m \<in> set (te_pushes env n). from_user m"
  shows "round_sound (answer_round env r t)"
proof -
  have noted: "sound_session (note_message (te_now env) (assistant_message env r) (tn_session t))"
    using assms(1-3) by (intro note_sound) (simp_all add: assistant_message_shape assistant_message_keyed)
  define t2 where "t2 = (show_event (Ev_Content (rs_content r) (te_meta env)) (noted env (assistant_message env r) t))
    \<lparr>tn_parts := tn_parts t @ [rs_content r]\<rparr>"
  have t2: "sound_session (tn_session t2)" using noted by (simp add: t2_def turn_steps)
  obtain ms t3 where d: "drained env t2 = (ms, t3)" by fastforce
  note facts = drained_sound [OF d t2]
  have "sound_session (tn_session (append_steer env ms (if rs_content r \<noteq> [] then send_on (assistant_message env r) t3 else t3)))"
    using facts assms(4) by (intro append_steer_sound) (auto simp: send_on_def)
  then show ?thesis
    using d facts assms(1,4) by (auto simp: answer_round_def Let_def round_sound_def t2_def turn_steps)
qed

text \<open>A tool round in terms of what follows it.\<close>

definition tool_outcome :: "turn_env \<Rightarrow> bool \<Rightarrow> turn \<times> bool option \<Rightarrow> turn \<Rightarrow> round" where
  "tool_outcome env looped results t4 =
     (if looped then Looped (send_on loop_warning (noted env loop_warning t4))
      else case results of (t5, None) \<Rightarrow> Crash t5
        | (t5, Some all_failed) \<Rightarrow> (case drained env (t5\<lparr>tn_failed := (if all_failed then Suc (tn_failed t5) else 0)\<rparr>) of
            (ms, t6) \<Rightarrow> Next (append_steer env ms t6)))"

lemma tool_round_cases:
  obtains t4 sig where "tn_session t4 = note_message (te_now env) (assistant_message env r) (tn_session t)"
    and "tool_round env r t = tool_outcome env (fst (loop_check (te_hash env) (rs_calls r) (sig, tn_repeat t)))
      (process_results env (zip (round_results (te_parallel env) (te_run env (tn_asks t)) (rs_calls r)) (rs_calls r))
        (round_results (te_parallel env) (te_run env (tn_asks t)) (rs_calls r) \<noteq> []) t4) t4"
proof -
  define t1 where "t1 = (if rs_content r \<noteq> [] then (show_event (Ev_Content (rs_content r) (te_meta env)) t)\<lparr>tn_parts := tn_parts t @ [rs_content r]\<rparr> else t)"
  define asst where "asst = assistant_message env r"
  define t3 where "t3 = send_on asst (noted env asst (fold (\<lambda>c. show_event (Ev_Call (tc_id c) (tc_name c) (tc_args c))) (rs_calls r) t1))"
  have repeat: "tn_repeat (fold (\<lambda>c. show_event (g c)) cs u) = tn_repeat u" for g cs u
    by (induction cs arbitrary: u) (simp_all add: turn_steps)
  obtain looped sig n where lc: "loop_check (te_hash env) (rs_calls r) (tn_sig t3, tn_repeat t3) = (looped, sig, n)" by (metis prod_cases3)
  define t4 where "t4 = t3\<lparr>tn_sig := sig, tn_repeat := n\<rparr>"
  have t4: "tn_session t4 = note_message (te_now env) asst (tn_session t)" "tn_asks t4 = tn_asks t" "tn_repeat t3 = tn_repeat t"
    by (simp_all add: t4_def t3_def t1_def turn_steps repeat)
  have "looped = fst (loop_check (te_hash env) (rs_calls r) (tn_sig t3, tn_repeat t))" using lc t4(3) by simp
  moreover have "tool_round env r t = tool_outcome env looped
      (process_results env (zip (round_results (te_parallel env) (te_run env (tn_asks t)) (rs_calls r)) (rs_calls r))
        (round_results (te_parallel env) (te_run env (tn_asks t)) (rs_calls r) \<noteq> []) t4) t4"
    using lc unfolding tool_round_def Let_def t1_def [symmetric] asst_def [symmetric] t3_def [symmetric] tool_outcome_def
    by (simp add: t4_def [symmetric] t4(2))
  ultimately show thesis using that t4(1) unfolding asst_def by blast
qed

lemma tool_round_sound:
  assumes "sound_session (tn_session t)" and "regular_reply r" and "rs_calls r \<noteq> []"
    and "\<forall>n. \<forall>m \<in> set (te_pushes env n). from_user m"
  shows "round_sound (tool_round env r t)"
proof -
  let ?asst = "assistant_message env r"
  define results where "results = round_results (te_parallel env) (te_run env (tn_asks t)) (rs_calls r)"
  obtain t4 sig where session: "tn_session t4 = note_message (te_now env) ?asst (tn_session t)"
    and round: "tool_round env r t = tool_outcome env (fst (loop_check (te_hash env) (rs_calls r) (sig, tn_repeat t)))
      (process_results env (zip results (rs_calls r)) (results \<noteq> []) t4) t4"
    unfolding results_def by (rule tool_round_cases [of env r t])
  obtain t5 x where pr: "process_results env (zip results (rs_calls r)) (results \<noteq> []) t4 = (t5, x)" by fastforce
  from process_results_adds [OF pr] obtain k as where
    as: "se_messages (tn_session t5) = se_messages (tn_session t) @ stamp_message (te_now env) (tn_session t) ?asst # as"
      "se_steer (tn_session t5) = se_steer (tn_session t)"
      "answered_by as (map snd (take k (zip results (rs_calls r))))" "x \<noteq> None \<longrightarrow> k = length (zip results (rs_calls r))"
    unfolding session by (auto simp: note_message_def)
  have cs: "map snd (take k (zip results (rs_calls r))) = take k (rs_calls r)"
    by (simp add: results_def round_results_length flip: take_map)
  have steer: "\<forall>m \<in> set (se_steer (tn_session t5)). from_user m" and old: "sound (se_messages (tn_session t))"
    using assms(1) as(2) by (simp_all add: sound_session_def)
  show ?thesis
  proof (cases x)
    case None
    have "broken_off (se_messages (tn_session t5))"
      unfolding broken_off_def as(1)
      using old as(3) assms(2,3) unfolding cs answered_by_def
      by (intro exI [of _ "se_messages (tn_session t)"] exI [of _ "stamp_message (te_now env) (tn_session t) ?asst"]
            exI [of _ as] exI [of _ "map tc_id (take k (rs_calls r))"])
        (auto simp: assistant_message_keyed dest: in_set_takeD)
    then show ?thesis using round None steer pr by (simp add: round_sound_def tool_outcome_def)
  next
    case (Some all_failed)
    have "k = length (rs_calls r)" using as(4) Some by (simp add: results_def round_results_length)
    then have "map shape as = map Answer (map tc_id (rs_calls r))" using as(3) unfolding cs answered_by_def by simp
    then have "sound (se_messages (tn_session t5))"
      unfolding as(1) using old assms(2)
      by (intro sound_exchange) (auto simp: assistant_message_shape assistant_message_keyed)
    then have t5: "sound_session (tn_session (t5\<lparr>tn_failed := (if all_failed then Suc (tn_failed t5) else 0)\<rparr>))"
      using steer by (simp add: sound_session_def)
    obtain ms t6 where d: "drained env (t5\<lparr>tn_failed := (if all_failed then Suc (tn_failed t5) else 0)\<rparr>) = (ms, t6)" by fastforce
    show ?thesis using round Some d pr steered_round_sound [OF d t5 assms(4)] by (simp add: round_sound_def tool_outcome_def)
  qed
qed

text \<open>The environment as it is: regular replies, and messages of users from the steering.\<close>

definition well_behaved :: "turn_env \<Rightarrow> bool" where
  "well_behaved env = ((\<forall>n ms tools r. te_chat env n ms tools = Inr r \<longrightarrow> regular_reply (maybe_recover (te_recover env) r)) \<and>
     (\<forall>n. \<forall>m \<in> set (te_pushes env n). from_user m) \<and> (\<forall>m \<in> set (te_late env). from_user m))"

lemma react_round_sound:
  assumes "well_behaved env" and "sound_session (tn_session t)"
  shows "round_sound (react_round env t)"
proof (cases "te_model env")
  case (Some a)
  then show ?thesis using assms(2) by (simp add: react_round_def round_sound_def turn_steps)
next
  case None
  define stop where "stop = (failed_rounds_limit \<le> tn_failed t)"
  define prompt where "prompt = te_scrub env (tn_messages t) @ (if stop then [stop_tools_nudge (tn_failed t)] else [])"
  show ?thesis
  proof (cases "te_chat env (tn_asks t) prompt (\<not> stop)")
    case (Inl e)
    then show ?thesis using None assms(2)
      by (simp add: react_round_def round_sound_def turn_steps Let_def prompt_def stop_def)
  next
    case (Inr r)
    define r' where "r' = maybe_recover (te_recover env) r"
    define t2 where "t2 = metered r (t\<lparr>tn_asks := Suc (tn_asks t)\<rparr>)"
    have "regular_reply r'" using assms(1) Inr by (auto simp: well_behaved_def r'_def)
    moreover have "sound_session (tn_session t2)" using assms(2) by (simp add: t2_def metered_def)
    moreover have "react_round env t = (if rs_calls r' = [] then answer_round env r' t2 else tool_round env r' t2)"
      using None Inr by (simp add: react_round_def ask_def Let_def prompt_def stop_def r'_def t2_def)
    ultimately show ?thesis
      using answer_round_sound [of t2 r' env] tool_round_sound [of t2 r' env] assms(1) by (simp add: well_behaved_def)
  qed
qed

lemma react_sound:
  assumes "well_behaved env" and "sound_session (tn_session t)" and "react env n t = (e, t')" and "e \<noteq> Loop_Found"
  shows "if e = Crashed then broken_off (se_messages (tn_session t')) \<and> (\<forall>m \<in> set (se_steer (tn_session t')). from_user m)
    else sound_session (tn_session t')"
  using assms(2-4)
proof (induction n arbitrary: t)
  case (Suc n)
  then show ?case using react_round_sound [OF assms(1) Suc.prems(1)]
    by (cases "react_round env t") (auto simp: round_sound_def)
qed auto

lemma final_delivery_sound:
  assumes "sound_session (tn_session t)" and "final_delivery env t = (reply, t')"
  shows "sound_session (tn_session t')"
proof -
  obtain m where m: "tn_session t' = note_message (te_now env) m (tn_session t)" "cm_role m = ''assistant''" "cm_calls m = []" "cm_raw m = None"
    using assms(2) by (auto simp: final_delivery_def Let_def turn_steps simple_message_def blank_message_def split: sum.splits)
  show ?thesis unfolding m(1) using assms(1) m(2-4)
    by (intro note_sound) (simp_all add: shape_def assistant_call_ids_def keyed_def)
qed

lemma pruned_assistants:
  assumes "m \<in> set (prune_old_tool_results ms)" and "is_assistant m"
  shows "m \<in> set ms"
proof -
  have "m \<in> set (map prune_message xs) \<Longrightarrow> m \<in> set xs" for xs
    using assms(2) by (auto simp: prune_message_def answering_def simple_message_def split: if_splits)
  then show ?thesis using assms(1) by (auto simp: prune_old_tool_results_def Let_def dest: in_set_takeD in_set_dropD split: if_splits)
qed

lemma compacted_assistants:
  assumes "m \<in> set (fst (compact_messages chat ms))" and "is_assistant m"
  shows "m \<in> set ms"
proof -
  have pruned: "m \<in> set ms" if "m \<in> set (prune_old_tool_results ms)" using pruned_assistants [OF that assms(2)] .
  have "m \<in> set (prune_old_tool_results ms)" if "compress_older_messages chat (prune_old_tool_results ms) = Inr out" "m \<in> set out" for out
    using that assms(2)
    by (auto simp: compress_older_messages_def Let_def simple_message_def dest: in_set_dropD split: if_splits sum.splits)
  then show ?thesis using assms(1) pruned by (auto simp: compact_messages_def Let_def split: if_splits sum.splits)
qed

lemma start_turn_sound:
  assumes "sound_session s"
  shows "sound_session (tn_session (start_turn env msg s))"
proof -
  define s1 where "s1 = note_message (te_now env) (build_user_message msg) (begin_turn s)"
  have user: "from_user (build_user_message msg)"
    by (simp add: build_user_message_def from_user_def simple_message_def Let_def)
  have s1: "sound_session s1" unfolding s1_def using assms user by (intro note_user) (simp_all add: begin_turn_def sound_session_def)
  have nonempty: "se_messages s1 \<noteq> []" and last: "\<not> is_tool (last (se_messages s1))"
    using user by (simp_all add: s1_def note_message_def from_user_def)
  have "paired (fst (compact_messages (te_summary env) (se_messages s1)))"
    using s1 nonempty last compact_paired by (simp add: sound_session_def sound_def)
  then have "sound (fst (compact_messages (te_summary env) (se_messages s1)))"
    using s1 compacted_assistants [of _ "te_summary env" "se_messages s1"] by (auto simp: sound_session_def sound_def)
  then show ?thesis using s1 by (simp add: start_turn_def Let_def s1_def [symmetric] sound_session_def)
qed

lemma end_turn_sound:
  assumes "end_turn s = (left, s')" and "sound_session s"
  shows "sound_session (fold (note_message now) left s')"
  using assms by (intro note_users) (auto simp: end_turn_def Let_def sound_session_def split: if_splits)

lemma note_all: "se_messages (fold (note_message now) ms s) = se_messages s @ map (stamp_message now s) ms
    \<and> se_steer (fold (note_message now) ms s) = se_steer s"
proof (induction ms arbitrary: s)
  case (Cons m ms)
  have "stamp_message now (note_message now m s) = stamp_message now s"
    by (rule ext) (simp add: stamp_message_def note_message_def Let_def)
  with Cons [of "note_message now m s"] show ?case by (simp add: note_message_def [of now m s])
qed simp

lemma sound_stamped: "sound (xs @ map (stamp_message now s) ys) = sound (xs @ ys)"
  by (simp add: sound_def paired_def comp_def ball_Un)

lemma settle_sound:
  assumes "well_behaved env" and "sound (se_messages s @ pad_orphans (se_messages s))" and "\<forall>m \<in> set (se_steer s). from_user m"
  shows "sound_session (settle env s)"
proof -
  define s1 where "s1 = fold (note_message (te_now env)) (pad_orphans (se_messages s)) s"
  have "sound_session s1" using assms(2,3) by (simp add: sound_session_def s1_def note_all sound_stamped)
  then have "sound_session (arrive (te_late env) s1)" using assms(1) arrive_sound by (simp add: well_behaved_def)
  then show ?thesis using end_turn_sound unfolding settle_def s1_def [symmetric] Let_def
    by (auto split: prod.split)
qed

lemma agent_turn_ending: "fst (agent_turn env msg s) = fst (react env (te_max env) (start_turn env msg s))"
  by (auto simp: agent_turn_def split: prod.split ending.split)

section \<open>The history after a turn\<close>


section \<open>Loop detection\<close>

definition stuck :: "chat_message list \<Rightarrow> bool" where
  "stuck ms = (\<exists>xs m w. ms = xs @ [m, w] \<and> is_assistant m \<and> cm_calls m \<noteq> [] \<and> cm_role w = ''system'')"

lemma tool_round_looped:
  assumes "tool_round env r t = Looped t'" and "rs_calls r \<noteq> []"
  shows "stuck (se_messages (tn_session t'))"
proof -
  obtain t4 where "tn_session t4 = note_message (te_now env) (assistant_message env r) (tn_session t)"
      "t' = send_on loop_warning (noted env loop_warning t4)"
    by (rule tool_round_cases [of env r t]) (use assms(1) in \<open>auto simp: tool_outcome_def split: if_splits option.splits prod.splits\<close>)
  then have "se_messages (tn_session t') = se_messages (tn_session t) @
      [stamp_message (te_now env) (tn_session t) (assistant_message env r), stamp_message (te_now env) (tn_session t4) loop_warning]"
    by (simp add: turn_steps note_message_def)
  then show ?thesis unfolding stuck_def using assms(2) by (fastforce simp: loop_warning_def simple_message_def)
qed

lemma react_looped:
  assumes "react env n t = (Loop_Found, t')"
  shows "stuck (se_messages (tn_session t'))"
  using assms
proof (induction n arbitrary: t)
  case (Suc n)
  have "stuck (se_messages (tn_session u))" if "react_round env t = Looped u" for u
    using that by (auto simp: react_round_def answer_round_def Let_def split: option.splits sum.splits if_splits prod.splits
        dest: tool_round_looped)
  then show ?case using Suc by (cases "react_round env t") auto
qed simp

lemma api_from_Cons:
  "api_from D (x # ms) = (if is_tool x then if cm_call_id x \<in> set D then [] else [to_api_message False x]
      else [to_api_message (unanswered x ms) x]) @
    api_from (if is_tool x then D else if unanswered x ms then assistant_call_ids x else []) ms"
  by (simp add: api_from_simps)

lemma api_from_split:
  assumes "\<not> is_tool m" and "\<not> unanswered m ys"
  shows "\<exists>pre. api_from D (xs @ m # ys) = pre @ to_api_message False m # api_from [] ys"
proof (induction xs arbitrary: D)
  case Nil
  then show ?case using assms by (simp add: api_from_simps)
next
  case (Cons x xs)
  obtain pre where "api_from (if is_tool x then D else if unanswered x (xs @ m # ys) then assistant_call_ids x else []) (xs @ m # ys)
      = pre @ to_api_message False m # api_from [] ys"
    using Cons by blast
  then show ?case by (simp only: append_Cons api_from_Cons) (metis append_assoc)
qed

lemma answer_after_answer_dangles:
  assumes "\<not> is_tool m" and "shape m = Calls []" and "cm_calls m = []" and "cm_raw m = None" and "is_tool x"
  shows "\<not> anchored [] (map api_shape (to_api_messages (xs @ m # x # ys)))"
proof -
  have "\<not> unanswered m (x # ys)" using assms by (simp add: unanswered_def assistant_call_ids_def)
  then obtain pre where "api_from [] (xs @ m # x # ys) = pre @ to_api_message False m # api_from [] (x # ys)"
    using api_from_split [OF assms(1)] by blast
  moreover have "api_shape (to_api_message False m) = Calls []" using assms by (simp add: to_api_message_def)
  ultimately show ?thesis
    using assms(5) by (simp add: to_api_messages_from api_from_simps api_shape_tool anchored_append)
qed

lemma arrive_messages [simp]: "se_messages (arrive ms s) = se_messages s"
proof (induction ms arbitrary: s)
  case (Cons m ms)
  then show ?case by (simp add: arrive_def push_steer_if_active_def)
qed (simp add: arrive_def)

lemma settle_messages:
  "\<exists>zs. se_messages (settle env s) = se_messages s @ map (stamp_message (te_now env) s) (pad_orphans (se_messages s)) @ zs"
  by (auto simp: settle_def Let_def end_turn_def note_all split: prod.split)

text \<open>C24: A turn that ends by loop detection always leaves a history whose next request to an
  OpenAI-style service carries a tool message that answers nothing before it: the padding for the calls of the loop is
  stored after the final answer.\<close>

theorem loop_detection_dangles:
  assumes "fst (agent_turn env msg s) = Loop_Found"
  shows "\<not> anchored [] (map api_shape (to_api_messages (se_messages (tn_session (snd (snd (agent_turn env msg s)))))))"
proof -
  obtain t where r: "react env (te_max env) (start_turn env msg s) = (Loop_Found, t)"
    using assms unfolding agent_turn_ending by (metis fst_conv surj_pair)
  obtain xs m w where t: "se_messages (tn_session t) = xs @ [m, w]" "is_assistant m" "cm_calls m \<noteq> []" "cm_role w = ''system''"
    using react_looped [OF r] by (auto simp: stuck_def)
  obtain reply t' where d: "final_delivery env t = (reply, t')" by fastforce
  then obtain f where f: "tn_session t' = note_message (te_now env) f (tn_session t)" "is_assistant f" "cm_calls f = []" "cm_raw f = None"
    by (auto simp: final_delivery_def Let_def turn_steps simple_message_def blank_message_def split: sum.splits)
  define f' where "f' = stamp_message (te_now env) (tn_session t) f"
  have ms: "se_messages (tn_session t') = xs @ m # [w, f']" by (simp add: f(1) note_message_def t(1) f'_def)
  obtain c cs where c: "cm_calls m = c # cs" using t(3) by (cases "cm_calls m") simp_all
  have "last_calling (xs @ m # [w, f']) = Some (length xs)"
    using last_calling_snoc [of "xs @ [m, w]" f'] last_calling_snoc [of "xs @ [m]" w] last_calling_snoc [of xs m] t(2,3,4) f(3)
    by (simp add: f'_def)
  then have "pad_orphans (se_messages (tn_session t')) = map stopped_result (c # cs)"
    using t(4) f(2) c by (simp add: ms pad_orphans_def f'_def)
  then obtain zs where "se_messages (settle env (tn_session t')) =
      (xs @ [m, w]) @ f' # stamp_message (te_now env) (tn_session t') (stopped_result c) # zs"
    using settle_messages [of env "tn_session t'"] ms by auto
  moreover have "se_messages (tn_session (snd (snd (agent_turn env msg s)))) = se_messages (settle env (tn_session t'))"
    using r d by (simp add: agent_turn_def)
  moreover have "shape f' = Calls []" using f by (simp add: f'_def shape_def assistant_call_ids_def)
  moreover have "is_tool (stopped_result c)" by (simp add: stopped_result_def answering_def simple_message_def)
  ultimately show ?thesis
    using answer_after_answer_dangles [of f' "stamp_message (te_now env) (tn_session t') (stopped_result c)" "xs @ [m, w]" zs] f(2-4)
    by (simp only:) (simp add: f'_def)
qed

section \<open>A result that looks like an HTTP error\<close>

lemma process_results_crash:
  "\<exists>(r, c) \<in> set rs. tr_error r = None \<and> result_failed c r \<Longrightarrow> snd (process_results env rs f t) = None"
proof (induction rs arbitrary: f t)
  case (Cons rc rs)
  obtain r c where rc: "rc = (r, c)" by (cases rc)
  show ?case
  proof (cases "tr_error r = None \<and> result_failed c r")
    case True
    then show ?thesis by (simp add: rc judge_result_def)
  next
    case False
    with Cons.prems have "\<exists>(r, c) \<in> set rs. tr_error r = None \<and> result_failed c r" by (auto simp: rc)
    from Cons.IH [OF this] show ?thesis by (simp add: rc split: option.split)
  qed
qed simp

lemma loop_check_short: "n + length cs < 3 \<Longrightarrow> \<not> fst (loop_check h cs (sig, n))"
proof (induction cs arbitrary: sig n)
  case (Cons c cs)
  define k where "k = (if (tc_name c, h (tc_args c)) = sig then Suc n else 1)"
  have k: "k < 3" "k + length cs < 3" using Cons.prems by (auto simp: k_def)
  then show ?case using Cons.IH [of k "(tc_name c, h (tc_args c))"] by (simp add: k_def [symmetric] Let_def)
qed simp

lemma tool_round_crash:
  assumes "\<And>sig. \<not> fst (loop_check (te_hash env) (rs_calls r) (sig, tn_repeat t))"
    and "\<And>f t'. snd (process_results env (zip (round_results (te_parallel env) (te_run env (tn_asks t)) (rs_calls r)) (rs_calls r)) f t') = None"
  shows "\<exists>t'. tool_round env r t = Crash t'"
proof -
  obtain sig x t4 where "tool_round env r t = tool_outcome env (fst (loop_check (te_hash env) (rs_calls r) (sig, tn_repeat t))) x t4"
      "snd x = None"
    by (rule tool_round_cases [of env r t]) (use assms(2) in blast)
  then show ?thesis using assms(1) by (cases x) (auto simp: tool_outcome_def)
qed

text \<open>C25: When the tools of the first reply answer and one result, given without an error, starts with
  \<open>HTTP 4\<close>, the turn crashes and there is no reply.\<close>

theorem http_text_crashes:
  assumes "te_model env = None" and "0 < te_max env"
    and "te_chat env 0 (te_scrub env (tn_messages (start_turn env msg s))) True = Inr r"
    and "rs_calls r \<noteq> []" and "length (rs_calls r) < 3"
    and "\<exists>(x, c) \<in> set (zip (round_results (te_parallel env) (te_run env 1) (rs_calls r)) (rs_calls r)).
      tr_error x = None \<and> has_prefix (trim_space (cm_content (tool_message c x))) ''HTTP 4''"
  shows "fst (agent_turn env msg s) = Crashed \<and> fst (snd (agent_turn env msg s)) = None"
proof -
  let ?t = "start_turn env msg s"
  have start: "tn_failed ?t = 0" "tn_asks ?t = 0" "tn_repeat ?t = 0" by (simp_all add: start_turn_def Let_def)
  have r: "maybe_recover (te_recover env) r = r" using assms(4) by (simp add: maybe_recover_def)
  have fails: "\<exists>(x, c) \<in> set (zip (round_results (te_parallel env) (te_run env 1) (rs_calls r)) (rs_calls r)).
      tr_error x = None \<and> result_failed c x"
    using assms(6) by (fastforce simp: result_failed_def is_failed_tool_result_def Let_def)
  have crash: "\<exists>t'. tool_round env r t2 = Crash t'" if "tn_asks t2 = 1" "tn_repeat t2 = 0" for t2
    using that assms(5) process_results_crash [OF fails] tool_round_crash [of env r t2] loop_check_short [of 0 "rs_calls r"] by simp
  have "\<exists>t'. react_round env ?t = Crash t'"
    using crash [of "metered r (?t\<lparr>tn_asks := 1\<rparr>)"] assms(1,3,4) start r
    by (simp add: react_round_def ask_def failed_rounds_limit_def metered_def Let_def)
  then obtain t' where "react env (te_max env) ?t = (Crashed, t')"
    using assms(2) by (cases "te_max env") auto
  then show ?thesis by (simp add: agent_turn_def)
qed

section \<open>Witnesses\<close>

definition demo_reply :: "string \<Rightarrow> tool_call list \<Rightarrow> response" where
  "demo_reply content calls = \<lparr>rs_content = content, rs_calls = calls, rs_thinking = [], rs_usage = no_tokens, rs_raw = None\<rparr>"

definition demo_env :: "(nat \<Rightarrow> response) \<Rightarrow> string \<Rightarrow> turn_env" where
  "demo_env reply result = \<lparr>te_max = 2, te_parallel = 0, te_now = 7000000, te_model = None, te_system = [], te_meta = [],
     te_view = (\<lambda>ms. ms), te_scrub = (\<lambda>ms. ms), te_summary = (\<lambda>_. Inl ''no summary''), te_chat = (\<lambda>n _ _. Inr (reply n)),
     te_recover = (\<lambda>s. ([], s)),
     te_run = (\<lambda>_ cs. map (\<lambda>c. \<lparr>sr_id = tc_id c, sr_result = Some (False, [], [result]), sr_error = None\<rparr>) cs),
     te_hash = (\<lambda>s. s), te_pushes = (\<lambda>n. if n = 0 then [simple_message ''user'' ''wait''] else []), te_late = []\<rparr>"

definition demo_chat :: session where
  "demo_chat = new_session ''k'' ''tg'' ''b'' ''c'' []"

definition demo_text :: inbound_message where
  "demo_text = empty_message\<lparr>m_text := ''list the files''\<rparr>"

definition demo_replies :: "nat \<Rightarrow> response" where
  "demo_replies n = (if n = 0 then demo_reply [] [Chat.demo_call ''c1'', Chat.demo_call ''c2''] else demo_reply ''two files'' [])"

lemmas demo_turn_defs = demo_env_def demo_chat_def demo_text_def demo_replies_def demo_reply_def Chat.demo_call_def new_session_def
  empty_message_def message_defs

lemmas turn_defs = agent_turn_def start_turn_def react_round_def answer_round_def tool_round_def ask_def metered_def
  noted_def show_event_def send_on_def note_message_def stamp_message_def begin_turn_def build_user_message_def sender_metadata_def
  compact_messages_def estimate_tokens_def message_tokens_def token_threshold_def failed_rounds_limit_def maybe_recover_def
  round_results_def pad_results_def bridge_results_def bridge_result_def take_result_def judge_result_def result_failed_def
  is_failed_tool_result_def tool_message_def extract_tool_meta_def meta_sandbox_prefix_def assistant_message_def
  drained_def arrive_def push_steer_if_active_def drain_steer_def append_steer_def join_reply_parts_def

lemma demo_trims:
  "trim_space ''two files'' = ''two files''" "trim_space ''a b'' = ''a b''" "trim_space ''HTTP 404'' = ''HTTP 404''"
  by (simp_all add: trim_space_def trim_right_runes_def trim_left_runes_def is_space_def in_range_def)

lemmas demo_run_defs = turn_defs demo_turn_defs Let_def demo_trims numeral_2_eq_2 has_prefix_def analyze_note_def

lemma demo_chat_sound: "sound_session demo_chat"
  by (simp add: sound_session_def sound_def paired_def demo_chat_def new_session_def)

lemma demo_well_behaved: "well_behaved (demo_env demo_replies ''a b'')"
  by (auto simp: well_behaved_def demo_env_def demo_replies_def demo_reply_def regular_reply_def maybe_recover_def
      from_user_def simple_message_def Chat.demo_call_def)


theorem loop_detection_dangles_witness:
  "\<not> anchored [] (map api_shape (to_api_messages (se_messages (tn_session (snd (snd
     (agent_turn (demo_env (\<lambda>n. demo_reply [] [Chat.demo_call ''c'', Chat.demo_call ''c'', Chat.demo_call ''c'']) ''a b'') demo_text demo_chat)))))))"
  by (rule loop_detection_dangles, unfold agent_turn_ending) (simp add: demo_run_defs)

theorem http_text_crashes_witness:
  "fst (agent_turn (demo_env (\<lambda>n. demo_reply [] [Chat.demo_call ''c'']) ''HTTP 404'') demo_text demo_chat) = Crashed \<and>
   fst (snd (agent_turn (demo_env (\<lambda>n. demo_reply [] [Chat.demo_call ''c'']) ''HTTP 404'') demo_text demo_chat)) = None"
  by (rule http_text_crashes [where r = "demo_reply [] [Chat.demo_call ''c'']"]) (simp_all add: demo_run_defs)
end
