(* ===== verification/Lease.thy ===== *)
theory Lease
  imports Claw_Prelude
begin

text \<open>
  The lease that lets one process at a time run a polling channel adapter: the statements on
  \<^verbatim>\<open>channel_leases\<close> (\<^verbatim>\<open>internal/store/database.go\<close>), the interface
  \<^verbatim>\<open>Leaser\<close> and the loop \<^verbatim>\<open>runWithLease\<close> of
  \<^verbatim>\<open>internal/channels/lease.go\<close>, as a machine of runners over one lease store. The laws
  of the interface are a locale, which the statements implement. The clocks of the processes are one
  clock. The implementation over Redis is left out.
\<close>

section \<open>The table\<close>

datatype lease_key = Lease_Key (lk_channel: string) (lk_account: string)

record lease_row =
  ls_key :: lease_key
  ls_holder :: string
  ls_expires :: int

definition is_lease :: "lease_key \<Rightarrow> lease_row \<Rightarrow> bool" where
  "is_lease k r = (ls_key r = k)"

text \<open>Absent, expired, or held by the caller; otherwise no row is affected.\<close>

definition acquire_channel_lease :: "lease_key \<Rightarrow> string \<Rightarrow> int \<Rightarrow> int \<Rightarrow> lease_row list \<Rightarrow> bool \<times> lease_row list" where
  "acquire_channel_lease k h ttl now t = (case tbl_first (is_lease k) t of
     None \<Rightarrow> (True, t @ [\<lparr>ls_key = k, ls_holder = h, ls_expires = now + ttl\<rparr>])
   | Some r \<Rightarrow> if ls_expires r < now \<or> ls_holder r = h
       then (True, tbl_update (is_lease k) (\<lambda>r. r\<lparr>ls_holder := h, ls_expires := now + ttl\<rparr>) t)
       else (False, t))"

definition renew_channel_lease :: "lease_key \<Rightarrow> string \<Rightarrow> int \<Rightarrow> int \<Rightarrow> lease_row list \<Rightarrow> bool \<times> lease_row list" where
  "renew_channel_lease k h ttl now t =
     (let mine = (\<lambda>r. is_lease k r \<and> ls_holder r = h)
      in (0 < tbl_affected mine t, tbl_update mine (\<lambda>r. r\<lparr>ls_expires := now + ttl\<rparr>) t))"

definition release_channel_lease :: "lease_key \<Rightarrow> string \<Rightarrow> lease_row list \<Rightarrow> lease_row list" where
  "release_channel_lease k h t = tbl_delete (\<lambda>r. is_lease k r \<and> ls_holder r = h) t"

section \<open>The interface\<close>

record 's leaser =
  lr_acquire :: "lease_key \<Rightarrow> string \<Rightarrow> int \<Rightarrow> int \<Rightarrow> 's \<Rightarrow> bool \<times> 's"
  lr_renew :: "lease_key \<Rightarrow> string \<Rightarrow> int \<Rightarrow> int \<Rightarrow> 's \<Rightarrow> bool \<times> 's"
  lr_release :: "lease_key \<Rightarrow> string \<Rightarrow> 's \<Rightarrow> 's"

definition store_leaser :: "lease_row list leaser" where
  "store_leaser = \<lparr>lr_acquire = acquire_channel_lease, lr_renew = renew_channel_lease, lr_release = release_channel_lease\<rparr>"

definition nop_leaser :: "'s leaser" where
  "nop_leaser = \<lparr>lr_acquire = (\<lambda>k h ttl now s. (True, s)), lr_renew = (\<lambda>k h ttl now s. (True, s)), lr_release = (\<lambda>k h s. s)\<rparr>"

definition lease_ttl :: int where "lease_ttl = 30 * second"
definition lease_renew_interval :: int where "lease_renew_interval = 10 * second"

section \<open>Runners\<close>

text \<open>One \<^verbatim>\<open>runWithLease\<close>: trying to acquire; the adapter running, with the time of the last
  successful acquisition or renewal; told that the lease is lost, the adapter still running; told to
  shut down, the adapter still running; the adapter gone and the lease to be released, after a shutdown
  or not; ended.\<close>

datatype phase = Waiting | Polling int | Losing | Closing int | Unreleased bool | Ended

record runner =
  rn_key :: lease_key
  rn_holder :: string
  rn_phase :: phase

record 's fleet =
  fl_store :: 's
  fl_now :: int
  fl_runners :: "runner list"

text \<open>The answer of the database to a statement: executed and answered; refused; executed, with an error
  for an answer.\<close>

datatype answer = Acknowledged | Refused_Error | Executed_Error

datatype lease_event = Pass nat | Acquire nat answer | Renew nat answer | Adapter_Ends nat | Shutdown nat | Release nat answer

definition enter :: "nat \<Rightarrow> phase \<Rightarrow> 's fleet \<Rightarrow> 's fleet" where
  "enter i p s = s\<lparr>fl_runners := (fl_runners s)[i := (fl_runners s ! i)\<lparr>rn_phase := p\<rparr>]\<rparr>"

definition executed :: "answer \<Rightarrow> 's \<Rightarrow> 's fleet \<Rightarrow> 's fleet" where
  "executed a st s = (if a = Refused_Error then s else s\<lparr>fl_store := st\<rparr>)"

fun lease_step :: "'s leaser \<Rightarrow> lease_event \<Rightarrow> 's fleet \<Rightarrow> 's fleet option" where
  "lease_step L (Pass d) s = Some (s\<lparr>fl_now := fl_now s + int d\<rparr>)"
| "lease_step L (Acquire i a) s = (if i < length (fl_runners s) \<and> rn_phase (fl_runners s ! i) = Waiting then
     (let r = fl_runners s ! i in case lr_acquire L (rn_key r) (rn_holder r) lease_ttl (fl_now s) (fl_store s) of (ok, st) \<Rightarrow>
       Some (if a = Acknowledged \<and> ok then enter i (Polling (fl_now s)) (executed a st s) else executed a st s))
     else None)"
| "lease_step L (Renew i a) s = (if i < length (fl_runners s) then
     (let r = fl_runners s ! i in case lr_renew L (rn_key r) (rn_holder r) lease_ttl (fl_now s) (fl_store s) of (ok, st) \<Rightarrow>
       (case rn_phase r of
          Polling t \<Rightarrow> Some (if a \<noteq> Acknowledged then executed a st s
            else if ok then enter i (Polling (fl_now s)) (executed a st s) else enter i Losing (executed a st s))
        | Closing t \<Rightarrow> Some (executed a st s)
        | Unreleased b \<Rightarrow> Some (executed a st s)
        | _ \<Rightarrow> None))
     else None)"
| "lease_step L (Adapter_Ends i) s = (if i < length (fl_runners s) then
     (case rn_phase (fl_runners s ! i) of
        Polling t \<Rightarrow> Some (enter i (Unreleased False) s)
      | Losing \<Rightarrow> Some (enter i Waiting s)
      | Closing t \<Rightarrow> Some (enter i (Unreleased True) s)
      | _ \<Rightarrow> None)
     else None)"
| "lease_step L (Shutdown i) s = (if i < length (fl_runners s) then
     (case rn_phase (fl_runners s ! i) of
        Polling t \<Rightarrow> Some (enter i (Closing t) s)
      | Waiting \<Rightarrow> Some (enter i Ended s)
      | _ \<Rightarrow> None)
     else None)"
| "lease_step L (Release i a) s = (if i < length (fl_runners s) then
     (let r = fl_runners s ! i in case rn_phase r of
        Unreleased b \<Rightarrow> Some (enter i (if b then Ended else Waiting) (executed a (lr_release L (rn_key r) (rn_holder r) (fl_store s)) s))
      | _ \<Rightarrow> None)
     else None)"

text \<open>The adapter runs.\<close>

fun adapter_runs :: "phase \<Rightarrow> bool" where
  "adapter_runs (Polling t) = True"
| "adapter_runs Losing = True"
| "adapter_runs (Closing t) = True"
| "adapter_runs _ = False"

text \<open>Prompt runners: time does not pass beyond the lease of a running adapter.\<close>

definition in_time :: "int \<Rightarrow> runner \<Rightarrow> bool" where
  "in_time now r = (case rn_phase r of Polling t \<Rightarrow> now \<le> t + lease_ttl | Closing t \<Rightarrow> now \<le> t + lease_ttl | _ \<Rightarrow> True)"

definition prompt :: "lease_event \<Rightarrow> 's fleet \<Rightarrow> bool" where
  "prompt e s = (case e of Pass d \<Rightarrow> list_all (in_time (fl_now s + int d)) (fl_runners s) | _ \<Rightarrow> True)"

inductive lease_reach :: "'s leaser \<Rightarrow> (lease_event \<Rightarrow> 's fleet \<Rightarrow> bool) \<Rightarrow> 's fleet \<Rightarrow> 's fleet \<Rightarrow> bool" for L ok s0 where
  start: "lease_reach L ok s0 s0"
| step: "lease_reach L ok s0 s \<Longrightarrow> ok e s \<Longrightarrow> lease_step L e s = Some s' \<Longrightarrow> lease_reach L ok s0 s'"

fun lease_run :: "'s leaser \<Rightarrow> lease_event list \<Rightarrow> 's fleet \<Rightarrow> 's fleet option" where
  "lease_run L [] s = Some s"
| "lease_run L (e # es) s = (case lease_step L e s of None \<Rightarrow> None | Some s' \<Rightarrow> lease_run L es s')"

text \<open>\<open>held\<close> is who holds a key, and until when. A running adapter has its lease at least for the term
  of its last renewal, and that term is not over.\<close>

fun covers :: "('s \<Rightarrow> lease_key \<Rightarrow> (string \<times> int) option) \<Rightarrow> 's fleet \<Rightarrow> lease_key \<Rightarrow> string \<Rightarrow> phase \<Rightarrow> bool" where
  "covers held s k h (Polling t) = (t \<le> fl_now s \<and> fl_now s \<le> t + lease_ttl \<and> (\<exists>e. held (fl_store s) k = Some (h, e) \<and> t + lease_ttl \<le> e))"
| "covers held s k h (Closing t) = (t \<le> fl_now s \<and> fl_now s \<le> t + lease_ttl \<and> (\<exists>e. held (fl_store s) k = Some (h, e) \<and> t + lease_ttl \<le> e))"
| "covers held s k h Losing = False"
| "covers held s k h p = True"

definition all_covered :: "('s \<Rightarrow> lease_key \<Rightarrow> (string \<times> int) option) \<Rightarrow> 's fleet \<Rightarrow> bool" where
  "all_covered held s = (\<forall>r \<in> set (fl_runners s). covers held s (rn_key r) (rn_holder r) (rn_phase r))"

definition identities :: "'s fleet \<Rightarrow> (lease_key \<times> string) list" where
  "identities s = map (\<lambda>r. (rn_key r, rn_holder r)) (fl_runners s)"

text \<open>What a statement of one holder may do to a key.\<close>

definition harmless :: "('s \<Rightarrow> lease_key \<Rightarrow> (string \<times> int) option) \<Rightarrow> lease_key \<Rightarrow> string \<Rightarrow> int \<Rightarrow> 's \<Rightarrow> 's \<Rightarrow> bool" where
  "harmless held k h now st st' = (\<forall>k'. held st' k' = held st k' \<or>
     (k' = k \<and> (\<forall>g e. held st k = Some (g, e) \<longrightarrow> e < now \<or> g = h)))"

lemma harmless_refl [simp]: "harmless held k h now st st"
  by (simp add: harmless_def)

lemma identities_enter [simp]: "identities (enter i p s) = identities s"
proof -
  have "map f (xs[i := x]) = map f xs" if "f x = f (xs ! i)" for f :: "runner \<Rightarrow> lease_key \<times> string" and xs x
    using that by (metis list_update_id map_update)
  then show ?thesis by (simp add: identities_def enter_def)
qed

lemma identities_executed [simp]: "identities (executed a st s) = identities s"
  by (simp add: identities_def executed_def)

lemma executed_facts [simp]:
  "fl_now (executed a st s) = fl_now s" "fl_runners (executed a st s) = fl_runners s"
  "fl_store (executed a st s) = (if a = Refused_Error then fl_store s else st)"
  by (simp_all add: executed_def)

lemma enter_facts [simp]: "fl_now (enter i p s) = fl_now s" "fl_store (enter i p s) = fl_store s"
  "fl_runners (enter i p s) = (fl_runners s)[i := (fl_runners s ! i)\<lparr>rn_phase := p\<rparr>]"
  by (simp_all add: enter_def)

lemma covers_enter [simp]: "covers held (enter i q s) k h p = covers held s k h p"
  by (cases p) simp_all

lemma covers_iff: "covers held s k h p \<longleftrightarrow> p \<noteq> Losing \<and> (\<forall>t. p = Polling t \<or> p = Closing t \<longrightarrow>
    t \<le> fl_now s \<and> fl_now s \<le> t + lease_ttl \<and> (\<exists>e. held (fl_store s) k = Some (h, e) \<and> t + lease_ttl \<le> e))"
  by (cases p) auto

lemma covers_harmless:
  assumes "covers held s k h p" and "harmless held k' h' (fl_now s) (fl_store s) st" and "k = k' \<longrightarrow> h \<noteq> h'"
  shows "covers held (s\<lparr>fl_store := st\<rparr>) k h p"
  unfolding covers_iff
proof (intro conjI allI impI)
  show "p \<noteq> Losing" using assms(1) by (simp add: covers_iff)
  fix t assume t: "p = Polling t \<or> p = Closing t"
  then obtain e where e: "held (fl_store s) k = Some (h, e)" "t + lease_ttl \<le> e" "t \<le> fl_now s" "fl_now s \<le> t + lease_ttl"
    using assms(1) unfolding covers_iff by blast
  have "held st k = held (fl_store s) k \<or> (k = k' \<and> (\<forall>g e. held (fl_store s) k' = Some (g, e) \<longrightarrow> e < fl_now s \<or> g = h'))"
    using assms(2) unfolding harmless_def by blast
  then have "held st k = Some (h, e)" using e assms(3) by auto
  with e show "\<exists>e. held (fl_store (s\<lparr>fl_store := st\<rparr>)) k = Some (h, e) \<and> t + lease_ttl \<le> e"
    and "t \<le> fl_now (s\<lparr>fl_store := st\<rparr>)" and "fl_now (s\<lparr>fl_store := st\<rparr>) \<le> t + lease_ttl" by simp_all
qed

lemma all_covered_update:
  assumes "all_covered held s" and "distinct (identities s)" and "i < length (fl_runners s)"
    and "harmless held (rn_key (fl_runners s ! i)) (rn_holder (fl_runners s ! i)) (fl_now s) (fl_store s) st"
    and "covers held (s\<lparr>fl_store := st\<rparr>) (rn_key (fl_runners s ! i)) (rn_holder (fl_runners s ! i)) p"
  shows "all_covered held (enter i p (s\<lparr>fl_store := st\<rparr>))"
proof -
  let ?rs = "fl_runners s"
  have others: "covers held (s\<lparr>fl_store := st\<rparr>) (rn_key (?rs ! j)) (rn_holder (?rs ! j)) (rn_phase (?rs ! j))"
    if "j < length ?rs" "j \<noteq> i" for j
  proof (rule covers_harmless [OF _ assms(4)])
    show "covers held s (rn_key (?rs ! j)) (rn_holder (?rs ! j)) (rn_phase (?rs ! j))"
      using assms(1) that(1) by (simp add: all_covered_def)
    have "identities s ! j \<noteq> identities s ! i"
      using nth_eq_iff_index_eq [OF assms(2), of j i] assms(3) that by (simp add: identities_def)
    then show "rn_key (?rs ! j) = rn_key (?rs ! i) \<longrightarrow> rn_holder (?rs ! j) \<noteq> rn_holder (?rs ! i)"
      using that(1) assms(3) by (simp add: identities_def)
  qed
  have all: "covers held (s\<lparr>fl_store := st\<rparr>) (rn_key r) (rn_holder r) (rn_phase r)"
    if mem: "r \<in> set (?rs[i := (?rs ! i)\<lparr>rn_phase := p\<rparr>])" for r
  proof -
    obtain m where m: "m < length ?rs" and r: "r = ?rs[i := (?rs ! i)\<lparr>rn_phase := p\<rparr>] ! m"
      using mem unfolding in_set_conv_nth length_list_update by blast
    show ?thesis
    proof (cases "m = i")
      case True
      then have "r = (?rs ! i)\<lparr>rn_phase := p\<rparr>" using r m by (simp only: nth_list_update_eq)
      then show ?thesis using assms(5) by simp
    next
      case False
      then have "r = ?rs ! m" using r by (metis nth_list_update_neq)
      then show ?thesis using others [OF m False] by (simp only:)
    qed
  qed
  show ?thesis unfolding all_covered_def
  proof (rule ballI)
    fix r assume "r \<in> set (fl_runners (enter i p (s\<lparr>fl_store := st\<rparr>)))"
    then have "r \<in> set (?rs[i := (?rs ! i)\<lparr>rn_phase := p\<rparr>])" by simp
    from all [OF this] show "covers held (enter i p (s\<lparr>fl_store := st\<rparr>)) (rn_key r) (rn_holder r) (rn_phase r)"
      by (simp only: covers_enter)
  qed
qed

text \<open>No term ends later than one term from now, so a lease is free a term after its holder has fallen
  silent.\<close>

definition terms_bounded :: "('s \<Rightarrow> lease_key \<Rightarrow> (string \<times> int) option) \<Rightarrow> 's fleet \<Rightarrow> bool" where
  "terms_bounded held s = (\<forall>k g e. held (fl_store s) k = Some (g, e) \<longrightarrow> e \<le> fl_now s + lease_ttl)"

section \<open>The contract\<close>

locale lease_laws =
  fixes L :: "'s leaser" and valid :: "'s \<Rightarrow> bool" and held :: "'s \<Rightarrow> lease_key \<Rightarrow> (string \<times> int) option"
  assumes acquire_valid: "valid s \<Longrightarrow> valid (snd (lr_acquire L k h ttl now s))"
    and renew_valid: "valid s \<Longrightarrow> valid (snd (lr_renew L k h ttl now s))"
    and release_valid: "valid s \<Longrightarrow> valid (lr_release L k h s)"
    and acquire_iff: "valid s \<Longrightarrow> fst (lr_acquire L k h ttl now s) \<longleftrightarrow>
      (\<forall>g e. held s k = Some (g, e) \<longrightarrow> e < now \<or> g = h)"
    and acquired: "valid s \<Longrightarrow> held (snd (lr_acquire L k h ttl now s)) =
      (if fst (lr_acquire L k h ttl now s) then (held s)(k \<mapsto> (h, now + ttl)) else held s)"
    and renew_iff: "valid s \<Longrightarrow> fst (lr_renew L k h ttl now s) \<longleftrightarrow> (\<exists>e. held s k = Some (h, e))"
    and renewed: "valid s \<Longrightarrow> held (snd (lr_renew L k h ttl now s)) =
      (if fst (lr_renew L k h ttl now s) then (held s)(k \<mapsto> (h, now + ttl)) else held s)"
    and released: "valid s \<Longrightarrow> held (lr_release L k h s) = (if \<exists>e. held s k = Some (h, e) then (held s)(k := None) else held s)"
begin

lemma acquire_harmless: "valid s \<Longrightarrow> harmless held k h now s (snd (lr_acquire L k h ttl now s))"
  using acquire_iff [of s k] by (auto simp: harmless_def acquired)

lemma renew_harmless: "valid s \<Longrightarrow> harmless held k h now s (snd (lr_renew L k h ttl now s))"
  by (auto simp: harmless_def renewed renew_iff)

lemma release_harmless: "valid s \<Longrightarrow> harmless held k h now s (lr_release L k h s)"
  by (auto simp: harmless_def released)

lemma step_valid:
  assumes "lease_step L e s = Some s'" and "valid (fl_store s)"
  shows "valid (fl_store s')"
proof (cases e)
  case (Acquire i a)
  then show ?thesis using assms acquire_valid by (auto simp: Let_def case_prod_unfold split: if_splits)
next
  case (Renew i a)
  then show ?thesis using assms renew_valid by (auto simp: Let_def case_prod_unfold split: if_splits phase.splits)
next
  case (Release i a)
  then show ?thesis using assms release_valid by (auto simp: Let_def split: if_splits phase.splits)
qed (use assms in \<open>auto split: if_splits phase.splits\<close>)

lemma pass_covered:
  assumes "prompt (Pass d) s" and "all_covered held s"
  shows "all_covered held (s\<lparr>fl_now := fl_now s + int d\<rparr>)"
proof -
  have "covers held (s\<lparr>fl_now := fl_now s + int d\<rparr>) (rn_key r) (rn_holder r) (rn_phase r)" if "r \<in> set (fl_runners s)" for r
    using assms that by (cases "rn_phase r") (fastforce simp: prompt_def list_all_iff in_time_def all_covered_def)+
  then show ?thesis by (simp add: all_covered_def)
qed

lemma unchanged_phase: "i < length (fl_runners s) \<Longrightarrow> rn_phase (fl_runners s ! i) = p \<Longrightarrow> enter i p s = s"
  by (auto simp: enter_def)

text \<open>A step of one runner in one form: a statement of its own, and its next phase.\<close>

lemma runner_step_covered:
  assumes "all_covered held s" and "distinct (identities s)" and "i < length (fl_runners s)"
    and "harmless held (rn_key (fl_runners s ! i)) (rn_holder (fl_runners s ! i)) (fl_now s) (fl_store s) st"
    and "a \<noteq> Refused_Error \<Longrightarrow> covers held (s\<lparr>fl_store := st\<rparr>) (rn_key (fl_runners s ! i)) (rn_holder (fl_runners s ! i)) p"
    and "a = Refused_Error \<Longrightarrow> covers held s (rn_key (fl_runners s ! i)) (rn_holder (fl_runners s ! i)) p"
  shows "all_covered held (enter i p (executed a st s))"
proof (cases "a = Refused_Error")
  case True
  with all_covered_update [OF assms(1-3), of "fl_store s" p] assms(6) True show ?thesis by (simp add: executed_def)
qed (use all_covered_update [OF assms(1-4)] assms(5) in \<open>simp add: executed_def\<close>)

lemma runner_covers: "all_covered held s \<Longrightarrow> i < length (fl_runners s) \<Longrightarrow>
    covers held s (rn_key (fl_runners s ! i)) (rn_holder (fl_runners s ! i)) (rn_phase (fl_runners s ! i))"
  by (simp add: all_covered_def)

lemma step_covered:
  assumes "lease_step L e s = Some s'" and "prompt e s" and "all_covered held s" and "distinct (identities s)"
    and valid: "valid (fl_store s)"
  shows "all_covered held s' \<and> identities s' = identities s"
proof (cases e)
  case (Pass d)
  then show ?thesis using assms(1) pass_covered [OF _ assms(3)] assms(2) by (auto simp: identities_def)
next
  case (Acquire i a)
  let ?r = "fl_runners s ! i"
  obtain ok st where q: "lr_acquire L (rn_key ?r) (rn_holder ?r) lease_ttl (fl_now s) (fl_store s) = (ok, st)" by fastforce
  from assms(1) Acquire q have i: "i < length (fl_runners s)" "rn_phase ?r = Waiting"
    and s': "s' = enter i (if a = Acknowledged \<and> ok then Polling (fl_now s) else Waiting) (executed a st s)"
    using unchanged_phase [of i "executed a st s"] by (auto split: if_splits)
  have st: "harmless held (rn_key ?r) (rn_holder ?r) (fl_now s) (fl_store s) st"
    using acquire_harmless [OF valid, of "rn_key ?r" "rn_holder ?r" "fl_now s" lease_ttl] by (simp add: q)
  have "held st (rn_key ?r) = Some (rn_holder ?r, fl_now s + lease_ttl)" if ok
    using acquired [OF valid, of "rn_key ?r" "rn_holder ?r" lease_ttl "fl_now s"] that by (simp add: q)
  then show ?thesis unfolding s' using i
    by (auto simp: lease_ttl_def intro!: runner_step_covered [OF assms(3,4) i(1) st])
next
  case (Renew i a)
  let ?r = "fl_runners s ! i"
  obtain ok st where q: "lr_renew L (rn_key ?r) (rn_holder ?r) lease_ttl (fl_now s) (fl_store s) = (ok, st)" by fastforce
  have i: "i < length (fl_runners s)" using assms(1) Renew by (simp split: if_splits)
  note c = runner_covers [OF assms(3) i]
  have ok: "ok \<longleftrightarrow> (\<exists>e. held (fl_store s) (rn_key ?r) = Some (rn_holder ?r, e))"
    using renew_iff [OF valid, of "rn_key ?r" "rn_holder ?r" lease_ttl "fl_now s"] by (simp add: q)
  have held: "held st (rn_key ?r) = (if ok then Some (rn_holder ?r, fl_now s + lease_ttl) else held (fl_store s) (rn_key ?r))"
    using renewed [OF valid, of "rn_key ?r" "rn_holder ?r" lease_ttl "fl_now s"] by (simp add: q)
  have lost: "rn_phase ?r \<noteq> Polling t" if "\<not> ok" for t using that ok c by auto
  have "s' = executed a st s \<or> a = Acknowledged \<and> ok \<and> s' = enter i (Polling (fl_now s)) (executed a st s)"
    using assms(1) Renew i q lost by (auto split: if_splits phase.splits)
  then obtain p where s': "s' = enter i p (executed a st s)" and p: "p = rn_phase ?r \<or> a = Acknowledged \<and> ok \<and> p = Polling (fl_now s)"
    using unchanged_phase [of i "executed a st s" "rn_phase ?r"] i by (metis executed_facts(2))
  have st: "harmless held (rn_key ?r) (rn_holder ?r) (fl_now s) (fl_store s) st"
    using renew_harmless [OF valid, of "rn_key ?r" "rn_holder ?r" "fl_now s" lease_ttl] by (simp add: q)
  have kept: "covers held (s\<lparr>fl_store := st\<rparr>) (rn_key ?r) (rn_holder ?r) (rn_phase ?r)"
    using c held ok unfolding covers_iff by (cases ok) auto
  have fresh: "covers held (s\<lparr>fl_store := st\<rparr>) (rn_key ?r) (rn_holder ?r) (Polling (fl_now s))" if ok
    using that held by (simp add: lease_ttl_def)
  have "all_covered held s'" unfolding s' using p kept fresh c
    by (intro runner_step_covered [OF assms(3,4) i st]) auto
  then show ?thesis by (simp add: s')
next
  case (Adapter_Ends i)
  then have "\<exists>p. s' = enter i p (executed Refused_Error (fl_store s) s) \<and> i < length (fl_runners s) \<and>
      covers held s (rn_key (fl_runners s ! i)) (rn_holder (fl_runners s ! i)) p"
    using assms(1) by (auto simp: executed_def split: if_splits phase.splits)
  then show ?thesis by (auto intro!: runner_step_covered [OF assms(3,4)])
next
  case (Shutdown i)
  then have "\<exists>p. s' = enter i p (executed Refused_Error (fl_store s) s) \<and> i < length (fl_runners s) \<and>
      covers held s (rn_key (fl_runners s ! i)) (rn_holder (fl_runners s ! i)) p"
    using assms(1) runner_covers [OF assms(3), of i] by (auto simp: executed_def split: if_splits phase.splits)
  then show ?thesis by (auto intro!: runner_step_covered [OF assms(3,4)])
next
  case (Release i a)
  let ?r = "fl_runners s ! i"
  have "\<exists>p. s' = enter i p (executed a (lr_release L (rn_key ?r) (rn_holder ?r) (fl_store s)) s) \<and> i < length (fl_runners s) \<and>
      (\<forall>u. covers held u (rn_key ?r) (rn_holder ?r) p)"
    using assms(1) Release by (auto simp: Let_def split: if_splits phase.splits)
  then show ?thesis by (auto intro!: runner_step_covered [OF assms(3,4)] release_harmless valid)
qed

lemma reach_covered:
  assumes "lease_reach L prompt s0 s" and "all_covered held s0" and "distinct (identities s0)" and "valid (fl_store s0)"
  shows "all_covered held s \<and> identities s = identities s0 \<and> valid (fl_store s)"
  using assms(1)
proof induction
  case start
  then show ?case using assms(2,4) by simp
next
  case (step s e s')
  then show ?case using step_covered [OF step.hyps(3,2)] step_valid [OF step.hyps(3)] assms(3) by simp
qed

lemma covered_alone:
  assumes "all_covered held s" and "distinct (identities s)" and "i < length (fl_runners s)" and "j < length (fl_runners s)"
    and "adapter_runs (rn_phase (fl_runners s ! i))" and "adapter_runs (rn_phase (fl_runners s ! j))"
    and "rn_key (fl_runners s ! i) = rn_key (fl_runners s ! j)"
  shows "i = j"
proof -
  have "\<exists>e. held (fl_store s) (rn_key (fl_runners s ! l)) = Some (rn_holder (fl_runners s ! l), e)"
    if "l < length (fl_runners s)" "adapter_runs (rn_phase (fl_runners s ! l))" for l
    using runner_covers [OF assms(1) that(1)] that(2) by (cases "rn_phase (fl_runners s ! l)") auto
  from this [OF assms(3,5)] this [OF assms(4,6)] have "identities s ! i = identities s ! j"
    using assms(3,4,7) by (auto simp: identities_def)
  then show ?thesis using nth_eq_iff_index_eq [OF assms(2)] assms(3,4) by (simp add: identities_def)
qed

lemma step_terms:
  assumes "lease_step L e s = Some s'" and "valid (fl_store s)" and "terms_bounded held s"
  shows "terms_bounded held s'"
proof -
  note old = assms(3) [unfolded terms_bounded_def]
  show ?thesis
  proof (cases e)
    case (Pass d)
    then show ?thesis using assms(1) old by (fastforce simp: terms_bounded_def)
  next
    case (Acquire i a)
    obtain ok st where q: "lr_acquire L (rn_key (fl_runners s ! i)) (rn_holder (fl_runners s ! i)) lease_ttl (fl_now s) (fl_store s) = (ok, st)" by fastforce
    have "held st = held (fl_store s) \<or> held st = (held (fl_store s))(rn_key (fl_runners s ! i) \<mapsto> (rn_holder (fl_runners s ! i), fl_now s + lease_ttl))"
      using acquired [OF assms(2), of "rn_key (fl_runners s ! i)" "rn_holder (fl_runners s ! i)" lease_ttl "fl_now s"] by (auto simp: q)
    moreover have "fl_now s' = fl_now s" "fl_store s' \<in> {fl_store s, st}" using assms(1) Acquire q by (auto split: if_splits)
    ultimately show ?thesis using old by (auto simp: terms_bounded_def split: if_splits)
  next
    case (Renew i a)
    obtain ok st where q: "lr_renew L (rn_key (fl_runners s ! i)) (rn_holder (fl_runners s ! i)) lease_ttl (fl_now s) (fl_store s) = (ok, st)" by fastforce
    have "held st = held (fl_store s) \<or> held st = (held (fl_store s))(rn_key (fl_runners s ! i) \<mapsto> (rn_holder (fl_runners s ! i), fl_now s + lease_ttl))"
      using renewed [OF assms(2), of "rn_key (fl_runners s ! i)" "rn_holder (fl_runners s ! i)" lease_ttl "fl_now s"] by (auto simp: q)
    moreover have "fl_now s' = fl_now s" "fl_store s' \<in> {fl_store s, st}" using assms(1) Renew q by (auto split: if_splits phase.splits)
    ultimately show ?thesis using old by (auto simp: terms_bounded_def split: if_splits)
  next
    case (Release i a)
    let ?st = "lr_release L (rn_key (fl_runners s ! i)) (rn_holder (fl_runners s ! i)) (fl_store s)"
    have "held ?st = held (fl_store s) \<or> held ?st = (held (fl_store s))(rn_key (fl_runners s ! i) := None)"
      using released [OF assms(2), of "rn_key (fl_runners s ! i)" "rn_holder (fl_runners s ! i)"] by auto
    moreover have "fl_now s' = fl_now s" "fl_store s' \<in> {fl_store s, ?st}" using assms(1) Release by (auto simp: Let_def split: if_splits phase.splits)
    ultimately show ?thesis using old by (auto simp: terms_bounded_def split: if_splits)
  qed (use assms(1) old in \<open>auto simp: terms_bounded_def split: if_splits phase.splits\<close>)
qed

lemma reach_terms:
  assumes "lease_reach L ok s0 s" and "terms_bounded held s0" and "valid (fl_store s0)"
  shows "terms_bounded held s \<and> valid (fl_store s)"
  using assms(1)
proof induction
  case start
  then show ?case using assms(2,3) by simp
next
  case (step s e s')
  then show ?case using step_terms [OF step.hyps(3)] step_valid [OF step.hyps(3)] by simp
qed

lemma silence_frees:
  assumes "terms_bounded held s" and "valid (fl_store s)" and "lease_ttl < int d" and "i < length (fl_runners s)"
    and "rn_phase (fl_runners s ! i) = Waiting"
  shows "\<exists>s'. lease_run L [Pass d, Acquire i Acknowledged] s = Some s' \<and> rn_phase (fl_runners s' ! i) = Polling (fl_now s')"
proof -
  let ?r = "fl_runners s ! i"
  obtain ok st where q: "lr_acquire L (rn_key ?r) (rn_holder ?r) lease_ttl (fl_now s + int d) (fl_store s) = (ok, st)" by fastforce
  have ok using acquire_iff [OF assms(2), of "rn_key ?r" "rn_holder ?r" lease_ttl "fl_now s + int d"] q assms(1,3)
    unfolding terms_bounded_def by fastforce
  with q assms(4,5) show ?thesis by simp
qed

end

section \<open>The statements keep the contract\<close>

definition holders :: "lease_row list \<Rightarrow> lease_key \<Rightarrow> (string \<times> int) option" where
  "holders t k = map_option (\<lambda>r. (ls_holder r, ls_expires r)) (tbl_first (is_lease k) t)"

definition unique_leases :: "lease_row list \<Rightarrow> bool" where
  "unique_leases t = distinct (map ls_key t)"

lemma holders_update:
  assumes "unique_leases t" and "\<And>r. ls_key (f r) = ls_key r"
    and "\<And>r. r \<in> set t \<Longrightarrow> w r \<Longrightarrow> ls_key r = k"
  shows "holders (tbl_update w f t) = (case tbl_first w t of None \<Rightarrow> holders t
    | Some r \<Rightarrow> (holders t)(k \<mapsto> (ls_holder (f r), ls_expires (f r))))"
proof (cases "tbl_first w t")
  case None
  then have "tbl_update w f t = t" by (intro tbl_update_none) (simp add: tbl_first_None)
  with None show ?thesis by simp
next
  case (Some r)
  then have r: "r \<in> set t" "w r" by (auto dest: tbl_first_SomeD)
  then have k: "ls_key r = k" using assms(3) by simp
  have first: "tbl_first (is_lease k) t = Some r"
    using tbl_first_unique [OF assms(1) [unfolded unique_leases_def] r(1)] by (simp add: is_lease_def [abs_def] k)
  have "holders (tbl_update w f t) k' = ((holders t)(k \<mapsto> (ls_holder (f r), ls_expires (f r)))) k'" for k'
  proof -
    have move: "tbl_first (is_lease k') (tbl_update w f t) = map_option (\<lambda>r. if w r then f r else r) (tbl_first (is_lease k') t)"
      by (rule tbl_first_update) (simp add: is_lease_def assms(2))
    show ?thesis
    proof (cases "k' = k")
      case False
      then have "\<not> w x" if "tbl_first (is_lease k') t = Some x" for x
        using tbl_first_SomeD [OF that] assms(3) by (auto simp: is_lease_def)
      with False move show ?thesis by (cases "tbl_first (is_lease k') t") (simp_all add: holders_def)
    qed (use move first r in \<open>simp add: holders_def\<close>)
  qed
  with Some show ?thesis by auto
qed

lemma holders_Some: "unique_leases t \<Longrightarrow> holders t k = Some (h, e) \<longleftrightarrow>
    (\<exists>r \<in> set t. ls_key r = k \<and> ls_holder r = h \<and> ls_expires r = e)"
  using tbl_first_unique [of ls_key t] tbl_first_SomeD [of "is_lease k" t]
  by (auto simp: holders_def unique_leases_def is_lease_def [abs_def])

lemma holders_None: "holders t k = None \<longleftrightarrow> (\<forall>r \<in> set t. ls_key r \<noteq> k)"
  by (auto simp: holders_def tbl_first_None is_lease_def)

lemma unique_update: "(\<And>r. ls_key (f r) = ls_key r) \<Longrightarrow> unique_leases (tbl_update w f t) = unique_leases t"
  by (simp add: unique_leases_def tbl_update_key)

lemma acquire_cases:
  obtains (free) "tbl_first (is_lease k) t = None"
      "acquire_channel_lease k h ttl now t = (True, t @ [\<lparr>ls_key = k, ls_holder = h, ls_expires = now + ttl\<rparr>])"
  | (taken) r where "tbl_first (is_lease k) t = Some r" "ls_expires r < now \<or> ls_holder r = h"
      "acquire_channel_lease k h ttl now t = (True, tbl_update (is_lease k) (\<lambda>r. r\<lparr>ls_holder := h, ls_expires := now + ttl\<rparr>) t)"
  | (refused) r where "tbl_first (is_lease k) t = Some r" "\<not> (ls_expires r < now \<or> ls_holder r = h)"
      "acquire_channel_lease k h ttl now t = (False, t)"
  by (cases "tbl_first (is_lease k) t") (auto simp: acquire_channel_lease_def split: if_splits)

lemma holders_snoc: "holders t k = None \<Longrightarrow> holders (t @ [\<lparr>ls_key = k, ls_holder = h, ls_expires = e\<rparr>]) = (holders t)(k \<mapsto> (h, e))"
  by (rule ext) (auto simp: holders_def tbl_first_append tbl_first_Cons tbl_first_Nil is_lease_def split: option.splits)

lemma holders_delete:
  assumes "unique_leases t"
  shows "holders (release_channel_lease k h t) = (if \<exists>e. holders t k = Some (h, e) then (holders t)(k := None) else holders t)"
proof
  fix k'
  let ?mine = "\<lambda>r. is_lease k r \<and> ls_holder r = h"
  show "holders (release_channel_lease k h t) k' = (if \<exists>e. holders t k = Some (h, e) then (holders t)(k := None) else holders t) k'"
  proof (cases "k' = k \<and> (\<exists>e. holders t k = Some (h, e))")
    case True
    then obtain r where r: "r \<in> set t" "ls_key r = k" "ls_holder r = h" using holders_Some [OF assms] by auto
    have "x = r" if "x \<in> set t" "ls_key x = k" for x
      using that r assms unfolding unique_leases_def by (metis inj_onD distinct_map)
    then have "\<not> (ls_key x = k \<and> \<not> (ls_key x = k \<and> ls_holder x = h))" if "x \<in> set t" for x
      using that r(3) by blast
    then have "holders (release_channel_lease k h t) k = None"
      unfolding holders_None release_channel_lease_def tbl_delete_def is_lease_def set_filter by blast
    with True show ?thesis by auto
  next
    case False
    have "holders (release_channel_lease k h t) k' = holders t k'"
    proof (cases "k' = k")
      case True
      with False have "\<not> ?mine x" if "x \<in> set t" for x using that holders_Some [OF assms, of k h] by (auto simp: is_lease_def)
      then have "release_channel_lease k h t = t" by (auto simp: release_channel_lease_def tbl_delete_def filter_id_conv)
      then show ?thesis by simp
    next
      case False
      then show ?thesis
        using tbl_first_delete_other [of "is_lease k'" ?mine] by (simp add: holders_def release_channel_lease_def is_lease_def)
    qed
    then show ?thesis using False by (auto split: if_splits)
  qed
qed

lemma renew_affected: "unique_leases t \<Longrightarrow> 0 < tbl_affected (\<lambda>r. is_lease k r \<and> ls_holder r = h) t \<longleftrightarrow> (\<exists>e. holders t k = Some (h, e))"
  by (auto simp: tbl_affected_pos holders_Some is_lease_def)

interpretation leases: lease_laws store_leaser unique_leases holders
proof (unfold_locales, goal_cases)
  case (1 t k h ttl now)
  then show ?case
    by (cases rule: acquire_cases [of k t h ttl now])
      (auto simp: store_leaser_def unique_update, auto simp: unique_leases_def tbl_first_None is_lease_def)
next
  case (2 t k h ttl now)
  then show ?case by (simp add: store_leaser_def renew_channel_lease_def Let_def unique_update)
next
  case (3 t k h)
  then show ?case by (simp add: store_leaser_def release_channel_lease_def unique_leases_def tbl_delete_distinct)
next
  case (4 t k h ttl now)
  show ?case by (cases rule: acquire_cases [of k t h ttl now]) (auto simp: store_leaser_def holders_def)
next
  case (5 t k h ttl now)
  show ?case
  proof (cases rule: acquire_cases [of k t h ttl now])
    case free
    then show ?thesis by (simp add: store_leaser_def holders_snoc holders_def)
  next
    case (taken r)
    then show ?thesis
      using holders_update [OF 5, of "\<lambda>r. r\<lparr>ls_holder := h, ls_expires := now + ttl\<rparr>" "is_lease k" k]
      by (simp add: store_leaser_def is_lease_def [abs_def])
  qed (simp add: store_leaser_def)
next
  case (6 t k h ttl now)
  then show ?case by (simp add: store_leaser_def renew_channel_lease_def Let_def renew_affected)
next
  case (7 t k h ttl now)
  let ?mine = "\<lambda>r. is_lease k r \<and> ls_holder r = h"
  show ?case
  proof (cases "tbl_first ?mine t")
    case None
    then have "\<not> 0 < tbl_affected ?mine t" by (simp add: tbl_affected_pos tbl_first_None)
    with None holders_update [OF 7, of "\<lambda>r. r\<lparr>ls_expires := now + ttl\<rparr>" ?mine k] show ?thesis
      by (simp add: store_leaser_def renew_channel_lease_def Let_def is_lease_def [abs_def])
  next
    case (Some r)
    then have "0 < tbl_affected ?mine t" "ls_holder r = h" by (auto simp: tbl_affected_pos dest: tbl_first_SomeD)
    with Some holders_update [OF 7, of "\<lambda>r. r\<lparr>ls_expires := now + ttl\<rparr>" ?mine k] show ?thesis
      by (simp add: store_leaser_def renew_channel_lease_def Let_def is_lease_def [abs_def])
  qed
next
  case (8 t k h)
  then show ?case using holders_delete by (simp add: store_leaser_def)
qed

section \<open>Properties\<close>

definition idle_fleet :: "'s \<Rightarrow> int \<Rightarrow> (lease_key \<times> string) list \<Rightarrow> 's fleet" where
  "idle_fleet t now ids = \<lparr>fl_store = t, fl_now = now, fl_runners = map (\<lambda>(k, h). \<lparr>rn_key = k, rn_holder = h, rn_phase = Waiting\<rparr>) ids\<rparr>"

lemma idle_covered: "all_covered held (idle_fleet t now ids)"
  by (auto simp: all_covered_def idle_fleet_def)

lemma idle_identities [simp]: "identities (idle_fleet t now ids) = ids"
  by (simp add: identities_def idle_fleet_def comp_def case_prod_beta)

lemma idle_store [simp]: "fl_store (idle_fleet t now ids) = t"
  by (simp add: idle_fleet_def)


text \<open>C14: When everybody has been silent for longer than a term, whoever asks next gets the lease and starts
  its adapter: a crashed process is replaced.\<close>

theorem silent_lease_is_free:
  assumes "lease_reach store_leaser ok (idle_fleet t now ids) s" and "unique_leases t"
    and "\<forall>r \<in> set t. ls_expires r \<le> now + lease_ttl"
    and "lease_ttl < int d" and "i < length (fl_runners s)" and "rn_phase (fl_runners s ! i) = Waiting"
  shows "\<exists>s'. lease_run store_leaser [Pass d, Acquire i Acknowledged] s = Some s' \<and> rn_phase (fl_runners s' ! i) = Polling (fl_now s')"
proof -
  have "terms_bounded holders (idle_fleet t now ids)"
    using assms(3) by (auto simp: terms_bounded_def idle_fleet_def holders_def dest: tbl_first_SomeD)
  then have "terms_bounded holders s \<and> unique_leases (fl_store s)"
    using leases.reach_terms [OF assms(1)] assms(2) by simp
  then show ?thesis using leases.silence_frees assms(4-6) by blast
qed

lemma lease_run_append: "lease_run L (es @ es') s = (case lease_run L es s of None \<Rightarrow> None | Some s' \<Rightarrow> lease_run L es' s')"
  by (induction es arbitrary: s) (simp_all split: option.split)


section \<open>Witnesses\<close>

definition demo_ids :: "(lease_key \<times> string) list" where
  "demo_ids = [(Lease_Key ''wechat'' ''bot'', ''p''), (Lease_Key ''wechat'' ''bot'', ''q'')]"

fun guarded_run :: "'s leaser \<Rightarrow> (lease_event \<Rightarrow> 's fleet \<Rightarrow> bool) \<Rightarrow> lease_event list \<Rightarrow> 's fleet \<Rightarrow> 's fleet option" where
  "guarded_run L ok [] s = Some s"
| "guarded_run L ok (e # es) s = (if ok e s then case lease_step L e s of None \<Rightarrow> None | Some s' \<Rightarrow> guarded_run L ok es s' else None)"

lemma guarded_reach: "guarded_run L ok es s = Some s' \<Longrightarrow> lease_reach L ok s0 s \<Longrightarrow> lease_reach L ok s0 s'"
  by (induction es arbitrary: s) (auto split: option.splits if_splits intro: lease_reach.step)

lemmas demo_lease_defs = demo_ids_def idle_fleet_def enter_def executed_def store_leaser_def acquire_channel_lease_def
  renew_channel_lease_def table_simps tbl_affected_def is_lease_def tbl_update_def prompt_def in_time_def lease_ttl_def Let_def

definition demo_shift :: "lease_event list" where
  "demo_shift = [Acquire 0 Acknowledged, Pass (20 * 10 ^ 9), Renew 0 Executed_Error, Renew 0 Acknowledged, Acquire 1 Acknowledged, Pass (20 * 10 ^ 9)]"


theorem silent_lease_is_free_witness:
  "\<exists>s'. lease_run store_leaser [Pass (31 * 10 ^ 9), Acquire 1 Acknowledged]
      (the (guarded_run store_leaser (\<lambda>_ _. True) [Acquire 0 Acknowledged] (idle_fleet [] 5 demo_ids))) = Some s' \<and>
    rn_phase (fl_runners s' ! 1) = Polling (fl_now s')"
proof -
  obtain s where run: "guarded_run store_leaser (\<lambda>_ _. True) [Acquire 0 Acknowledged] (idle_fleet [] 5 demo_ids) = Some s"
    and s: "length (fl_runners s) = 2" "rn_phase (fl_runners s ! 1) = Waiting"
    by (simp add: demo_lease_defs)
  have "\<exists>s'. lease_run store_leaser [Pass (31 * 10 ^ 9), Acquire 1 Acknowledged] s = Some s' \<and> rn_phase (fl_runners s' ! 1) = Polling (fl_now s')"
    by (rule silent_lease_is_free [OF guarded_reach [OF run lease_reach.start]])
      (use s in \<open>simp_all add: unique_leases_def lease_ttl_def\<close>)
  with run show ?thesis by simp
qed

end
