(* ===== verification/Channels.thy ===== *)
theory Channels
  imports Lease Turn
begin

text \<open>
  The channel manager (\<^verbatim>\<open>internal/channels/manager.go\<close>): the table of adapters, which
  of them are leased, the goroutines it launches, and the delivery of outbound messages, with the splitting of a
  reply and the flattening of its tables (\<^verbatim>\<open>internal/channels/base.go\<close>) and the
  registration of a stored channel (\<^verbatim>\<open>internal/gateway/channels.go\<close>). The adapters
  themselves are clients of chat platforms.
\<close>

section \<open>Splitting at a marker\<close>

text \<open>\<^verbatim>\<open>strings.Split\<close> at a separator that is not empty.\<close>

function split_str :: "string \<Rightarrow> string \<Rightarrow> string list" where
  "split_str sep s = (if sep = [] then [s] else case cut_str sep s of None \<Rightarrow> [s] | Some (u, v) \<Rightarrow> u # split_str sep v)"
  by pat_completeness auto
termination
  by (relation "measure (length \<circ> snd)") (auto dest: cut_str_shorter)

declare split_str.simps [simp del]

definition split_outbound_text :: "string \<Rightarrow> string list" where
  "split_outbound_text s = filter (\<lambda>p. p \<noteq> []) (map trim_space (split_str split_marker s))"

section \<open>Outbound messages\<close>

record outbound_message =
  o_channel :: string
  o_account :: string
  o_agent :: string
  o_chat :: string
  o_text :: string
  o_reply_to :: string
  o_parse_mode :: string
  o_buttons :: "(string \<times> string \<times> string) list list"
  o_edit :: string
  o_paths :: "string list"
  o_items :: "(string \<times> string \<times> string) list"
  o_allow_split :: bool

definition without_extras :: "outbound_message \<Rightarrow> outbound_message" where
  "without_extras m = m\<lparr>o_items := [], o_paths := [], o_buttons := [], o_reply_to := [], o_edit := []\<rparr>"

text \<open>The chunks with their attachments, which only the last carries.\<close>

fun chunk_messages :: "outbound_message \<Rightarrow> string list \<Rightarrow> outbound_message list" where
  "chunk_messages m [] = []"
| "chunk_messages m [c] = [m\<lparr>o_text := c\<rparr>]"
| "chunk_messages m (c # cs) = (without_extras m)\<lparr>o_text := c\<rparr> # chunk_messages m cs"

text \<open>Sending one after the other, up to the first that fails: the messages given to the adapter.\<close>

fun send_until_error :: "(nat \<Rightarrow> outbound_message \<Rightarrow> bool) \<Rightarrow> nat \<Rightarrow> outbound_message list \<Rightarrow> outbound_message list" where
  "send_until_error sends i [] = []"
| "send_until_error sends i (m # ms) = m # (if sends i m then send_until_error sends (Suc i) ms else [])"

definition dispatch_outbound :: "(nat \<Rightarrow> outbound_message \<Rightarrow> bool) \<Rightarrow> outbound_message \<Rightarrow> outbound_message list" where
  "dispatch_outbound sends m =
     (if \<not> contains (o_text m) split_marker then [m]
      else if \<not> o_allow_split m then [m\<lparr>o_text := replace_all_str (o_text m) split_marker newline\<rparr>]
      else send_until_error sends 0 (chunk_messages m (split_outbound_text (o_text m))))"

section \<open>The manager\<close>

record adapter =
  ad_name :: string
  ad_account :: string
  ad_bot :: string

definition channel_key :: "string \<Rightarrow> string \<Rightarrow> string" where
  "channel_key channel account = (if account = [] then channel @ '':'' else channel @ '':'' @ account)"

text \<open>\<open>cm_launched\<close> is the log of the goroutines started for adapters, each with whether it goes through the
  lease.\<close>

record channel_manager =
  cm_channels :: "string \<Rightarrow> adapter option"
  cm_singleton :: "string set"
  cm_tg_tokens :: "string set"
  cm_started :: bool
  cm_launched :: "(adapter \<times> bool) list"

definition new_manager :: channel_manager where
  "new_manager = \<lparr>cm_channels = (\<lambda>_. None), cm_singleton = {}, cm_tg_tokens = {}, cm_started = False, cm_launched = []\<rparr>"

definition claim_telegram_token :: "string \<Rightarrow> channel_manager \<Rightarrow> bool \<times> channel_manager" where
  "claim_telegram_token token m =
     (if token = [] then (True, m) else if token \<in> cm_tg_tokens m then (False, m)
      else (True, m\<lparr>cm_tg_tokens := insert token (cm_tg_tokens m)\<rparr>))"

definition adapter_key :: "adapter \<Rightarrow> string" where
  "adapter_key a = channel_key (ad_name a) (ad_account a)"

definition register_channel :: "adapter \<Rightarrow> channel_manager \<Rightarrow> channel_manager" where
  "register_channel a m = m\<lparr>cm_channels := (cm_channels m)(adapter_key a \<mapsto> a)\<rparr>"

definition register_singleton :: "adapter \<Rightarrow> channel_manager \<Rightarrow> channel_manager" where
  "register_singleton a m = (register_channel a m)\<lparr>cm_singleton := insert (adapter_key a) (cm_singleton m)\<rparr>"

definition register_and_start :: "bool \<Rightarrow> adapter \<Rightarrow> channel_manager \<Rightarrow> channel_manager" where
  "register_and_start singleton a m =
     (let m1 = (if singleton then register_singleton a m else register_channel a m)
      in if cm_started m1 then m1\<lparr>cm_launched := cm_launched m1 @ [(a, singleton)]\<rparr> else m1)"

definition unregister_channel :: "string \<Rightarrow> string \<Rightarrow> channel_manager \<Rightarrow> channel_manager" where
  "unregister_channel channel account m = m\<lparr>cm_channels := (cm_channels m)(channel_key channel account := None)\<rparr>"

text \<open>\<open>order\<close> lists the keys of the table in the order of Go's map iteration.\<close>

definition start_manager :: "string list \<Rightarrow> channel_manager \<Rightarrow> channel_manager" where
  "start_manager order m = m\<lparr>cm_started := True, cm_launched := cm_launched m @
     map (\<lambda>k. (the (cm_channels m k), k \<in> cm_singleton m)) (filter (\<lambda>k. cm_channels m k \<noteq> None) order)\<rparr>"

definition route_outbound :: "(nat \<Rightarrow> outbound_message \<Rightarrow> bool) \<Rightarrow> channel_manager \<Rightarrow> outbound_message \<Rightarrow> (adapter \<times> outbound_message) list" where
  "route_outbound sends m msg = (case cm_channels m (channel_key (o_channel msg) (o_account msg)) of
     None \<Rightarrow> [] | Some a \<Rightarrow> map (Pair a) (dispatch_outbound sends msg))"

definition bot_username :: "channel_manager \<Rightarrow> string \<Rightarrow> string \<Rightarrow> string" where
  "bot_username m channel account = (case cm_channels m (channel_key channel account) of None \<Rightarrow> [] | Some a \<Rightarrow> ad_bot a)"

definition has_channel :: "channel_manager \<Rightarrow> string \<Rightarrow> string \<Rightarrow> bool" where
  "has_channel m channel account = (cm_channels m (channel_key channel account) \<noteq> None)"

definition get_channel :: "channel_manager \<Rightarrow> string \<Rightarrow> string \<Rightarrow> adapter option" where
  "get_channel m channel account = cm_channels m (channel_key channel account)"

section \<open>Registering a stored channel\<close>

text \<open>An account of a stored channel: id, token, and whether Feishu's long connection is used. \<open>connect\<close> is
  the constructor of the adapter, which may refuse.\<close>

record channel_account =
  ca_id :: string
  ca_token :: string
  ca_long_conn :: bool

record channel_config =
  cc_token :: string
  cc_accounts :: "channel_account list"

definition account_token :: "channel_config \<Rightarrow> channel_account \<Rightarrow> string" where
  "account_token cc a = (if ca_token a = [] then cc_token cc else ca_token a)"

definition place :: "bool \<Rightarrow> bool \<Rightarrow> adapter \<Rightarrow> channel_manager \<Rightarrow> channel_manager" where
  "place singleton hot a m = (if hot then register_and_start singleton a m
     else if singleton then register_singleton a m else register_channel a m)"

definition default_account :: "channel_config \<Rightarrow> channel_account" where
  "default_account cc = \<lparr>ca_id = [], ca_token = cc_token cc, ca_long_conn = False\<rparr>"

fun register_accounts :: "(string \<Rightarrow> string \<Rightarrow> string \<Rightarrow> string + adapter) \<Rightarrow> string \<Rightarrow> bool \<Rightarrow> channel_config
    \<Rightarrow> channel_account list \<Rightarrow> channel_manager \<Rightarrow> string option \<times> channel_manager" where
  "register_accounts connect kind hot cc [] m = (None, m)"
| "register_accounts connect kind hot cc (a # as) m =
     (let token = account_token cc a;
          (free, m1) = (if kind = ''telegram'' then claim_telegram_token token m else (True, m));
          singleton = (kind \<noteq> ''line'' \<and> (kind = ''feishu'' \<longrightarrow> ca_long_conn a))
      in if \<not> free then register_accounts connect kind hot cc as m1
         else case connect kind token (ca_id a) of
             Inl e \<Rightarrow> (Some e, m1)
           | Inr ad \<Rightarrow> register_accounts connect kind hot cc as (place singleton hot ad m1))"

definition register_instance :: "(string \<Rightarrow> string \<Rightarrow> string \<Rightarrow> string + adapter) \<Rightarrow> string \<Rightarrow> bool \<Rightarrow> channel_config
    \<Rightarrow> channel_manager \<Rightarrow> string option \<times> channel_manager" where
  "register_instance connect kind hot cc m =
     (if kind \<notin> {''telegram'', ''discord'', ''slack'', ''line'', ''wechat'', ''feishu''} then (None, m)
      else register_accounts connect kind hot cc
        (if cc_accounts cc = [] \<and> kind \<in> {''telegram'', ''discord'', ''slack''} then [default_account cc] else cc_accounts cc) m)"

section \<open>Tables in plain text\<close>

fun interior_pipe :: "char \<Rightarrow> string \<Rightarrow> bool" where
  "interior_pipe prev [] = False"
| "interior_pipe prev (c # s) = (c = CHR ''|'' \<and> prev \<noteq> CHR 0x5C \<or> interior_pipe c s)"

definition is_markdown_table_row :: "string \<Rightarrow> bool" where
  "is_markdown_table_row line = (let t = trim_space line in
     3 \<le> length t \<and> hd t = CHR ''|'' \<and> last t = CHR ''|'' \<and> interior_pipe CHR ''|'' (butlast (tl t)))"

text \<open>The cells, with the characters read of the open one.\<close>

fun read_cells :: "string \<Rightarrow> string \<Rightarrow> string list" where
  "read_cells cur [] = [trim_space cur]"
| "read_cells cur [c] = (if c = CHR ''|'' then [trim_space cur, []] else [trim_space (cur @ [c])])"
| "read_cells cur (c # d # s) =
     (if c = CHR 0x5C \<and> d = CHR ''|'' then read_cells (cur @ [CHR ''|'']) s
      else if c = CHR ''|'' then trim_space cur # read_cells [] (d # s)
      else read_cells (cur @ [c]) (d # s))"

definition parse_markdown_table_row :: "string \<Rightarrow> string list" where
  "parse_markdown_table_row line = read_cells [] (trim_suffix (trim_prefix (trim_space line) ''|'') ''|'')"

definition separator_cell :: "string \<Rightarrow> bool" where
  "separator_cell c = (let t = trim_space c; bare = trim_suffix (trim_prefix t '':'') '':'' in
     t = [] \<or> bare \<noteq> [] \<and> list_all (\<lambda>x. x = CHR ''-'') bare)"

definition is_markdown_table_separator :: "string \<Rightarrow> bool" where
  "is_markdown_table_separator line = (is_markdown_table_row line \<and> list_all separator_cell (parse_markdown_table_row line))"

definition middle_dot :: string where
  "middle_dot = '' '' @ map char_of [194 :: nat, 183] @ '' ''"

definition pad_cells :: "nat \<Rightarrow> string list \<Rightarrow> string list" where
  "pad_cells n r = r @ replicate (n - length r) []"

definition render_flat_table :: "string list list \<Rightarrow> string" where
  "render_flat_table rows = (let cols = fold max (map length rows) 0 in
     if cols = 2 then join_with newline (map (\<lambda>r. (case r of a # _ \<Rightarrow> a | [] \<Rightarrow> []) @ '': '' @ (case r of _ # b # _ \<Rightarrow> b | _ \<Rightarrow> [])) rows)
     else join_with newline (map (\<lambda>r. join_with middle_dot (pad_cells cols r)) rows))"

function flatten_lines :: "string list \<Rightarrow> string list" where
  "flatten_lines [] = []"
| "flatten_lines [l] = [l]"
| "flatten_lines (l # s # ls) =
     (if is_markdown_table_row l \<and> is_markdown_table_separator s
      then render_flat_table (parse_markdown_table_row l # map parse_markdown_table_row (takeWhile is_markdown_table_row ls))
        # flatten_lines (dropWhile is_markdown_table_row ls)
      else l # flatten_lines (s # ls))"
  by pat_completeness auto
termination
  by (relation "measure length") (auto simp: le_imp_less_Suc length_dropWhile_le less_Suc_eq_le order.trans [OF length_dropWhile_le])

definition flatten_markdown_tables :: "string \<Rightarrow> string" where
  "flatten_markdown_tables text = (if \<not> contains text ''|'' then text
     else join_with newline (flatten_lines (split_char (CHR 0x0A) text)))"

section \<open>A reply in parts\<close>

lemma cut_at_marker:
  assumes "\<not> contains p split_marker"
  shows "cut_str split_marker (p @ split_marker @ rest) = Some (p, rest)"
  using assms
proof (induction p)
  case Nil
  then show ?case by (simp add: split_marker_def)
next
  case (Cons c p)
  have "\<not> has_prefix ((c # p) @ split_marker @ rest) split_marker"
  proof
    assume prefix: "has_prefix ((c # p) @ split_marker @ rest) split_marker"
    show False
    proof (cases "length (c # p) < length split_marker")
      case True
      let ?n = "length (c # p)"
      have "split_marker ! ?n = ((c # p) @ split_marker @ rest) ! ?n"
        using prefix True unfolding has_prefix_def by (metis nth_take)
      then have "split_marker ! ?n = CHR ''<''" by (simp add: nth_append split_marker_def)
      moreover have "?n < 9" "0 < ?n" using True by (simp_all add: split_marker_def)
      then have "?n = 1 \<or> ?n = 2 \<or> ?n = 3 \<or> ?n = 4 \<or> ?n = 5 \<or> ?n = 6 \<or> ?n = 7 \<or> ?n = 8" by presburger
      ultimately show False by (auto simp: split_marker_def)
    next
      case False
      then have "length split_marker - length (c # p) = 0" by simp
      then have "take (length split_marker) ((c # p) @ split_marker @ rest) = take (length split_marker) (c # p)"
        by (simp only: take_append take_0 diff_0_eq_0 append_Nil append_Nil2)
      then have "take (length split_marker) (c # p) = split_marker" using prefix unfolding has_prefix_def by (simp only:)
      then have "has_prefix (c # p) split_marker" by (simp add: has_prefix_def)
      with Cons.prems show False by simp
    qed
  qed
  moreover have "\<not> contains p split_marker" using Cons.prems by simp
  ultimately show ?case using Cons.IH by (simp only: append_Cons cut_str.simps if_False) simp
qed

lemma split_join_marker:
  assumes "ps \<noteq> []" and "\<forall>p \<in> set ps. \<not> contains p split_marker"
  shows "split_str split_marker (join_with split_marker ps) = ps"
  using assms
proof (induction ps rule: induct_list012)
  case (2 p)
  then have "cut_str split_marker p = None" by (simp add: cut_str_None)
  then show ?case by (simp add: split_str.simps [of _ p] split_marker_def)
next
  case (3 p q ps)
  have "split_marker \<noteq> []" by (simp add: split_marker_def)
  moreover have "cut_str split_marker (p @ split_marker @ join_with split_marker (q # ps)) = Some (p, join_with split_marker (q # ps))"
    by (rule cut_at_marker) (use 3 in simp)
  ultimately show ?case using 3 by (simp add: split_str.simps [of _ "p @ _"])
qed simp

lemma send_all: "send_until_error (\<lambda>_ _. True) i ms = ms"
  by (induction ms arbitrary: i) simp_all

lemma chunk_texts: "map o_text (chunk_messages m cs) = cs"
  by (induction m cs rule: chunk_messages.induct) (simp_all add: without_extras_def)

lemma chunk_extras: "x \<in> set (butlast (chunk_messages m cs)) \<Longrightarrow> x = (without_extras m)\<lparr>o_text := o_text x\<rparr>"
proof (induction m cs rule: chunk_messages.induct)
  case (3 m c d cs)
  then show ?case by (cases "chunk_messages m (d # cs)") auto
qed simp_all

lemma chunk_last: "cs \<noteq> [] \<Longrightarrow> last (chunk_messages m cs) = m\<lparr>o_text := last cs\<rparr>"
proof (induction m cs rule: chunk_messages.induct)
  case (3 m c d cs)
  then show ?case by (cases cs) simp_all
qed simp_all

definition shown_parts :: "string list \<Rightarrow> string list" where
  "shown_parts ps = filter (\<lambda>p. trim_space p \<noteq> []) ps"

lemma join_contains_marker: "2 \<le> length ps \<Longrightarrow> contains (join_with split_marker ps) split_marker"
proof (cases ps rule: remdups_adj.cases)
  case (3 p q qs)
  then show ?thesis by (simp only: join_with.simps contains_iff) blast
qed auto

text \<open>C15: The parts of a turn's reply reach a chat with splitting as one bubble each, trimmed, in order, blank ones
  left out, and only the last bubble carries the attachments.\<close>

theorem reply_parts_delivered:
  assumes "\<forall>p \<in> set parts. \<not> contains p split_marker" and "2 \<le> length (shown_parts parts)"
    and "o_text m = join_reply_parts parts" and "o_allow_split m"
  shows "map o_text (dispatch_outbound (\<lambda>_ _. True) m) = map trim_space (shown_parts parts) \<and>
    (\<forall>x \<in> set (butlast (dispatch_outbound (\<lambda>_ _. True) m)). x = (without_extras m)\<lparr>o_text := o_text x\<rparr>) \<and>
    last (dispatch_outbound (\<lambda>_ _. True) m) = m\<lparr>o_text := trim_space (last (shown_parts parts))\<rparr>"
proof -
  let ?ps = "shown_parts parts"
  have joined: "o_text m = join_with split_marker ?ps" using assms(3) by (simp add: join_reply_parts_def shown_parts_def)
  have "split_str split_marker (o_text m) = ?ps"
    unfolding joined using assms(1,2) by (intro split_join_marker) (auto simp: shown_parts_def)
  moreover have "trim_space p \<noteq> []" if "p \<in> set ?ps" for p using that by (simp add: shown_parts_def)
  ultimately have chunks: "split_outbound_text (o_text m) = map trim_space ?ps"
    by (auto simp: split_outbound_text_def filter_id_conv)
  have d: "dispatch_outbound (\<lambda>_ _. True) m = chunk_messages m (map trim_space ?ps)"
    using assms(2,4) join_contains_marker [of ?ps] by (simp add: dispatch_outbound_def joined send_all chunks [unfolded joined])
  have nonempty: "map trim_space ?ps \<noteq> []" "?ps \<noteq> []" using assms(2) by auto
  have "last (chunk_messages m (map trim_space ?ps)) = m\<lparr>o_text := trim_space (last ?ps)\<rparr>"
    using chunk_last [OF nonempty(1)] nonempty(2) by (simp add: last_map)
  moreover have "\<forall>x \<in> set (butlast (chunk_messages m (map trim_space ?ps))). x = (without_extras m)\<lparr>o_text := o_text x\<rparr>"
    using chunk_extras by blast
  ultimately show ?thesis unfolding d chunk_texts by blast
qed

section \<open>Registering again\<close>

text \<open>The leased goroutines of a process with the id it acquires leases under.\<close>

definition leased_ids :: "string \<Rightarrow> channel_manager \<Rightarrow> (lease_key \<times> string) list" where
  "leased_ids holder m = map (\<lambda>(a, _). (Lease_Key (ad_name a) (ad_account a), holder)) (filter snd (cm_launched m))"

text \<open>C30: Saving a leased channel twice on a running server starts a second goroutine with the id of the first, which
  the lease does not hold back: both adapters poll.\<close>

theorem saved_twice_polls_twice:
  assumes "cm_started m" and "cm_launched m = []" and "kind \<in> {''discord'', ''slack'', ''wechat''}"
    and "cc_accounts cc = [a]" and "connect kind (account_token cc a) (ca_id a) = Inr ad"
  shows "\<exists>s. lease_run store_leaser [Acquire 0 Acknowledged, Pass d, Acquire 1 Acknowledged]
      (idle_fleet [] now (leased_ids h (snd (register_instance connect kind True cc (snd (register_instance connect kind True cc m)))))) = Some s \<and>
    adapter_runs (rn_phase (fl_runners s ! 0)) \<and> adapter_runs (rn_phase (fl_runners s ! 1)) \<and>
    rn_key (fl_runners s ! 0) = rn_key (fl_runners s ! 1)"
proof -
  have "leased_ids h (snd (register_instance connect kind True cc (snd (register_instance connect kind True cc m)))) =
      replicate 2 (Lease_Key (ad_name ad) (ad_account ad), h)"
    using assms by (auto simp: register_instance_def place_def register_and_start_def register_singleton_def register_channel_def
        leased_ids_def Let_def numeral_2_eq_2)
  then show ?thesis
    by (simp add: numeral_2_eq_2 demo_lease_defs)
qed

text \<open>A Telegram bot that is disconnected and connected again on a running server is not registered: its
  token is still claimed, and no reply is delivered any more.\<close>

theorem reconnected_telegram_is_mute:
  assumes "cc_accounts cc = [a]" and "account_token cc a \<noteq> []"
    and "connect ''telegram'' (account_token cc a) (ca_id a) = Inr \<lparr>ad_name = ''telegram'', ad_account = ca_id a, ad_bot = b\<rparr>"
    and "o_channel msg = ''telegram''" and "o_account msg = ca_id a"
  shows "route_outbound sends (snd (register_instance connect ''telegram'' True cc
      (unregister_channel ''telegram'' (ca_id a) (snd (register_instance connect ''telegram'' True cc m))))) msg = []"
  using assms
  by (auto simp: register_instance_def place_def register_and_start_def register_singleton_def register_channel_def
      claim_telegram_token_def unregister_channel_def route_outbound_def Let_def adapter_key_def)

section \<open>Witnesses\<close>

definition demo_outbound :: "string \<Rightarrow> outbound_message" where
  "demo_outbound s = \<lparr>o_channel = ''telegram'', o_account = ''b'', o_agent = ''a'', o_chat = ''c'', o_text = s, o_reply_to = [],
     o_parse_mode = [], o_buttons = [], o_edit = [], o_paths = [''/tmp/x.png''], o_items = [], o_allow_split = True\<rparr>"

definition demo_config :: channel_config where
  "demo_config = \<lparr>cc_token = [], cc_accounts = [\<lparr>ca_id = ''b'', ca_token = ''t'', ca_long_conn = False\<rparr>]\<rparr>"

definition demo_connect :: "string \<Rightarrow> string \<Rightarrow> string \<Rightarrow> string + adapter" where
  "demo_connect kind token account = Inr \<lparr>ad_name = kind, ad_account = account, ad_bot = ''bot''\<rparr>"

lemma demo_part_trims: "trim_space ''one'' = ''one''" "trim_space '' '' = []" "trim_space ''two '' = ''two''"
  by (simp_all add: trim_space_def trim_right_runes_def trim_left_runes_def is_space_def in_range_def)

theorem reply_parts_delivered_witness:
  "map o_text (dispatch_outbound (\<lambda>_ _. True) (demo_outbound (join_reply_parts [''one'', '' '', ''two '']))) = [''one'', ''two''] \<and>
   map o_paths (dispatch_outbound (\<lambda>_ _. True) (demo_outbound (join_reply_parts [''one'', '' '', ''two '']))) = [[], [''/tmp/x.png'']]"
proof -
  let ?parts = "[''one'', '' '', ''two '']" and ?m = "demo_outbound (join_reply_parts [''one'', '' '', ''two ''])"
  let ?d = "dispatch_outbound (\<lambda>_ _. True) ?m"
  have shown: "shown_parts ?parts = [''one'', ''two '']" by (simp add: shown_parts_def demo_part_trims)
  have d: "map o_text ?d = map trim_space (shown_parts ?parts)" "\<forall>x \<in> set (butlast ?d). x = (without_extras ?m)\<lparr>o_text := o_text x\<rparr>"
    "last ?d = ?m\<lparr>o_text := trim_space (last (shown_parts ?parts))\<rparr>"
    using reply_parts_delivered [of ?parts ?m] by (simp_all add: shown demo_outbound_def split_marker_def)
  then have texts: "map o_text ?d = [''one'', ''two'']" by (simp add: shown demo_part_trims)
  then obtain x y where xy: "?d = [x, y]" by auto
  have "x \<in> set (butlast ?d)" unfolding xy by simp
  from arg_cong [OF bspec [OF d(2) this], of o_paths] have "o_paths x = []" by (simp add: without_extras_def)
  moreover have "y = ?m\<lparr>o_text := trim_space (last (shown_parts ?parts))\<rparr>" using d(3) unfolding xy by simp
  then have "o_paths y = [''/tmp/x.png'']" by (simp add: demo_outbound_def)
  ultimately have "map o_paths ?d = [[], [''/tmp/x.png'']]" unfolding xy by simp
  with texts show ?thesis by (rule conjI)
qed

theorem saved_twice_polls_twice_witness:
  "\<exists>s. lease_run store_leaser [Acquire 0 Acknowledged, Pass 5, Acquire 1 Acknowledged]
      (idle_fleet [] 7 (leased_ids ''p'' (snd (register_instance demo_connect ''discord'' True demo_config
        (snd (register_instance demo_connect ''discord'' True demo_config (new_manager\<lparr>cm_started := True\<rparr>))))))) = Some s \<and>
    adapter_runs (rn_phase (fl_runners s ! 0)) \<and> adapter_runs (rn_phase (fl_runners s ! 1)) \<and>
    rn_key (fl_runners s ! 0) = rn_key (fl_runners s ! 1)"
  by (rule saved_twice_polls_twice) (simp_all add: new_manager_def demo_config_def demo_connect_def)

theorem reconnected_telegram_is_mute_witness:
  "route_outbound (\<lambda>_ _. True) (snd (register_instance demo_connect ''telegram'' True demo_config
      (unregister_channel ''telegram'' (ca_id \<lparr>ca_id = ''b'', ca_token = ''t'', ca_long_conn = False\<rparr>)
        (snd (register_instance demo_connect ''telegram'' True demo_config new_manager))))) (demo_outbound ''hi'') = [] \<and>
   length (route_outbound (\<lambda>_ _. True) (snd (register_instance demo_connect ''telegram'' True demo_config new_manager)) (demo_outbound ''hi'')) = 1"
proof
  show "route_outbound (\<lambda>_ _. True) (snd (register_instance demo_connect ''telegram'' True demo_config
      (unregister_channel ''telegram'' (ca_id \<lparr>ca_id = ''b'', ca_token = ''t'', ca_long_conn = False\<rparr>)
        (snd (register_instance demo_connect ''telegram'' True demo_config new_manager))))) (demo_outbound ''hi'') = []"
    by (rule reconnected_telegram_is_mute) (simp_all add: demo_config_def demo_connect_def account_token_def demo_outbound_def)
qed (simp add: demo_config_def demo_connect_def demo_outbound_def register_instance_def place_def register_and_start_def
    register_singleton_def register_channel_def claim_telegram_token_def account_token_def route_outbound_def dispatch_outbound_def
    new_manager_def adapter_key_def channel_key_def split_marker_def Let_def)

end
