(* ===== verification/Spec2Isabelle.thy ===== *)
theory Spec2Isabelle
  imports Policy File_Tools Rate_Limit Cron Goal Usage Routing History Event_Stream Session Turn_Laws Channels
begin

text \<open>
  A model of the core of the claw agent server (Go, under \<^verbatim>\<open>src/internal\<close>).

  \<^bold>\<open>The program.\<close> A chat platform's adapter hands the gateway an inbound message. The gateway
  (\<^verbatim>\<open>gateway/routing.go\<close>) finds the owner of the receiving channel, drops redeliveries
  (\<^verbatim>\<open>gateway/dedup.go\<close>), finds or makes the sender's account (\<^verbatim>\<open>users/account.go\<close>
  over \<^verbatim>\<open>store/database.go\<close>), picks the agents by the owner's bindings and either steers the
  message into a running turn or submits it to the task queue (\<^verbatim>\<open>taskqueue/queue.go\<close>), which runs
  one task per chat at a time under a global bound. A turn (\<^verbatim>\<open>agent/loop.go\<close>) checks the owner's quota
  and meters its model calls (\<^verbatim>\<open>usage\<close>), appends the user's message to the session
  (\<^verbatim>\<open>session/session.go\<close>), repairs and prunes the history (\<^verbatim>\<open>agent/compaction.go\<close>),
  alternates model calls, whose wire form is built by \<^verbatim>\<open>provider\<close>, with tool calls (the file tools
  and \<^verbatim>\<open>apply_patch\<close> of \<^verbatim>\<open>agent/tools\<close>, behind the policy of \<^verbatim>\<open>policy\<close>),
  and ends with the goal hook, which may publish a continuation message on the bus
  (\<^verbatim>\<open>agent/goal\<close>, \<^verbatim>\<open>agent/goal_hook.go\<close>). What happens in a turn is recorded as
  numbered events, which open browser tabs follow live and replay after a reconnection. The reply goes
  over the bus to the channel manager (\<^verbatim>\<open>channels/manager.go\<close>), which splits and delivers it; of the
  processes of a deployment the one that holds an account's lease (\<^verbatim>\<open>channels/lease.go\<close>) runs its adapter.
  The cron scheduler (\<^verbatim>\<open>cron/scheduler.go\<close>) publishes the messages of due jobs. The web side
  resolves each request to an identity (\<^verbatim>\<open>auth/auth.go\<close>) before an endpoint of
  \<^verbatim>\<open>setup\<close> changes accounts or API keys; the API server limits its rate
  (\<^verbatim>\<open>api/ratelimit.go\<close>).

  \<^bold>\<open>Theories.\<close>
  \<^item> \<open>Claw_Prelude\<close>: types, sequencing of fallible steps, the table algebra that models SQL statements
    (a table is the list of its rows), the collection \<open>table_simps\<close>.
  \<^item> \<open>Go_Strings\<close>, \<open>Go_Glob\<close>, \<open>Go_Paths\<close>, \<open>Go_Time\<close>: the parts of Go's standard library
    the code uses, with their laws (UTF-8 decoding, \<^verbatim>\<open>filepath.Match\<close> and
    \<^verbatim>\<open>Clean\<close>, the proleptic Gregorian calendar and its inverse).
  \<^item> \<open>Policy\<close>: policy data, the presets, matchers and the three checks.
  \<^item> \<open>Patch\<close>: the patch language, its line parser as a state machine, the hunk applier, the two-phase
    engine over the locale \<open>patch_backend\<close>; \<open>print_patch\<close> is the reference printer.
  \<^item> \<open>File_Store\<close>, \<open>File_Tools\<close>: host disk, workspace store and agent file table, and the
    routing, gates and handlers over them, which interpret \<open>patch_backend\<close> for the workspace.
  \<^item> \<open>Rate_Limit\<close>: the sliding window of a client, as runs of timed events.
  \<^item> \<open>Bus\<close>: messages, session triples and the duplicate filter.
  \<^item> \<open>Task_Queue\<close>: the queue's critical sections and channel operations as one event each of a step
    relation; reachability, the inductive invariant, and the per-chat order.
  \<^item> \<open>Cron\<close>: expressions, the minute scan, one scheduler pass over the locale \<open>cron_store\<close>, which
    the job table interprets; interleavings of the passes of several servers.
  \<^item> \<open>Goal\<close>: the goal record, its table, hooks and commands; every handler split at its read, so that
    \<open>goal_reach\<close> interleaves handlers.
  \<^item> \<open>Usage\<close>: both meters under the locale \<open>token_meter\<close>, billing windows, quotas, and turns.
  \<^item> \<open>Users\<close>: the identity tables statement by statement, the account registry and the API keys.
  \<^item> \<open>Account_Laws\<close>: the locale \<open>step_invariant\<close> (an invariant kept by the statements is kept by
    the operations), the contract \<open>users_step\<close> and the proof that each operation refines it.
  \<^item> \<open>Auth\<close>: identities, credentials, gates, and the account and key endpoints.
  \<^item> \<open>Routing\<close>: one inbound message, from the owner of the channel to the queue.
  \<^item> \<open>Chat\<close>: messages, content parts and tool calls, the request bodies of the OpenAI and Anthropic
    clients, and the judgements on them (every call answered, roles alternate).
  \<^item> \<open>History\<close>: the repairs before a model call: orphans dropped, missing results filled in, pruning and
    compaction, undo.
  \<^item> \<open>Session_Store\<close>: the session, archive and event tables, one definition per statement; \<open>Session\<close>:
    the session object over them and the registry that finds, opens and switches sessions, with the
    steering queue; \<open>Event_Stream\<close>: the hub of live events, its subscribers and the tabs that follow it.
  \<^item> \<open>Turn\<close>, \<open>Turn_Laws\<close>: one turn from the quota check to the goal hook, over parameters for the
    model's answers and the tools' results; what a turn does to the session's history.
  \<^item> \<open>Lease\<close>: the lease statements, the locale \<open>lease_laws\<close> that the database leaser interprets, and
    the processes of a deployment as a step relation with one clock.
  \<^item> \<open>Channels\<close>: the table of adapters, registration, delivery of replies, Markdown tables as text.

  \<^bold>\<open>How the code is read.\<close> A Go struct is a record, a returned \<^verbatim>\<open>error\<close> a sum or an option with
  a constructor per message, a mutex-protected section one step, a map a partial function, time a number
  of nanoseconds. A database carries a plan of driver errors (or a fault field) for the statements to
  come, so every statement can fail; rows stay in insertion order. SQLite and Postgres differ where the
  code's queries do (\<open>dialect\<close>: LIKE ignores the case of ASCII letters on SQLite). What is not in the
  repository is a parameter: bcrypt, SHA-256, Unicode lower case and random ids (\<open>golib\<close>, \<open>random\<close>),
  the time-zone database, the sandbox executor, the texts of prompt templates, the loading of a user
  space, the answers of the model and the results of the tools (indexed by the number of the call).
  Endpoints are those of a configured server with a store.

  \<^bold>\<open>What is shown.\<close> Parsing inverts printing of patches, an applied patch is located and atomic, and
  the workspace backend implements the engine's contract; resolved paths stay below their root; the
  policy's write check confines writes; turns of a chat never overlap while its queue is registered,
  never exceed the bound, and the one schedule in which they do overlap is exhibited; a finished goal
  stays finished; the next occurrence of a schedule is the least match; a locked job fires once; the two
  meters agree; the quota holds up to one turn; accounts and keys keep their uniqueness under all
  operations and driver answers; a disabled account is refused everywhere; an agent key reaches its
  agents only; a group message reaches each bound agent once. Every request body answers its tool calls and
  a turn keeps the stored history sound; compaction keeps calls and results together; a turn ends for every
  behaviour of the model and the tools; steering messages are neither lost nor doubled; a tab that follows a
  turn sees every event once and in order; at most one process runs an account's adapter and a silent
  lease passes on; a reply is delivered in order and whole. The remaining properties state where the
  code departs from what its comments promise, each with a concrete run.

  \<^bold>\<open>Bounds and fuel.\<close> No definition runs on fuel except \<open>next_scan\<close>, whose bound is the code's own
  48-hour limit, and the glob matcher, which recurses on the length of the pattern. The loop of a turn
  recurses on the code's own maximum of iterations, and the retries of a model call on its three attempts.
  Leases have the code's terms: 30 seconds, renewed every 10. Counters of the meters are unbounded
  integers; the goal's token counters wrap at 64 bits as in Go; the duplicate filter's hash is a 32-bit word.

  \<^bold>\<open>Not modelled.\<close> Network clients of outside services: the HTTP side of the model providers, the adapters
  of the chat platforms, sandboxes, MCP, plugins, push, webhooks and the Redis leaser and bridge. The
  streaming variant of the turn (it repeats the loop of the modelled one), prompt building, memory, sub-agents
  and the parser that recovers tool calls from text. The skills installer; the set-up, upload and listing
  endpoints; migrations; configuration files and the command line.
\<close>

end
